(* ===== verification/Go_Prelude.thy ===== *)
theory Go_Prelude
  imports Complex_Main "HOL-Library.Word" "HOL-Library.Multiset" "HOL-Library.AList"
    "HOL-Library.Code_Target_Nat"
begin

text \<open>
  What every component of the model shares: the error values, the result type of a Go
  function that returns \<open>(value, error)\<close>, machine integers, and the order in which a Go
  \<open>range\<close> visits a map.

  A Go \<open>error\<close> is a value of \<open>err\<close>: one constructor per error the code creates or tells
  apart. Its (Chinese) message text is not modelled. A function \<open>f(...) (T, error)\<close> is a
  function into \<open>'a res\<close>: \<open>Inl\<close> for the error return, \<open>Inr\<close> for the value.
\<close>

section \<open>Errors and results\<close>

datatype err =
    E_address                \<comment> \<open>not 40 hexadecimal characters\<close>
  | E_hex_length             \<comment> \<open>a hexadecimal value of the wrong length\<close>
  | E_hex_digit              \<comment> \<open>a non-hexadecimal character\<close>
  | E_id_width               \<comment> \<open>event key wider than 8+4+4 digits\<close>
  | E_quantity string        \<comment> \<open>FIFO event with a quantity that is no decimal integer\<close>
  | E_quantity_sign string   \<comment> \<open>FIFO event with a quantity that is not positive\<close>
  | E_decimals string        \<comment> \<open>FIFO sell whose decimals differ from the lot's\<close>
  | E_category string        \<comment> \<open>registration of a category out of scope\<close>
  | E_catalog string         \<comment> \<open>a required catalog rule is missing\<close>
  | E_event                  \<comment> \<open>the log is not the expected event\<close>
  | E_shape                  \<comment> \<open>topic or data length of an event is wrong\<close>
  | E_word_length            \<comment> \<open>an ABI word is not 32 bytes long\<close>
  | E_word_padding           \<comment> \<open>an ABI word's high bytes are not the extension of the value\<close>
  | E_no_initialize          \<comment> \<open>no matching Initialize in the transaction\<close>
  | E_initialize             \<comment> \<open>the Initialize found contradicts the launch\<close>
  | E_pool_id                \<comment> \<open>Swap of another pool\<close>
  | E_amount                 \<comment> \<open>negative transfer amount\<close>
  | E_attribution            \<comment> \<open>no unique user\<close>
  | E_direction              \<comment> \<open>the sign of a Swap contradicts the net transfer\<close>
  | E_fallback               \<comment> \<open>price legs not recoverable after a failed attribution\<close>
  | E_number                 \<comment> \<open>a number of the RPC is malformed or out of range\<close>
  | E_receipts               \<comment> \<open>receipts do not match the block\<close>
  | E_block                  \<comment> \<open>a block other than the requested one\<close>
  | E_probe                  \<comment> \<open>receipt capability not probed yet\<close>
  | E_trace                  \<comment> \<open>callTracer output malformed or over its bounds\<close>
  | E_reorg                  \<comment> \<open>canonical parent differs from the block's parent hash\<close>
  | E_rpc nat                \<comment> \<open>a failed remote call (the number tells failures apart)\<close>
  | E_store nat              \<comment> \<open>a failed database statement\<close>
  | E_no_rows                \<comment> \<open>\<open>sql.ErrNoRows\<close>\<close>
  | E_conflict string string string \<comment> \<open>\<open>LaunchCategoryConflictError\<close>: token, existing, incoming\<close>
  | E_no_feed                \<comment> \<open>\<open>ErrNoFeed\<close>\<close>
  | E_price                  \<comment> \<open>a price or price point that is not positive\<close>
  | E_limit                  \<comment> \<open>a query limit out of range\<close>
  | E_cursor                 \<comment> \<open>a malformed page cursor\<close>
  | E_config                 \<comment> \<open>a configuration value out of range\<close>
  | E_interval               \<comment> \<open>refresh interval out of range\<close>
  | E_cancelled              \<comment> \<open>\<open>context.Canceled\<close>\<close>
  | E_endpoint string nat err \<comment> \<open>\<open>EndpointError\<close>: label of the endpoint, HTTP status, cause\<close>
  | E_http nat               \<comment> \<open>an HTTP status other than 2xx, or 429 for a limited answer\<close>
  | E_transport              \<comment> \<open>a failed or timed-out HTTP request\<close>
  | E_json                   \<comment> \<open>an answer that does not decode\<close>
  | E_rpc_error int string   \<comment> \<open>\<open>rpcError\<close>: code and message\<close>
  | E_rpc_id                 \<comment> \<open>an answer with a foreign, missing or repeated id\<close>
  | E_null                   \<comment> \<open>an answer \<open>null\<close>\<close>
  | E_too_large              \<comment> \<open>an answer over the byte limit\<close>
  | E_abi                    \<comment> \<open>a malformed ABI string\<close>
  | E_metadata               \<comment> \<open>unusable token metadata\<close>
  | E_panic                  \<comment> \<open>a run-time panic\<close>
  | E_closed                 \<comment> \<open>\<open>ErrWriterClosed\<close>\<close>
  | E_migration string       \<comment> \<open>a migration that was applied and then edited\<close>

type_synonym 'a res = "err + 'a"

named_theorems res_simps \<open>case analysis of results of fallible operations\<close>

definition bindE :: "'a res \<Rightarrow> ('a \<Rightarrow> 'b res) \<Rightarrow> 'b res" where
  "bindE m f = (case m of Inl e \<Rightarrow> Inl e | Inr x \<Rightarrow> f x)"

definition guardE :: "bool \<Rightarrow> err \<Rightarrow> 'a res \<Rightarrow> 'a res" where
  "guardE bad e m = (if bad then Inl e else m)"

lemma bindE_Inl [simp]: "bindE (Inl e) f = Inl e"
  and bindE_Inr [simp]: "bindE (Inr x) f = f x"
  by (simp_all add: bindE_def)

lemma bindE_eq_Inr [res_simps]: "bindE m f = Inr y \<longleftrightarrow> (\<exists>x. m = Inr x \<and> f x = Inr y)"
  by (cases m) auto

lemma bindE_eq_Inl [res_simps]:
  "bindE m f = Inl e \<longleftrightarrow> m = Inl e \<or> (\<exists>x. m = Inr x \<and> f x = Inl e)"
  by (cases m) auto

lemma guardE_simps [simp]: "guardE True e m = Inl e" "guardE False e m = m"
  by (simp_all add: guardE_def)

lemma guardE_eq_Inr [res_simps]: "guardE b e m = Inr y \<longleftrightarrow> \<not> b \<and> m = Inr y"
  by (simp add: guardE_def)

lemma guardE_eq_Inl [res_simps]: "guardE b e m = Inl e' \<longleftrightarrow> (b \<and> e = e') \<or> (\<not> b \<and> m = Inl e')"
  by (auto simp: guardE_def)

lemma bindE_cong [fundef_cong]:
  "\<lbrakk>m = m'; \<And>x. m' = Inr x \<Longrightarrow> f x = f' x\<rbrakk> \<Longrightarrow> bindE m f = bindE m' f'"
  by (cases m') auto

lemma guardE_cong [fundef_cong]:
  "\<lbrakk>b = b'; e = e'; \<not> b' \<Longrightarrow> m = m'\<rbrakk> \<Longrightarrow> guardE b e m = guardE b' e' m'"
  by (simp add: guardE_def)

definition is_ok :: "'a res \<Rightarrow> bool" where
  "is_ok r = (case r of Inl _ \<Rightarrow> False | Inr _ \<Rightarrow> True)"

lemma is_ok_simps [simp]: "\<not> is_ok (Inl e)" "is_ok (Inr x)"
  by (simp_all add: is_ok_def)

text \<open>A loop that builds a slice and returns at the first error.\<close>

fun mapE :: "('a \<Rightarrow> 'b res) \<Rightarrow> 'a list \<Rightarrow> 'b list res" where
  "mapE f [] = Inr []"
| "mapE f (x # xs) = bindE (f x) (\<lambda>y. bindE (mapE f xs) (\<lambda>ys. Inr (y # ys)))"

lemma mapE_eq_Inr: "mapE f xs = Inr ys \<longleftrightarrow> list_all2 (\<lambda>x y. f x = Inr y) xs ys"
proof (induction xs arbitrary: ys)
  case Nil
  then show ?case by auto
next
  case (Cons x xs)
  then show ?case by (cases ys) (auto simp: res_simps)
qed

lemma mapE_length: "mapE f xs = Inr ys \<Longrightarrow> length ys = length xs"
  by (auto simp: mapE_eq_Inr dest: list_all2_lengthD)

text \<open>A loop that updates a state and returns at the first error.\<close>

fun foldE :: "('a \<Rightarrow> 's \<Rightarrow> 's res) \<Rightarrow> 'a list \<Rightarrow> 's \<Rightarrow> 's res" where
  "foldE f [] s = Inr s"
| "foldE f (x # xs) s = bindE (f x s) (foldE f xs)"

section \<open>Machine integers\<close>

type_synonym u64 = "64 word"
type_synonym byte = "8 word"

section \<open>Go maps and the order of \<open>range\<close>\<close>

text \<open>
  A Go map is a partial function. Where the code ranges over one, the visiting order is
  unspecified by the language: \<open>iterates m xs\<close> says that \<open>xs\<close> is one of the possible
  sequences of key/value pairs.
\<close>

definition iterates :: "('k \<rightharpoonup> 'v) \<Rightarrow> ('k \<times> 'v) list \<Rightarrow> bool" where
  "iterates m xs \<longleftrightarrow> distinct (map fst xs) \<and> map_of xs = m"

lemma iterates_set: "iterates m xs \<Longrightarrow> set xs = {(k, v). m k = Some v}"
  by (auto simp: iterates_def)

lemma iterates_distinct: "iterates m xs \<Longrightarrow> distinct xs"
  by (auto simp: iterates_def distinct_map)

lemma iterates_mset: "\<lbrakk>iterates m xs; iterates m ys\<rbrakk> \<Longrightarrow> mset xs = mset ys"
  by (metis iterates_set iterates_distinct set_eq_iff_mset_eq_distinct)

lemma iterates_perm: "\<lbrakk>iterates m xs; mset ys = mset xs\<rbrakk> \<Longrightarrow> iterates m ys"
  unfolding iterates_def
  by (metis map_of_eqI mset_map distinct_map mset_eq_imp_distinct_iff set_mset_mset
      map_of_eq_Some_iff map_of_inject_set)

end
