(* ===== verification/Go_Text.thy ===== *)
theory Go_Text
  imports Go_Prelude "HOL-Library.Char_ord" "HOL-Library.List_Lexorder" "HOL-Library.Sublist"
begin

text \<open>
  The part of Go's \<open>strings\<close>, \<open>strconv\<close>, \<open>encoding/hex\<close>, \<open>fmt\<close> and \<open>math/big\<close>
  the program uses on text. A Go string is a sequence of bytes, and an Isabelle \<open>string\<close> is
  one too: \<open>length\<close> counts bytes and \<open><\<close> is Go's bytewise order. \<open>to_lower\<close> and
  \<open>to_upper\<close> fold the ASCII letters (the texts the program folds are hexadecimal numbers,
  enumeration names and error messages searched for ASCII phrases); \<open>trim_space\<close> removes the
  UTF-8 encodings of all white space of \<open>unicode.IsSpace\<close>.
\<close>

section \<open>Case folding\<close>

definition lower_char :: "char \<Rightarrow> char" where
  "lower_char c = (if CHR ''A'' \<le> c \<and> c \<le> CHR ''Z'' then char_of (of_char c + (32::nat)) else c)"

definition upper_char :: "char \<Rightarrow> char" where
  "upper_char c = (if CHR ''a'' \<le> c \<and> c \<le> CHR ''z'' then char_of (of_char c - (32::nat)) else c)"

definition to_lower :: "string \<Rightarrow> string" where
  "to_lower s = map lower_char s"

definition to_upper :: "string \<Rightarrow> string" where
  "to_upper s = map upper_char s"

definition equal_fold :: "string \<Rightarrow> string \<Rightarrow> bool" where
  "equal_fold a b \<longleftrightarrow> to_lower a = to_lower b"

lemma char_le_iff: "a \<le> b \<longleftrightarrow> (of_char a :: nat) \<le> of_char b" for a b :: char
  by (simp add: less_eq_char_def)

lemma lower_char_idem [simp]: "lower_char (lower_char c) = lower_char c"
  by (auto simp: lower_char_def char_le_iff)

lemma to_lower_simps [simp]:
  "to_lower [] = []" "to_lower (c # s) = lower_char c # to_lower s"
  "to_lower (s @ t) = to_lower s @ to_lower t" "length (to_lower s) = length s"
  by (simp_all add: to_lower_def)

lemma to_lower_idem [simp]: "to_lower (to_lower s) = to_lower s"
  by (induction s) auto

lemma to_lower_drop: "to_lower (drop n s) = drop n (to_lower s)"
  and to_lower_take: "to_lower (take n s) = take n (to_lower s)"
  by (simp_all add: to_lower_def drop_map take_map)

section \<open>Prefixes and white space\<close>

definition has_prefix :: "string \<Rightarrow> string \<Rightarrow> bool" where
  "has_prefix s p \<longleftrightarrow> take (length p) s = p"

definition trim_prefix :: "string \<Rightarrow> string \<Rightarrow> string" where
  "trim_prefix s p = (if has_prefix s p then drop (length p) s else s)"

fun contains_sub :: "string \<Rightarrow> string \<Rightarrow> bool" where
  "contains_sub [] p = (p = [])"
| "contains_sub (c # s) p = (has_prefix (c # s) p \<or> contains_sub s p)"

definition space1 :: "char \<Rightarrow> bool" where
  "space1 c \<longleftrightarrow> c \<in> {CHR 0x09, CHR 0x0A, CHR 0x0B, CHR 0x0C, CHR 0x0D, CHR 0x20}"

definition space2 :: "char \<Rightarrow> char \<Rightarrow> bool" where
  "space2 c d \<longleftrightarrow> c = CHR 0xC2 \<and> d \<in> {CHR 0x85, CHR 0xA0}"

definition space3 :: "char \<Rightarrow> char \<Rightarrow> char \<Rightarrow> bool" where
  "space3 c d e \<longleftrightarrow>
     (c = CHR 0xE1 \<and> d = CHR 0x9A \<and> e = CHR 0x80) \<or>
     (c = CHR 0xE2 \<and> d = CHR 0x80 \<and> (CHR 0x80 \<le> e \<and> e \<le> CHR 0x8A \<or> e \<in> {CHR 0xA8, CHR 0xA9, CHR 0xAF})) \<or>
     (c = CHR 0xE2 \<and> d = CHR 0x81 \<and> e = CHR 0x9F) \<or>
     (c = CHR 0xE3 \<and> d = CHR 0x80 \<and> e = CHR 0x80)"

fun trim_left :: "string \<Rightarrow> string" where
  "trim_left [] = []"
| "trim_left [c] = (if space1 c then [] else [c])"
| "trim_left [c, d] =
     (if space1 c then trim_left [d] else if space2 c d then [] else [c, d])"
| "trim_left (c # d # e # s) =
     (if space1 c then trim_left (d # e # s)
      else if space2 c d then trim_left (e # s)
      else if space3 c d e then trim_left s
      else c # d # e # s)"

text \<open>The same from the right end, on the reversed text.\<close>

fun trim_left_rev :: "string \<Rightarrow> string" where
  "trim_left_rev [] = []"
| "trim_left_rev [c] = (if space1 c then [] else [c])"
| "trim_left_rev [d, c] =
     (if space1 d then trim_left_rev [c] else if space2 c d then [] else [d, c])"
| "trim_left_rev (e # d # c # s) =
     (if space1 e then trim_left_rev (d # c # s)
      else if space2 d e then trim_left_rev (c # s)
      else if space3 c d e then trim_left_rev s
      else e # d # c # s)"

definition trim_space :: "string \<Rightarrow> string" where
  "trim_space s = rev (trim_left_rev (rev (trim_left s)))"

definition plain_text :: "string \<Rightarrow> bool" where
  \<comment> \<open>printable ASCII without blanks: nothing to trim\<close>
  "plain_text s \<longleftrightarrow> (\<forall>c\<in>set s. CHR 0x21 \<le> c \<and> c \<le> CHR 0x7E)"

section \<open>Hexadecimal text\<close>

definition is_hex_char :: "char \<Rightarrow> bool" where
  "is_hex_char c \<longleftrightarrow> (CHR ''0'' \<le> c \<and> c \<le> CHR ''9'') \<or> (CHR ''a'' \<le> c \<and> c \<le> CHR ''f'') \<or>
     (CHR ''A'' \<le> c \<and> c \<le> CHR ''F'')"

definition hex_val :: "char \<Rightarrow> nat" where
  "hex_val c =
     (if CHR ''0'' \<le> c \<and> c \<le> CHR ''9'' then of_char c - 48
      else if CHR ''a'' \<le> c \<and> c \<le> CHR ''f'' then of_char c - 87
      else of_char c - 55)"

definition lower_hex_char :: "char \<Rightarrow> bool" where
  "lower_hex_char c \<longleftrightarrow> (CHR ''0'' \<le> c \<and> c \<le> CHR ''9'') \<or> (CHR ''a'' \<le> c \<and> c \<le> CHR ''f'')"

text \<open>\<open>hex.DecodeString\<close>: pairs of hexadecimal digits, an odd length is an error.\<close>

fun hex_decode :: "string \<Rightarrow> byte list res" where
  "hex_decode [] = Inr []"
| "hex_decode [c] = Inl E_hex_length"
| "hex_decode (c # d # s) =
     (if is_hex_char c \<and> is_hex_char d
      then bindE (hex_decode s) (\<lambda>bs. Inr (of_nat (16 * hex_val c + hex_val d) # bs))
      else Inl E_hex_digit)"

text \<open>\<open>fmt.Sprintf("%x", bytes)\<close>\<close>

definition hex_digit :: "nat \<Rightarrow> char" where
  "hex_digit n = ''0123456789abcdef'' ! n"

definition hex_of_byte :: "byte \<Rightarrow> string" where
  "hex_of_byte b = [hex_digit (unat b div 16), hex_digit (unat b mod 16)]"

definition hex_of_bytes :: "byte list \<Rightarrow> string" where
  "hex_of_bytes bs = concat (map hex_of_byte bs)"

section \<open>Numerals\<close>

fun nat_of_digits :: "nat \<Rightarrow> nat \<Rightarrow> string \<Rightarrow> nat" where
  "nat_of_digits base acc [] = acc"
| "nat_of_digits base acc (c # s) = nat_of_digits base (base * acc + hex_val c) s"

definition is_dec_char :: "char \<Rightarrow> bool" where
  "is_dec_char c \<longleftrightarrow> CHR ''0'' \<le> c \<and> c \<le> CHR ''9''"

text \<open>\<open>big.Int.SetString(s, 10)\<close> and \<open>SetString(s, 16)\<close>: an optional sign, then digits.\<close>

definition split_sign :: "string \<Rightarrow> bool \<times> string" where
  "split_sign s = (case s of
       [] \<Rightarrow> (False, [])
     | c # r \<Rightarrow> if c = CHR ''-'' then (True, r) else if c = CHR ''+'' then (False, r) else (False, s))"

definition parse_big :: "nat \<Rightarrow> string \<Rightarrow> int option" where
  "parse_big base s =
     (let (neg, ds) = split_sign s
      in if ds = [] \<or> \<not> list_all (if base = 10 then is_dec_char else is_hex_char) ds then None
         else let n = int (nat_of_digits base 0 ds) in Some (if neg then - n else n))"

text \<open>Decimal rendering of a natural number, \<open>%d\<close> and \<open>big.Int.String\<close>.\<close>

fun dec_of_nat :: "nat \<Rightarrow> string" where
  "dec_of_nat n = (if n < 10 then [char_of (48 + n)] else dec_of_nat (n div 10) @ [char_of (48 + n mod 10)])"

declare dec_of_nat.simps [simp del]

definition dec_of_int :: "int \<Rightarrow> string" where
  "dec_of_int i = (if i < 0 then CHR ''-'' # dec_of_nat (nat (- i)) else dec_of_nat (nat i))"

definition pad_zero :: "nat \<Rightarrow> string \<Rightarrow> string" where
  \<comment> \<open>\<open>%0wd\<close>: zeros on the left up to width \<open>w\<close>, never a truncation\<close>
  "pad_zero w s = replicate (w - length s) CHR ''0'' @ s"

fun hex_of_nat :: "nat \<Rightarrow> string" where
  "hex_of_nat n = (if n < 16 then [hex_digit n] else hex_of_nat (n div 16) @ [hex_digit (n mod 16)])"

declare hex_of_nat.simps [simp del]

text \<open>\<open>strconv.Atoi\<close> and \<open>strconv.ParseUint(s, 10, 64)\<close>.\<close>

definition atoi :: "string \<Rightarrow> int option" where
  "atoi s = (case parse_big 10 s of None \<Rightarrow> None
     | Some i \<Rightarrow> if - (2 ^ 63) \<le> i \<and> i < 2 ^ 63 then Some i else None)"

definition parse_uint_10 :: "string \<Rightarrow> u64 res" where
  "parse_uint_10 s =
     guardE (s = [] \<or> \<not> list_all is_dec_char s) E_number
       (let n = nat_of_digits 10 0 s in guardE (2 ^ 64 \<le> n) E_number (Inr (of_nat n)))"

section \<open>Splitting and joining\<close>

text \<open>\<open>strings.Split\<close> and \<open>strings.Join\<close> at a one-byte separator; \<open>strings.Trim\<close> of one byte.\<close>

fun split_on :: "char \<Rightarrow> string \<Rightarrow> string list" where
  "split_on c [] = [[]]"
| "split_on c (x # s) =
     (if x = c then [] # split_on c s
      else case split_on c s of [] \<Rightarrow> [[x]] | p # ps \<Rightarrow> (x # p) # ps)"

fun join_with :: "string \<Rightarrow> string list \<Rightarrow> string" where
  "join_with sep [] = []"
| "join_with sep [p] = p"
| "join_with sep (p # q # ps) = p @ sep @ join_with sep (q # ps)"

definition trim_right_char :: "char \<Rightarrow> string \<Rightarrow> string" where
  "trim_right_char c s = rev (dropWhile (\<lambda>x. x = c) (rev s))"

definition trim_char :: "char \<Rightarrow> string \<Rightarrow> string" where
  "trim_char c s = trim_right_char c (dropWhile (\<lambda>x. x = c) s)"

lemma split_on_Nil: "split_on c s \<noteq> []"
  by (induction s) (auto split: list.splits)

lemma join_split_on: "join_with [c] (split_on c s) = s"
proof (induction s)
  case (Cons x s)
  then show ?case using split_on_Nil [of c s] by (cases "split_on c s"; cases "tl (split_on c s)") auto
qed simp

section \<open>Facts about single characters\<close>

text \<open>Each is arithmetic on the character codes.\<close>

lemmas char_defs = lower_char_def is_hex_char_def lower_hex_char_def is_dec_char_def hex_val_def
  space1_def char_le_iff

lemma char_facts:
  "\<forall>c. lower_hex_char c \<longrightarrow> lower_char c = c \<and> is_hex_char c \<and> CHR 0x21 \<le> c \<and> c \<le> CHR 0x7E"
  "\<forall>c. is_hex_char c \<longrightarrow> lower_hex_char (lower_char c) \<and> hex_val (lower_char c) = hex_val c \<and> hex_val c < 16"
  "\<forall>c. is_hex_char (lower_char c) = is_hex_char c"
  "\<forall>c. CHR 0x21 \<le> c \<and> c \<le> CHR 0x7E \<longrightarrow> \<not> space1 c \<and> c \<notin> {CHR 0xC2, CHR 0xE1, CHR 0xE2, CHR 0xE3}"
  "\<forall>c. is_dec_char c \<longrightarrow> lower_hex_char c \<and> hex_val c = of_char c - 48 \<and> hex_val c < 10"
  by (auto simp: char_defs)

lemma lower_hex_char_lower [simp]: "lower_hex_char c \<Longrightarrow> lower_char c = c"
  and lower_hex_char_hex: "lower_hex_char c \<Longrightarrow> is_hex_char c"
  and lower_hex_char_plain: "lower_hex_char c \<Longrightarrow> CHR 0x21 \<le> c \<and> c \<le> CHR 0x7E"
  using char_facts(1) by blast+

lemma hex_char_lower: "is_hex_char c \<Longrightarrow> lower_hex_char (lower_char c)"
  and hex_val_lower: "is_hex_char c \<Longrightarrow> hex_val (lower_char c) = hex_val c"
  and hex_val_bound: "is_hex_char c \<Longrightarrow> hex_val c < 16"
  using char_facts(2) by blast+

lemma is_hex_char_lower [simp]: "is_hex_char (lower_char c) = is_hex_char c"
  using char_facts(3) by blast

lemma dec_char_hex: "is_dec_char c \<Longrightarrow> lower_hex_char c"
  and hex_val_dec: "is_dec_char c \<Longrightarrow> hex_val c < 10"
  using char_facts(5) by blast+

definition all_lower_hex :: "string \<Rightarrow> bool" where
  "all_lower_hex s \<longleftrightarrow> list_all lower_hex_char s"

lemma all_lower_hex_simps [simp]:
  "all_lower_hex []" "all_lower_hex (c # s) \<longleftrightarrow> lower_hex_char c \<and> all_lower_hex s"
  "all_lower_hex (s @ t) \<longleftrightarrow> all_lower_hex s \<and> all_lower_hex t"
  by (simp_all add: all_lower_hex_def)

lemma all_lower_hex_lower [simp]: "all_lower_hex s \<Longrightarrow> to_lower s = s"
  by (induction s) auto

lemma all_lower_hex_plain: "all_lower_hex s \<Longrightarrow> plain_text s"
  unfolding all_lower_hex_def plain_text_def list_all_iff
  by (blast dest: lower_hex_char_plain)

lemma hex_to_lower: "list_all is_hex_char s \<Longrightarrow> all_lower_hex (to_lower s)"
  by (induction s) (auto simp: hex_char_lower)

lemma all_lower_hex_hex: "all_lower_hex s \<Longrightarrow> list_all is_hex_char s"
  unfolding all_lower_hex_def by (induction s) (auto intro: lower_hex_char_hex)

lemma list_all_hex_lower [simp]: "list_all is_hex_char (to_lower s) = list_all is_hex_char s"
  by (induction s) auto

section \<open>Trimming text without blanks\<close>

lemma plain_no_space:
  assumes "CHR 0x21 \<le> c" and "c \<le> CHR 0x7E"
  shows "\<not> space1 c" "\<not> space2 c d" "\<not> space3 c d e"
  using assms char_facts(4) by (auto simp: space2_def space3_def)

lemma trim_left_plain: "plain_text s \<Longrightarrow> trim_left s = s"
  by (induction s rule: trim_left.induct) (auto simp: plain_text_def plain_no_space)

lemma trim_left_rev_plain: "plain_text s \<Longrightarrow> trim_left_rev s = s"
  by (induction s rule: trim_left_rev.induct) (auto simp: plain_text_def plain_no_space)

lemma trim_space_plain [simp]: "plain_text s \<Longrightarrow> trim_space s = s"
  unfolding trim_space_def
  by (simp add: trim_left_plain trim_left_rev_plain plain_text_def)

text \<open>Trimming twice is trimming once, so a text that was read trimmed passes the checks that trim again.\<close>

definition starts_blank :: "string \<Rightarrow> bool" where
  "starts_blank s \<longleftrightarrow> (\<exists>c r. s = c # r \<and> space1 c) \<or> (\<exists>c d r. s = c # d # r \<and> space2 c d) \<or>
     (\<exists>c d e r. s = c # d # e # r \<and> space3 c d e)"

lemma trim_left_starts: "\<not> starts_blank (trim_left s)"
  by (induction s rule: trim_left.induct) (auto simp: starts_blank_def)

lemma trim_left_id: "\<not> starts_blank s \<Longrightarrow> trim_left s = s"
  by (cases s rule: trim_left.cases) (auto simp: starts_blank_def)

lemma trim_left_rev_twice: "trim_left_rev (trim_left_rev s) = trim_left_rev s"
  by (induction s rule: trim_left_rev.induct) auto

lemma trim_left_rev_suffix: "suffix (trim_left_rev s) s"
  by (induction s rule: trim_left_rev.induct) (auto intro: suffix_ConsI)

lemma starts_blank_append: "starts_blank s \<Longrightarrow> starts_blank (s @ r)"
  by (auto simp: starts_blank_def)

lemma trim_space_twice: "trim_space (trim_space s) = trim_space s"
proof -
  obtain p where "rev (trim_left s) = p @ trim_left_rev (rev (trim_left s))"
    using trim_left_rev_suffix unfolding suffix_def by blast
  then have "trim_left s = trim_space s @ rev p" by (metis rev_append rev_rev_ident trim_space_def)
  then have "\<not> starts_blank (trim_space s)" using trim_left_starts starts_blank_append by metis
  then show ?thesis by (simp add: trim_space_def [of "trim_space s"] trim_left_id) (simp add: trim_space_def trim_left_rev_twice)
qed

lemma has_prefix_append [simp]: "has_prefix (p @ s) p"
  by (simp add: has_prefix_def)

lemma has_prefix_lower_length: "has_prefix s p \<Longrightarrow> length p \<le> length s"
  by (metis has_prefix_def length_take min.cobounded1)

lemma has_prefix_drop: "has_prefix s p \<Longrightarrow> s = p @ drop (length p) s"
  by (metis has_prefix_def append_take_drop_id)

section \<open>Hexadecimal and decimal round trips\<close>

lemma hex_digit_facts:
  "\<forall>n\<in>{..<16}. lower_hex_char (hex_digit n) \<and> hex_val (hex_digit n) = n"
  by code_simp

lemma hex_digit_lower_hex: "n < 16 \<Longrightarrow> lower_hex_char (hex_digit n)"
  and hex_val_digit: "n < 16 \<Longrightarrow> hex_val (hex_digit n) = n"
  using hex_digit_facts by auto

lemma hex_of_byte_lower_hex: "all_lower_hex (hex_of_byte b)"
proof -
  have "unat b < 256" using unsigned_less [of b, where 'a = nat] by simp
  then show ?thesis by (simp add: hex_of_byte_def hex_digit_lower_hex)
qed

lemma hex_of_bytes_simps [simp]:
  "hex_of_bytes [] = []" "hex_of_bytes (b # bs) = hex_of_byte b @ hex_of_bytes bs"
  by (simp_all add: hex_of_bytes_def)

lemma hex_of_bytes_length [simp]: "length (hex_of_bytes bs) = 2 * length bs"
  by (induction bs) (auto simp: hex_of_byte_def)

lemma hex_of_bytes_lower_hex: "all_lower_hex (hex_of_bytes bs)"
  by (induction bs) (auto simp: hex_of_byte_lower_hex)

lemma hex_decode_of_bytes: "hex_decode (hex_of_bytes bs) = Inr bs"
proof (induction bs)
  case Nil
  then show ?case by simp
next
  case (Cons b bs)
  have *: "unat b < 256" using unsigned_less [of b, where 'a = nat] by simp
  then have "unat b div 16 < 16" by simp
  with * Cons show ?case
    by (simp add: hex_of_byte_def hex_val_digit lower_hex_char_hex hex_digit_lower_hex)
qed

lemma hex_decode_length: "hex_decode s = Inr bs \<Longrightarrow> length s = 2 * length bs \<and> list_all is_hex_char s"
  by (induction s arbitrary: bs rule: hex_decode.induct) (auto simp: res_simps split: if_splits)

lemma hex_decode_iff: "is_ok (hex_decode s) \<longleftrightarrow> even (length s) \<and> list_all is_hex_char s"
proof (induction s rule: hex_decode.induct)
  case (3 c d s)
  then show ?case by (cases "hex_decode s") (auto)
qed auto

lemma hex_decode_lower: "hex_decode (to_lower s) = hex_decode s"
  by (induction s rule: hex_decode.induct) (auto simp: hex_val_lower)

lemma nat_of_digits_append:
  "nat_of_digits b acc (s @ t) = nat_of_digits b (nat_of_digits b acc s) t"
  by (induction s arbitrary: acc) auto

lemma dec_digit_facts: "\<forall>n\<in>{..<10::nat}. is_dec_char (char_of (48 + n)) \<and> hex_val (char_of (48 + n)) = n"
  by code_simp

lemma dec_digit: "n < 10 \<Longrightarrow> is_dec_char (char_of (48 + n))" "n < 10 \<Longrightarrow> hex_val (char_of (48 + n)) = (n :: nat)"
  using dec_digit_facts by auto

lemma dec_of_nat_digits: "list_all is_dec_char (dec_of_nat n) \<and> dec_of_nat n \<noteq> []"
proof (induction n rule: dec_of_nat.induct)
  case (1 n)
  then show ?case by (subst (1 2) dec_of_nat.simps) (auto simp: dec_digit)
qed

lemma nat_of_dec_of_nat: "nat_of_digits 10 0 (dec_of_nat n) = n"
proof (induction n rule: dec_of_nat.induct)
  case (1 n)
  then show ?case by (subst dec_of_nat.simps) (auto simp: dec_digit nat_of_digits_append)
qed

lemma dec_char_no_sign: "is_dec_char c \<Longrightarrow> c \<noteq> CHR ''-'' \<and> c \<noteq> CHR ''+''"
  by (auto simp: is_dec_char_def)

lemma parse_dec_of_int: "parse_big 10 (dec_of_int i) = Some i"
proof -
  have d: "list_all is_dec_char (dec_of_nat n)" "dec_of_nat n \<noteq> []" for n
    using dec_of_nat_digits by blast+
  have s: "split_sign (dec_of_nat n) = (False, dec_of_nat n)" for n
    using d [of n] dec_char_no_sign
    by (cases "dec_of_nat n") (auto simp: split_sign_def)
  show ?thesis
    using d s unfolding parse_big_def dec_of_int_def
    by (auto simp: nat_of_dec_of_nat split_sign_def [of "CHR ''-'' # _"] simp del: dec_of_nat.simps)
qed

end
