(* ===== verification/Domain_Event_Id.thy ===== *)
theory Domain_Event_Id
  imports Go_Text
begin

text \<open>
  \<open>internal/domain/event_id.go\<close>: the natural primary key of a wallet event. The tables are
  read \<open>ORDER BY id\<close>, so the FIFO replay depends on the keys being ordered, as text, like
  the positions on the chain they name.
\<close>

text \<open>Go returns the text together with the error; so does the model.\<close>

definition calc_event_id :: "u64 \<Rightarrow> u64 \<Rightarrow> u64 \<Rightarrow> string \<times> err option" where
  "calc_event_id block_number tx_index log_index =
     (let key = pad_zero 8 (dec_of_nat (unat block_number)) @ pad_zero 4 (dec_of_nat (unat tx_index))
               @ pad_zero 4 (dec_of_nat (unat log_index))
      in if block_number > 99999999 \<or> tx_index > 9999 \<or> log_index > 9999
         then (key, Some E_id_width) else (key, None))"

section \<open>Digit strings of equal length are ordered like their values\<close>

lemma nat_of_digits_acc:
  "nat_of_digits b acc s = acc * b ^ length s + nat_of_digits b 0 s"
proof (induction s arbitrary: acc)
  case Nil
  then show ?case by simp
next
  case (Cons c s)
  show ?case
    using Cons [of "b * acc + hex_val c"] Cons [of "hex_val c"] by (simp add: algebra_simps)
qed

lemma nat_of_digits_bound: "list_all is_dec_char s \<Longrightarrow> nat_of_digits 10 0 s < 10 ^ length s"
proof (induction s)
  case Nil
  then show ?case by simp
next
  case (Cons c s)
  then have "hex_val c \<le> 9" using hex_val_dec [of c] by simp
  then have *: "hex_val c * 10 ^ length s \<le> 9 * 10 ^ length s" by (rule mult_le_mono1)
  from Cons have "nat_of_digits 10 0 s < 10 ^ length s" by simp
  with * have "hex_val c * 10 ^ length s + nat_of_digits 10 0 s < 10 * 10 ^ length s"
    by linarith
  then show ?case
    using nat_of_digits_acc [of 10 "hex_val c" s] by simp
qed

lemma dec_char_less: "is_dec_char c \<Longrightarrow> is_dec_char d \<Longrightarrow> c < d \<longleftrightarrow> hex_val c < hex_val d"
  by (auto simp: char_defs less_char_def)

lemma dec_char_eq: "is_dec_char c \<Longrightarrow> is_dec_char d \<Longrightarrow> c = d \<longleftrightarrow> hex_val c = hex_val d"
  using dec_char_less [of c d] dec_char_less [of d c] by (metis linorder_neqE nat_neq_iff)

lemma digits_less_iff:
  "\<lbrakk>length s = length t; list_all is_dec_char s; list_all is_dec_char t\<rbrakk> \<Longrightarrow>
     s < t \<longleftrightarrow> nat_of_digits 10 0 s < nat_of_digits 10 0 t"
proof (induction s t rule: list_induct2)
  case Nil
  then show ?case by simp
next
  case (Cons c s d t)
  let ?n = "10 ^ length s :: nat" and ?x = "nat_of_digits 10 0 s" and ?y = "nat_of_digits 10 0 t"
  have b: "?x < ?n" "?y < ?n"
    using Cons nat_of_digits_bound [of s] nat_of_digits_bound [of t] by auto
  have v: "nat_of_digits 10 0 (c # s) = hex_val c * ?n + ?x"
    "nat_of_digits 10 0 (d # t) = hex_val d * ?n + ?y"
    using nat_of_digits_acc [of 10 "hex_val c" s] nat_of_digits_acc [of 10 "hex_val d" t] Cons
    by simp_all
  have lt: "hex_val c * ?n + ?x < hex_val d * ?n + ?y" if "hex_val c < hex_val d" for c d x y
  proof -
    have "(hex_val c + 1) * ?n \<le> hex_val d * ?n" using that by (intro mult_le_mono1) simp
    with b show ?thesis by simp
  qed
  show ?case
  proof (cases "hex_val c" "hex_val d" rule: linorder_cases)
    case less
    with lt [of c d] Cons.prems show ?thesis by (simp add: v dec_char_less del: nat_of_digits.simps)
  next
    case equal
    then have "c = d" using dec_char_eq [of c d] Cons.prems by simp
    with Cons equal show ?thesis unfolding v by simp
  next
    case greater
    have "hex_val d * ?n + ?y < hex_val c * ?n + ?x"
    proof -
      have "(hex_val d + 1) * ?n \<le> hex_val c * ?n" using greater by (intro mult_le_mono1) simp
      with b show ?thesis by simp
    qed
    with greater Cons.prems show ?thesis
      by (simp add: v dec_char_less dec_char_eq del: nat_of_digits.simps)
  qed
qed

section \<open>The key as a number\<close>

lemma pad_zero_digits: "list_all is_dec_char s \<Longrightarrow> list_all is_dec_char (pad_zero w s)"
  by (auto simp: pad_zero_def list_all_iff is_dec_char_def)

lemma nat_of_zeros: "nat_of_digits 10 0 (replicate k CHR ''0'' @ s) = nat_of_digits 10 0 s"
  by (induction k) (auto simp: hex_val_def)

lemma dec_of_nat_length: "n < 10 ^ k \<Longrightarrow> 0 < k \<Longrightarrow> length (dec_of_nat n) \<le> k"
proof (induction n arbitrary: k rule: dec_of_nat.induct)
  case (1 n)
  show ?case
  proof (cases "n < 10")
    case True
    with 1 show ?thesis by (subst dec_of_nat.simps) simp
  next
    case False
    with 1(2) have "k \<noteq> 1" by auto
    with 1(2,3) obtain j where k: "k = Suc j" "0 < j" by (cases k) auto
    with 1(2) have "n div 10 < 10 ^ j" by (simp add: less_mult_imp_div_less mult.commute)
    with 1(1) [of j] False k show ?thesis by (subst dec_of_nat.simps) simp
  qed
qed

lemma pad_dec:
  assumes "n < 10 ^ w" and "0 < w"
  shows "length (pad_zero w (dec_of_nat n)) = w"
    and "nat_of_digits 10 0 (pad_zero w (dec_of_nat n)) = n"
    and "list_all is_dec_char (pad_zero w (dec_of_nat n))"
  using dec_of_nat_length [OF assms] dec_of_nat_digits [of n]
  by (simp_all add: pad_zero_digits nat_of_zeros nat_of_dec_of_nat) (simp_all add: pad_zero_def nat_of_zeros nat_of_dec_of_nat)

definition event_number :: "u64 \<Rightarrow> u64 \<Rightarrow> u64 \<Rightarrow> nat" where
  "event_number b t l = unat b * 10 ^ 8 + unat t * 10 ^ 4 + unat l"

lemma calc_event_id_number:
  assumes "calc_event_id b t l = (key, None)"
  shows "length key = 16 \<and> list_all is_dec_char key \<and> nat_of_digits 10 0 key = event_number b t l"
proof -
  from assms have w: "b \<le> 99999999" "t \<le> 9999" "l \<le> 9999"
    and key: "key = pad_zero 8 (dec_of_nat (unat b)) @ pad_zero 4 (dec_of_nat (unat t))
               @ pad_zero 4 (dec_of_nat (unat l))"
    by (auto simp: calc_event_id_def Let_def not_less split: if_splits)
  from w have "unat b < 10 ^ 8" "unat t < 10 ^ 4" "unat l < 10 ^ 4"
    by (auto simp: word_le_nat_alt)
  from pad_dec [OF this(1)] pad_dec [OF this(2)] pad_dec [OF this(3)] show ?thesis
    unfolding key event_number_def
    by (simp add: nat_of_digits_append nat_of_digits_acc [of 10 "unat b"]
      nat_of_digits_acc [of 10 "unat t + unat b * 10000"] algebra_simps)
qed

lemma event_number_less:
  assumes "unat t \<le> 9999" "unat l \<le> 9999" "unat t' \<le> 9999" "unat l' \<le> 9999"
  shows "event_number b t l < event_number b' t' l' \<longleftrightarrow>
    b < b' \<or> (b = b' \<and> (t < t' \<or> (t = t' \<and> l < l')))"
  using assms unfolding event_number_def word_less_nat_alt word_unat_eq_iff by auto

lemma event_number_eq:
  assumes "unat t \<le> 9999" "unat l \<le> 9999" "unat t' \<le> 9999" "unat l' \<le> 9999"
  shows "event_number b t l = event_number b' t' l' \<longleftrightarrow> b = b' \<and> t = t' \<and> l = l'"
proof
  assume "event_number b t l = event_number b' t' l'"
  then show "b = b' \<and> t = t' \<and> l = l'"
    using event_number_less [OF assms, of b b'] event_number_less [OF assms(3,4,1,2), of b' b]
    by (auto simp: not_less_iff_gr_or_eq)
qed simp

section \<open>Properties\<close>

lemma calc_event_id_width:
  "calc_event_id b t l = (key, None) \<Longrightarrow> unat t \<le> 9999 \<and> unat l \<le> 9999"
  by (auto simp: calc_event_id_def Let_def word_le_nat_alt not_less split: if_splits)

text \<open>C29. Event keys within the 8+4+4 digits order as texts exactly like the positions of
  their logs on the chain (block, transaction, log), so two logs never share such a key.\<close>

theorem event_ids_order_like_positions:
  assumes "calc_event_id b t l = (key, None)" and "calc_event_id b' t' l' = (key', None)"
  shows "(key < key' \<longleftrightarrow> b < b' \<or> (b = b' \<and> (t < t' \<or> (t = t' \<and> l < l')))) \<and>
    (key = key' \<longleftrightarrow> b = b' \<and> t = t' \<and> l = l')"
proof -
  note k = calc_event_id_number [OF assms(1)] calc_event_id_number [OF assms(2)]
  note w = calc_event_id_width [OF assms(1)] calc_event_id_width [OF assms(2)]
  have less: "key < key' \<longleftrightarrow> event_number b t l < event_number b' t' l'"
    "key' < key \<longleftrightarrow> event_number b' t' l' < event_number b t l"
    using k digits_less_iff [of key key'] digits_less_iff [of key' key] by auto
  have "key = key' \<longleftrightarrow> \<not> key < key' \<and> \<not> key' < key" by auto
  then have eq: "key = key' \<longleftrightarrow> event_number b t l = event_number b' t' l'"
    unfolding less by linarith
  from w have bounds: "unat t \<le> 9999" "unat l \<le> 9999" "unat t' \<le> 9999" "unat l' \<le> 9999"
    by blast+
  show ?thesis
    unfolding less(1) eq event_number_less [OF bounds] event_number_eq [OF bounds] by blast
qed

theorem event_ids_order_like_positions_witness:
  "fst (calc_event_id 7 2 30) < fst (calc_event_id 7 10 4)"
proof -
  have "calc_event_id 7 2 30 = (''0000000700020030'', None)" by code_simp
  moreover have "calc_event_id 7 10 4 = (''0000000700100004'', None)" by code_simp
  ultimately show ?thesis using event_ids_order_like_positions [of 7 2 30 _ 7 10 4] by simp
qed

text \<open>Beyond the width \<open>CalcEventID\<close> still returns a key, with an error that its caller only
  logs; keys of different logs then collide, and a stored event would hide the other.\<close>

theorem wide_event_ids_collide:
  "fst (calc_event_id 1 1000 10000) = fst (calc_event_id 1 10001 0) \<and>
   snd (calc_event_id 1 1000 10000) = Some E_id_width \<and> snd (calc_event_id 1 10001 0) = Some E_id_width"
  by code_simp

end
