(* ===== verification/Domain_Fifo.thy ===== *)
theory Domain_Fifo
  imports Go_Text
begin

text \<open>
  \<open>internal/domain/fifo.go\<close>: the exact FIFO replay of the buys and sells of one wallet in one
  token. Go's \<open>big.Rat\<close> is \<open>rat\<close>. The replay is written as the code has it, with the open
  lots as state; the abstract view of a lot list is what it holds (\<open>held\<close>) and what was
  paid for it (\<open>basis\<close>).
\<close>

section \<open>Data\<close>

record fifo_event =
  fe_id :: string
  fe_direction :: string
  fe_quantity_raw :: string
  fe_decimals :: byte
  fe_price_usd :: "rat option"

record fifo_sell_result =
  sr_event_id :: string
  sr_matched_pnl :: string
  sr_matched_qty :: rat
  sr_overflow_qty :: rat

record fifo_lot =
  lot_qty :: rat
  lot_price :: rat
  lot_decimals :: byte

text \<open>\<open>big.Rat.RatString\<close>: \<open>a/b\<close> in lowest terms, \<open>a\<close> when the denominator is one.\<close>

definition rat_string :: "rat \<Rightarrow> string" where
  "rat_string r = (case quotient_of r of (n, d) \<Rightarrow>
     if d = 1 then dec_of_int n else dec_of_int n @ ''/'' @ dec_of_int d)"

section \<open>The replay\<close>

definition human_quantity :: "string \<Rightarrow> byte \<Rightarrow> rat option" where
  "human_quantity raw decimals =
     (case parse_big 10 raw of None \<Rightarrow> None | Some n \<Rightarrow> Some (of_int n / 10 ^ unat decimals))"

definition min_rat :: "rat \<Rightarrow> rat \<Rightarrow> rat" where
  "min_rat a b = (if a < b then a else b)"

text \<open>
  The inner loop of a sell at price \<open>p\<close>: \<open>(remaining, matched, pnl)\<close> and the lots. Each
  turn takes the smaller of what remains and the oldest lot; an emptied lot is dropped.
\<close>

function match_lots ::
  "string \<Rightarrow> byte \<Rightarrow> rat \<Rightarrow> rat \<Rightarrow> rat \<Rightarrow> rat \<Rightarrow> fifo_lot list \<Rightarrow>
   (rat \<times> rat \<times> rat \<times> fifo_lot list) res" where
  "match_lots i dec p remaining matched pnl [] = Inr (remaining, matched, pnl, [])"
| "match_lots i dec p remaining matched pnl (l # ls) =
     (if remaining \<le> 0 then Inr (remaining, matched, pnl, l # ls)
      else if lot_decimals l \<noteq> dec then Inl (E_decimals i)
      else let take = min_rat remaining (lot_qty l);
               pnl' = pnl + take * (p - lot_price l);
               l' = l\<lparr>lot_qty := lot_qty l - take\<rparr>
           in if lot_qty l' = 0
              then match_lots i dec p (remaining - take) (matched + take) pnl' ls
              else match_lots i dec p (remaining - take) (matched + take) pnl' (l' # ls))"
  by pat_completeness auto
termination
  by (relation "measure (\<lambda>(i, dec, p, remaining, matched, pnl, ls).
        length ls + (if remaining \<le> 0 then 0 else 1))")
    (auto simp: min_rat_def split: if_splits)

declare match_lots.simps(2) [simp del]

fun replay_from ::
  "fifo_event list \<Rightarrow> fifo_lot list \<Rightarrow> fifo_sell_result list \<Rightarrow>
   (fifo_sell_result list \<times> fifo_lot list) res" where
  "replay_from [] lots results = Inr (results, lots)"
| "replay_from (e # es) lots results =
     (if fe_direction e \<noteq> ''buy'' \<and> fe_direction e \<noteq> ''sell'' then replay_from es lots results
      else case fe_price_usd e of
        None \<Rightarrow> replay_from es lots results
      | Some p \<Rightarrow>
        (case human_quantity (fe_quantity_raw e) (fe_decimals e) of
           None \<Rightarrow> Inl (E_quantity (fe_id e))
         | Some qty \<Rightarrow>
           if qty \<le> 0 then Inl (E_quantity_sign (fe_id e))
           else if fe_direction e = ''buy'' then
             replay_from es (lots @ [\<lparr>lot_qty = qty, lot_price = p, lot_decimals = fe_decimals e\<rparr>]) results
           else bindE (match_lots (fe_id e) (fe_decimals e) p qty 0 0 lots)
             (\<lambda>(remaining, matched, pnl, lots').
                replay_from es lots'
                  (results @ [\<lparr>sr_event_id = fe_id e, sr_matched_pnl = rat_string pnl,
                               sr_matched_qty = matched, sr_overflow_qty = remaining\<rparr>]))))"

definition replay_fifo :: "fifo_event list \<Rightarrow> fifo_sell_result list res" where
  "replay_fifo events = bindE (replay_from events [] []) (\<lambda>(results, _). Inr results)"

section \<open>The abstract view of the open lots\<close>

definition held :: "fifo_lot list \<Rightarrow> rat" where
  "held ls = sum_list (map lot_qty ls)"

definition basis :: "fifo_lot list \<Rightarrow> rat" where
  "basis ls = sum_list (map (\<lambda>l. lot_qty l * lot_price l) ls)"

definition lots_ok :: "fifo_lot list \<Rightarrow> bool" where
  "lots_ok ls \<longleftrightarrow> (\<forall>l\<in>set ls. 0 < lot_qty l)"

text \<open>
  What a FIFO inventory is after giving up \<open>q\<close> units, oldest first, without any of the
  code's bookkeeping.
\<close>

fun give_up :: "rat \<Rightarrow> fifo_lot list \<Rightarrow> fifo_lot list" where
  "give_up q [] = []"
| "give_up q (l # ls) =
     (if q < lot_qty l then l\<lparr>lot_qty := lot_qty l - q\<rparr> # ls else give_up (q - lot_qty l) ls)"

lemma held_simps [simp]:
  "held [] = 0" "held (l # ls) = lot_qty l + held ls" "held (ls @ ms) = held ls + held ms"
  by (simp_all add: held_def)

lemma basis_simps [simp]:
  "basis [] = 0" "basis (l # ls) = lot_qty l * lot_price l + basis ls"
  "basis (ls @ ms) = basis ls + basis ms"
  by (simp_all add: basis_def)

lemma lots_ok_simps [simp]:
  "lots_ok []" "lots_ok (l # ls) \<longleftrightarrow> 0 < lot_qty l \<and> lots_ok ls"
  "lots_ok (ls @ ms) \<longleftrightarrow> lots_ok ls \<and> lots_ok ms"
  by (auto simp: lots_ok_def)

lemma held_nonneg: "lots_ok ls \<Longrightarrow> 0 \<le> held ls"
  by (induction ls) auto

lemma give_up_lots_ok: "\<lbrakk>lots_ok ls; 0 \<le> q\<rbrakk> \<Longrightarrow> lots_ok (give_up q ls)"
  by (induction ls arbitrary: q) auto

lemma give_up_zero [simp]: "lots_ok ls \<Longrightarrow> give_up 0 ls = ls"
  by (cases ls) auto

lemma held_give_up: "\<lbrakk>lots_ok ls; 0 \<le> q; q \<le> held ls\<rbrakk> \<Longrightarrow> held (give_up q ls) = held ls - q"
  by (induction ls arbitrary: q) auto

section \<open>One sell\<close>

text \<open>
  The loop against the abstract view: a sell of \<open>remaining\<close> units matches as much as is
  held, leaves the rest, keeps exactly the inventory \<open>give_up\<close> describes, and its profit is
  the proceeds of the matched units less the cost basis they carried.
\<close>

lemma match_lots_spec:
  assumes "lots_ok ls" and "0 \<le> remaining"
  shows "(match_lots i dec p remaining matched pnl ls = Inl (E_decimals i) \<and>
            (\<exists>l\<in>set ls. lot_decimals l \<noteq> dec)) \<or>
    (\<exists>m ls'. m = min remaining (held ls) \<and> ls' = give_up m ls \<and>
       match_lots i dec p remaining matched pnl ls =
         Inr (remaining - m, matched + m, pnl + (p * m - (basis ls - basis ls')), ls'))"
  using assms
proof (induction i dec p remaining matched pnl ls rule: match_lots.induct)
  case (1 i dec p remaining matched pnl)
  then show ?case by simp
next
  case (2 i dec p remaining matched pnl l ls)
  have h: "0 \<le> held ls" "0 < lot_qty l" using 2(3) by (auto simp: held_nonneg)
  consider "remaining \<le> 0" | "0 < remaining" "lot_decimals l \<noteq> dec"
    | "0 < remaining" "lot_decimals l = dec" "remaining < lot_qty l"
    | "0 < remaining" "lot_decimals l = dec" "lot_qty l \<le> remaining"
    by linarith
  then show ?case
  proof cases
    case 1
    with 2 h show ?thesis by (simp add: match_lots.simps)
  next
    case 2
    then show ?thesis by (simp add: match_lots.simps)
  next
    case 3
    with 2 h show ?thesis
      by (simp add: match_lots.simps min_rat_def Let_def algebra_simps)
  next
    case 4
    then have F: "\<not> remaining \<le> 0" "\<not> lot_decimals l \<noteq> dec" by auto
    have t: "min_rat remaining (lot_qty l) = lot_qty l" using 4 by (auto simp: min_rat_def)
    have m: "min remaining (lot_qty l + held ls) = lot_qty l + min (remaining - lot_qty l) (held ls)"
      by auto
    have n: "\<not> min (remaining - lot_qty l) (held ls) < 0" using 4 h by linarith
    have g: "give_up (lot_qty l + min (remaining - lot_qty l) (held ls)) (l # ls) =
        give_up (min (remaining - lot_qty l) (held ls)) ls"
      using n h by simp
    have e: "match_lots i dec p remaining matched pnl (l # ls) =
        match_lots i dec p (remaining - lot_qty l) (matched + lot_qty l)
          (pnl + lot_qty l * (p - lot_price l)) ls"
      using 4 by (subst match_lots.simps) (simp add: t Let_def)
    let ?m = "min (remaining - lot_qty l) (held ls)"
    have "(match_lots i dec p remaining matched pnl (l # ls) = Inl (E_decimals i) \<and>
            (\<exists>l\<in>set ls. lot_decimals l \<noteq> dec)) \<or>
      match_lots i dec p remaining matched pnl (l # ls) =
        Inr (remaining - lot_qty l - ?m, matched + lot_qty l + ?m,
          pnl + lot_qty l * (p - lot_price l) + (p * ?m - (basis ls - basis (give_up ?m ls))), give_up ?m ls)"
      using 2(1) [OF F refl refl refl] 2(3) 4 unfolding e by (simp add: t)
    then show ?thesis
      unfolding held_simps m g ex_simps simp_thms(39) basis_simps by (auto simp: algebra_simps g)
  qed
qed

text \<open>Matched and overflowing units add up, and the inventory loses what was matched.\<close>

lemma match_lots_Inr:
  assumes "lots_ok ls" and "0 \<le> q" and "match_lots i dec p q 0 0 ls = Inr (remaining, matched, pnl, ls')"
  shows "matched = min q (held ls) \<and> remaining = q - matched \<and> ls' = give_up matched ls \<and>
    pnl = p * matched - (basis ls - basis ls') \<and> lots_ok ls' \<and> held ls' = held ls - matched \<and>
    0 \<le> matched \<and> 0 \<le> remaining"
  using match_lots_spec [OF assms(1,2), of i dec p 0 0] assms held_nonneg [OF assms(1)]
  by (auto simp: give_up_lots_ok held_give_up)

lemma match_lots_total:
  assumes "lots_ok ls" and "0 \<le> q" and "\<forall>l\<in>set ls. lot_decimals l = dec"
  shows "\<exists>r. match_lots i dec p q 0 0 ls = Inr r"
  using match_lots_spec [OF assms(1,2), of i dec p 0 0] assms(3) by auto

lemma match_lots_front_mismatch:
  "\<lbrakk>0 < q; lot_decimals l \<noteq> dec\<rbrakk> \<Longrightarrow> match_lots i dec p q m x (l # ls) = Inl (E_decimals i)"
  by (simp add: match_lots.simps)

section \<open>The whole replay\<close>

definition replayed :: "fifo_event \<Rightarrow> bool" where
  "replayed e \<longleftrightarrow> fe_direction e \<in> {''buy'', ''sell''} \<and> fe_price_usd e \<noteq> None"

definition event_quantity :: "fifo_event \<Rightarrow> rat" where
  "event_quantity e = (case human_quantity (fe_quantity_raw e) (fe_decimals e) of None \<Rightarrow> 0 | Some q \<Rightarrow> q)"

definition total_quantity :: "string \<Rightarrow> fifo_event list \<Rightarrow> rat" where
  "total_quantity dir es = sum_list (map event_quantity (filter (\<lambda>e. replayed e \<and> fe_direction e = dir) es))"

lemma total_quantity_simps [simp]:
  "total_quantity dir [] = 0"
  "total_quantity dir (e # es) =
     (if replayed e \<and> fe_direction e = dir then event_quantity e else 0) + total_quantity dir es"
  by (simp_all add: total_quantity_def)

lemma replay_from_append:
  "replay_from (es @ fs) lots rs = bindE (replay_from es lots rs) (\<lambda>(rs', lots'). replay_from fs lots' rs')"
proof (induction es lots rs rule: replay_from.induct)
  case (2 e es lots rs)
  then show ?case
    by (auto simp: bindE_def split: option.splits sum.splits)
qed simp

lemma replay_from_skips: "replay_from (filter replayed es) lots rs = replay_from es lots rs"
proof (induction es lots rs rule: replay_from.induct)
  case (2 e es lots rs)
  then show ?case
    by (auto simp: replayed_def bindE_def split: option.splits sum.splits)
qed simp

text \<open>
  The ledger of a successful replay: every unit bought is either still held or was matched by
  a sell, every unit sold was matched or is reported as overflow, and the results are those of
  the sells, in order.
\<close>

definition ledger :: "fifo_event list \<Rightarrow> fifo_lot list \<Rightarrow> fifo_lot list \<Rightarrow> fifo_sell_result list \<Rightarrow> bool" where
  "ledger es lots lots' new \<longleftrightarrow>
     lots_ok lots' \<and>
     held lots + total_quantity ''buy'' es = held lots' + sum_list (map sr_matched_qty new) \<and>
     total_quantity ''sell'' es = sum_list (map (\<lambda>r. sr_matched_qty r + sr_overflow_qty r) new) \<and>
     (\<forall>r\<in>set new. 0 \<le> sr_matched_qty r \<and> 0 \<le> sr_overflow_qty r) \<and>
     map sr_event_id new = map fe_id (filter (\<lambda>e. replayed e \<and> fe_direction e = ''sell'') es)"

lemma replay_from_ledger:
  "\<lbrakk>replay_from es lots rs = Inr (rs', lots'); lots_ok lots\<rbrakk> \<Longrightarrow>
     \<exists>new. rs' = rs @ new \<and> ledger es lots lots' new"
proof (induction es arbitrary: lots rs)
  case Nil
  then show ?case by (simp add: ledger_def)
next
  case (Cons e es)
  show ?case
  proof (cases "replayed e")
    case False
    with Cons.prems have "replay_from es lots rs = Inr (rs', lots')"
      by (auto simp: replayed_def split: if_splits)
    from Cons.IH [OF this Cons.prems(2)] False show ?thesis by (auto simp: ledger_def)
  next
    case True
    then obtain p where p: "fe_price_usd e = Some p" by (auto simp: replayed_def)
    with True Cons.prems obtain q where q: "human_quantity (fe_quantity_raw e) (fe_decimals e) = Some q" "0 < q"
      by (auto simp: replayed_def split: option.splits if_splits)
    then have eq: "event_quantity e = q" by (simp add: event_quantity_def)
    show ?thesis
    proof (cases "fe_direction e = ''buy''")
      case buy: True
      with p q Cons.prems have "replay_from es
          (lots @ [\<lparr>lot_qty = q, lot_price = p, lot_decimals = fe_decimals e\<rparr>]) rs = Inr (rs', lots')"
        by auto
      from Cons.IH [OF this] Cons.prems(2) q(2) obtain new where
        "rs' = rs @ new" "ledger es (lots @ [\<lparr>lot_qty = q, lot_price = p, lot_decimals = fe_decimals e\<rparr>]) lots' new"
        by auto
      with True buy eq show ?thesis by (auto simp: ledger_def)
    next
      case False
      with True have sell: "fe_direction e = ''sell''" by (auto simp: replayed_def)
      with p q Cons.prems obtain rem m x ls where
        ml: "match_lots (fe_id e) (fe_decimals e) p q 0 0 lots = Inr (rem, m, x, ls)" and
        rest: "replay_from es ls (rs @ [\<lparr>sr_event_id = fe_id e, sr_matched_pnl = rat_string x,
               sr_matched_qty = m, sr_overflow_qty = rem\<rparr>]) = Inr (rs', lots')"
        by (auto simp: res_simps)
      note sp = match_lots_Inr [OF Cons.prems(2) less_imp_le [OF q(2)] ml]
      from Cons.IH [OF rest] sp obtain new where
        n: "rs' = rs @ [\<lparr>sr_event_id = fe_id e, sr_matched_pnl = rat_string x,
               sr_matched_qty = m, sr_overflow_qty = rem\<rparr>] @ new" "ledger es ls lots' new"
        by auto
      let ?r = "\<lparr>sr_event_id = fe_id e, sr_matched_pnl = rat_string x,
               sr_matched_qty = m, sr_overflow_qty = rem\<rparr>"
      have "ledger (e # es) lots lots' (?r # new)"
        using n(2) sp True sell eq by (auto simp: ledger_def)
      with n(1) show ?thesis by auto
    qed
  qed
qed

section \<open>Properties\<close>

text \<open>C28. A successful replay balances: every unit bought is still held or was matched by a
  sell, every unit sold was matched or reported as overflow, nothing is negative, and there is
  exactly one result per priced sell, in order.\<close>

theorem replay_fifo_balances:
  assumes "replay_fifo es = Inr rs"
  shows "\<exists>lots. replay_from es [] [] = Inr (rs, lots) \<and> ledger es [] lots rs"
proof -
  from assms obtain lots where r: "replay_from es [] [] = Inr (rs, lots)"
    by (auto simp: replay_fifo_def res_simps)
  moreover have "lots_ok []" by (simp add: lots_ok_def)
  ultimately show ?thesis using replay_from_ledger [OF r] by auto
qed

definition ex_buy :: fifo_event where
  "ex_buy = \<lparr>fe_id = ''a'', fe_direction = ''buy'', fe_quantity_raw = ''30'', fe_decimals = 1,
     fe_price_usd = Some 2\<rparr>"
definition ex_sell :: fifo_event where
  "ex_sell = \<lparr>fe_id = ''b'', fe_direction = ''sell'', fe_quantity_raw = ''40'', fe_decimals = 1,
     fe_price_usd = Some 5\<rparr>"
definition ex_result :: fifo_sell_result where
  "ex_result = \<lparr>sr_event_id = ''b'', sr_matched_pnl = ''9'', sr_matched_qty = 3, sr_overflow_qty = 1\<rparr>"

lemma ex_replay: "replay_fifo [ex_buy, ex_sell] = Inr [ex_result]"
  by code_simp

lemma ex_replay_buy:
  "replay_from [ex_buy] [] [] = Inr ([], [\<lparr>lot_qty = 3, lot_price = 2, lot_decimals = 1\<rparr>])"
  by code_simp

theorem replay_fifo_balances_witness:
  "\<exists>lots. ledger [ex_buy, ex_sell] [] lots [ex_result]"
  using replay_fifo_balances [OF ex_replay] by blast

text \<open>A priced sell of \<open>q\<close> units against an inventory in its own decimals matches the units
  held, oldest first, and reports the rest as overflow; its profit is the proceeds of the
  matched units less the cost basis they leave with.\<close>

theorem replay_fifo_next_sell:
  assumes "replay_from es [] [] = Inr (rs, lots)" and "\<forall>l\<in>set lots. lot_decimals l = fe_decimals e"
    and "fe_direction e = ''sell''" and "fe_price_usd e = Some p"
    and "human_quantity (fe_quantity_raw e) (fe_decimals e) = Some q" and "0 < q"
  shows "replay_fifo (es @ [e]) = Inr (rs @ [\<lparr>sr_event_id = fe_id e,
      sr_matched_pnl = rat_string (p * min q (held lots) - (basis lots - basis (give_up (min q (held lots)) lots))),
      sr_matched_qty = min q (held lots), sr_overflow_qty = q - min q (held lots)\<rparr>])"
proof -
  have ok: "lots_ok lots" using replay_from_ledger [OF assms(1)] by (auto simp: lots_ok_def ledger_def)
  obtain r m x ls where ml: "match_lots (fe_id e) (fe_decimals e) p q 0 0 lots = Inr (r, m, x, ls)"
    using match_lots_total [OF ok less_imp_le [OF assms(6)] assms(2)] by (metis prod_cases4)
  from match_lots_Inr [OF ok less_imp_le [OF assms(6)] ml] ml assms show ?thesis
    by (auto simp: replay_fifo_def replay_from_append)
qed

theorem replay_fifo_next_sell_witness: "replay_fifo ([ex_buy] @ [ex_sell]) \<noteq> Inr []"
proof -
  have "human_quantity (fe_quantity_raw ex_sell) (fe_decimals ex_sell) = Some 4" by code_simp
  from replay_fifo_next_sell [OF ex_replay_buy _ _ _ this, of 5] show ?thesis
    by (simp add: ex_sell_def)
qed

text \<open>One sell whose decimals differ from those of the oldest lot makes the whole replay of
  the wallet and token fail, results of earlier sells included.\<close>

theorem replay_fifo_decimals_abort:
  assumes "replay_from es [] [] = Inr (rs, l # lots)" and "lot_decimals l \<noteq> fe_decimals e"
    and "fe_direction e = ''sell''" and "fe_price_usd e = Some p"
    and "human_quantity (fe_quantity_raw e) (fe_decimals e) = Some q" and "0 < q"
  shows "replay_fifo (es @ e # fs) = Inl (E_decimals (fe_id e))"
  using assms by (simp add: replay_fifo_def replay_from_append match_lots_front_mismatch)

theorem replay_fifo_decimals_abort_witness:
  "replay_fifo ([ex_buy] @ ex_sell\<lparr>fe_decimals := 2\<rparr> # []) = Inl (E_decimals ''b'')"
proof -
  have "human_quantity (fe_quantity_raw (ex_sell\<lparr>fe_decimals := 2\<rparr>)) (fe_decimals (ex_sell\<lparr>fe_decimals := 2\<rparr>))
      = Some (2 / 5)" by code_simp
  from replay_fifo_decimals_abort [OF ex_replay_buy _ _ _ this, of 5 "[]"] show ?thesis
    by (simp add: ex_sell_def)
qed

end
