(* ===== verification/Domain_Address.thy ===== *)
theory Domain_Address
  imports Go_Text
begin

text \<open>
  \<open>internal/domain/address.go\<close>: the normal form of addresses and hashes. The go-ethereum
  package \<open>common\<close> is not part of the repository: the two functions the code calls,
  \<open>common.IsHexAddress\<close> and \<open>common.HexToAddress(v).Hex()\<close>, are fields of the parameter
  \<open>eth_common\<close>, and \<open>eth_ok\<close> is what that package documents of them.
\<close>

section \<open>The go-ethereum functions\<close>

record eth_common =
  is_hex_address :: "string \<Rightarrow> bool"
  checksum_hex :: "string \<Rightarrow> string"

definition strip0x :: "string \<Rightarrow> string" where
  "strip0x s = (if has_prefix (to_lower s) ''0x'' then drop 2 s else s)"

text \<open>
  \<open>IsHexAddress\<close>: 40 hexadecimal digits, after an optional \<open>0x\<close> or \<open>0X\<close>. \<open>Hex\<close>: the
  EIP-55 rendering, \<open>0x\<close> and the same digits with some letters in upper case.
\<close>

definition eth_ok :: "eth_common \<Rightarrow> bool" where
  "eth_ok E \<longleftrightarrow>
     (\<forall>s. is_hex_address E s \<longleftrightarrow> length (strip0x s) = 40 \<and> list_all is_hex_char (strip0x s)) \<and>
     (\<forall>s. is_hex_address E s \<longrightarrow> to_lower (checksum_hex E s) = ''0x'' @ to_lower (strip0x s))"

text \<open>An instance, for evaluating the model on concrete inputs (it renders in lower case).\<close>

definition eth_plain :: eth_common where
  "eth_plain = \<lparr>is_hex_address = (\<lambda>s. length (strip0x s) = 40 \<and> list_all is_hex_char (strip0x s)),
     checksum_hex = (\<lambda>s. ''0x'' @ to_lower (strip0x s))\<rparr>"

lemma lower_0x [simp]: "lower_char CHR ''0'' = CHR ''0''" "lower_char CHR ''x'' = CHR ''x''"
  by (simp_all add: lower_char_def)

lemma eth_plain_ok: "eth_ok eth_plain"
  by (simp add: eth_ok_def eth_plain_def)

section \<open>NormalizeAddress and NormalizeHash\<close>

definition with_0x :: "string \<Rightarrow> string" where
  "with_0x v = (if has_prefix (to_lower v) ''0x'' then v else ''0x'' @ v)"

definition normalize_address :: "eth_common \<Rightarrow> string \<Rightarrow> string res" where
  "normalize_address E value =
     (let v = with_0x (trim_space value)
      in guardE (\<not> is_hex_address E v \<or> length v \<noteq> 42) E_address
           (Inr (to_lower (checksum_hex E v))))"

definition normalize_hash :: "string \<Rightarrow> nat \<Rightarrow> string res" where
  "normalize_hash value bytes =
     (let v = with_0x (trim_space value)
      in guardE (length v \<noteq> 2 + bytes * 2) E_hex_length
           (bindE (hex_decode (drop 2 v)) (\<lambda>_. Inr (to_lower v))))"

section \<open>Canonical form\<close>

text \<open>\<open>0x\<close> and \<open>2 * n\<close> lower case hexadecimal digits.\<close>

definition canonical_hex :: "nat \<Rightarrow> string \<Rightarrow> bool" where
  "canonical_hex n a \<longleftrightarrow> (\<exists>d. a = ''0x'' @ d \<and> length d = 2 * n \<and> all_lower_hex d)"

abbreviation canonical_address :: "string \<Rightarrow> bool" where
  "canonical_address \<equiv> canonical_hex 20"

abbreviation canonical_hash :: "string \<Rightarrow> bool" where
  "canonical_hash \<equiv> canonical_hex 32"

lemma has_prefix_0x [simp]: "has_prefix (CHR ''0'' # CHR ''x'' # d) ''0x''"
  by (simp add: has_prefix_def)

lemma canonical_plain: "canonical_hex n a \<Longrightarrow> plain_text a"
  using all_lower_hex_plain by (fastforce simp: canonical_hex_def plain_text_def)

lemma canonical_lower [simp]: "canonical_hex n a \<Longrightarrow> to_lower a = a"
  by (auto simp: canonical_hex_def)

lemma canonical_length: "canonical_hex n a \<Longrightarrow> length a = 2 + 2 * n"
  by (auto simp: canonical_hex_def)

lemma canonical_ne [simp]: "canonical_hex n a \<Longrightarrow> a \<noteq> []"
  by (auto simp: canonical_hex_def)

lemma with_0x_facts:
  "strip0x (with_0x v) = strip0x v" "length (with_0x v) = 2 + length (strip0x v)"
  "drop 2 (with_0x v) = strip0x v" "to_lower (with_0x v) = ''0x'' @ to_lower (strip0x v)"
proof -
  have *: "to_lower v = ''0x'' @ drop 2 (to_lower v)" "2 \<le> length v"
    if "has_prefix (to_lower v) ''0x''"
    using has_prefix_drop [OF that] has_prefix_lower_length [OF that] by (simp_all add: numeral_2_eq_2)
  show "strip0x (with_0x v) = strip0x v" "length (with_0x v) = 2 + length (strip0x v)"
    "drop 2 (with_0x v) = strip0x v" "to_lower (with_0x v) = ''0x'' @ to_lower (strip0x v)"
    using * by (auto simp: with_0x_def strip0x_def to_lower_drop)
qed

lemma strip0x_canonical [simp]: "strip0x (CHR ''0'' # CHR ''x'' # d) = d"
  by (simp add: strip0x_def)

lemma eth_okD:
  assumes "eth_ok E"
  shows "is_hex_address E s \<longleftrightarrow> length (strip0x s) = 40 \<and> list_all is_hex_char (strip0x s)"
    and "is_hex_address E s \<Longrightarrow> to_lower (checksum_hex E s) = ''0x'' @ to_lower (strip0x s)"
  using assms by (auto simp: eth_ok_def)

text \<open>What the two functions compute, without the library's functions.\<close>

lemma normalize_address_eq:
  assumes "eth_ok E"
  shows "normalize_address E v =
    (let d = strip0x (trim_space v)
     in if length d = 40 \<and> list_all is_hex_char d then Inr (''0x'' @ to_lower d) else Inl E_address)"
  using eth_okD [OF assms, of "with_0x (trim_space v)"]
  by (auto simp: normalize_address_def Let_def guardE_def with_0x_facts)

lemma normalize_hash_eq:
  "is_ok (normalize_hash v n) \<longleftrightarrow>
     length (strip0x (trim_space v)) = 2 * n \<and> list_all is_hex_char (strip0x (trim_space v))"
  "normalize_hash v n = Inr h \<Longrightarrow> h = ''0x'' @ to_lower (strip0x (trim_space v))"
proof -
  let ?d = "strip0x (trim_space v)"
  have "is_ok (normalize_hash v n) \<longleftrightarrow> length ?d = 2 * n \<and> is_ok (hex_decode ?d)"
    by (cases "hex_decode ?d")
      (auto simp: normalize_hash_def Let_def with_0x_facts guardE_def)
  then show "is_ok (normalize_hash v n) \<longleftrightarrow> length ?d = 2 * n \<and> list_all is_hex_char ?d"
    by (auto simp: hex_decode_iff)
  show "normalize_hash v n = Inr h \<Longrightarrow> h = ''0x'' @ to_lower ?d"
    by (auto simp: normalize_hash_def Let_def with_0x_facts res_simps)
qed

lemma normalize_address_canonical:
  "\<lbrakk>eth_ok E; normalize_address E v = Inr a\<rbrakk> \<Longrightarrow> canonical_address a"
  by (auto simp: normalize_address_eq Let_def canonical_hex_def hex_to_lower split: if_splits)

lemma normalize_hash_canonical: "normalize_hash v n = Inr h \<Longrightarrow> canonical_hex n h"
  using normalize_hash_eq [of v n] by (auto simp: canonical_hex_def hex_to_lower)

lemma normalize_address_id: "\<lbrakk>eth_ok E; canonical_address a\<rbrakk> \<Longrightarrow> normalize_address E a = Inr a"
  using canonical_plain [of 20 a]
  by (auto simp: normalize_address_eq Let_def canonical_hex_def all_lower_hex_hex)

lemma normalize_hash_id: "canonical_hex n h \<Longrightarrow> normalize_hash h n = Inr h"
  using canonical_plain [of n h] hex_decode_iff [of "drop 2 h"]
  by (cases "hex_decode (drop 2 h)")
    (auto simp: normalize_hash_def with_0x_def Let_def canonical_hex_def guardE_def all_lower_hex_hex)

text \<open>Texts that differ only in the case of their letters have the same normal form.\<close>

lemma strip0x_lower: "strip0x (to_lower s) = to_lower (strip0x s)"
  by (simp add: strip0x_def to_lower_drop)

lemma normalize_address_fold:
  assumes "eth_ok E" and "plain_text v" and "plain_text w" and "to_lower v = to_lower w"
  shows "normalize_address E v = normalize_address E w"
proof -
  have "to_lower (strip0x v) = to_lower (strip0x w)"
    using assms(4) by (metis strip0x_lower)
  moreover from this have "length (strip0x v) = length (strip0x w)"
    by (metis to_lower_simps(4))
  moreover have "list_all is_hex_char (strip0x v) = list_all is_hex_char (strip0x w)"
    using calculation(1) by (metis list_all_hex_lower)
  ultimately show ?thesis
    using assms by (simp add: normalize_address_eq Let_def)
qed

section \<open>Properties\<close>

text \<open>\<open>NormalizeAddress\<close> accepts exactly the texts that are 40 hexadecimal digits, with or
  without \<open>0x\<close> and surrounding white space; the result is \<open>0x\<close> and those digits in lower case,
  and normalising it again changes nothing.\<close>

theorem normalize_address_canonical_form:
  assumes "eth_ok E"
  shows "(normalize_address E v = Inr a \<longleftrightarrow>
      length (strip0x (trim_space v)) = 40 \<and> list_all is_hex_char (strip0x (trim_space v)) \<and>
      a = ''0x'' @ to_lower (strip0x (trim_space v))) \<and>
    (normalize_address E v = Inr a \<longrightarrow> canonical_address a \<and> normalize_address E a = Inr a)"
  using normalize_address_canonical [OF assms, of v a] normalize_address_id [OF assms, of a]
  by (auto simp: normalize_address_eq [OF assms, of v] Let_def)

theorem normalize_address_canonical_form_witness:
  "canonical_address ''0x1111111111111111111111111111111111111abc''"
proof -
  have "normalize_address eth_plain '' 0X1111111111111111111111111111111111111aBC '' =
      Inr ''0x1111111111111111111111111111111111111abc''" by code_simp
  with normalize_address_canonical_form [OF eth_plain_ok] show ?thesis by blast
qed

end
