(* ===== verification/Domain_Launch.thy ===== *)
theory Domain_Launch
  imports Go_Text
begin

text \<open>
  The data the components exchange: \<open>internal/domain/fill.go\<close> and the launch models
  \<open>launch*.go\<close>, each with its view as a row of the launch catalog (the methods of the
  interface \<open>LaunchIndexView\<close>). A point in time is the number of nanoseconds since the Unix
  epoch, in UTC.
\<close>

section \<open>Time\<close>

type_synonym time = int
type_synonym duration = int

definition second :: duration where "second = 10 ^ 9"
definition millisecond :: duration where "millisecond = 10 ^ 6"

text \<open>\<open>time.Time{}\<close>, the zero time: 1 January of the year 1.\<close>

definition zero_time :: time where "zero_time = - 62135596800 * second"

text \<open>\<open>time.Unix(int64(ts), 0)\<close> of a 64-bit timestamp.\<close>

definition unix_time :: "u64 \<Rightarrow> time" where "unix_time ts = sint ts * second"

section \<open>Fills and registrations\<close>

record fill =
  f_token :: string
  f_category :: string
  f_quote :: string
  f_user :: string
  f_side :: string
  f_router :: string
  f_tx_hash :: string
  f_warning :: "err option"
  f_meme_amount_raw :: string
  f_quote_amount_raw :: string
  f_token_decimals :: byte
  f_quote_decimals :: byte
  f_block_number :: u64
  f_tx_index :: u64
  f_log_index :: u64
  f_chain_time :: time
  f_protocol_contracts :: "string list"

record pool_registration =
  pr_pool_id :: string
  pr_token :: string
  pr_category :: string
  pr_quote :: string
  pr_token_decimals :: byte
  pr_quote_decimals :: byte

record curve_registration =
  cr_curve :: string
  cr_token :: string
  cr_quote :: string
  cr_token_decimals :: byte
  cr_quote_decimals :: byte

section \<open>Launches\<close>

record launch_view =
  lv_token :: string
  lv_category :: string
  lv_symbol :: string
  lv_name :: string
  lv_pair :: "string \<times> string"
  lv_creators :: "string \<times> string"
  lv_created :: "time \<times> u64 \<times> string"

record pons_launch =
  pl_token_address :: string
  pl_symbol :: string
  pl_name :: string
  pl_logo :: string
  pl_description :: string
  pl_curve_address :: string
  pl_pair_address :: string
  pl_pair_symbol :: string
  pl_pair_decimals :: byte
  pl_launch_config_id :: string
  pl_graduation_threshold :: string
  pl_first_buy_quote :: string
  pl_deployer :: string
  pl_creator_eoa :: string
  pl_creator_fee_recipient :: string
  pl_launch_entry :: string
  pl_first_buy_tokens :: string
  pl_phase :: string
  pl_pool_id :: string
  pl_tx_hash :: string
  pl_graduated_at :: "time option"
  pl_block_number :: u64
  pl_log_index :: u64
  pl_created_at :: time

definition pons_view :: "pons_launch \<Rightarrow> launch_view" where
  "pons_view v = \<lparr>lv_token = pl_token_address v, lv_category = ''pons'', lv_symbol = pl_symbol v,
     lv_name = pl_name v, lv_pair = (pl_pair_address v, pl_pair_symbol v),
     lv_creators = (pl_creator_eoa v, pl_deployer v),
     lv_created = (pl_created_at v, pl_block_number v, pl_tx_hash v)\<rparr>"

record o1_crypto_launch =
  oc_token_address :: string
  oc_symbol :: string
  oc_name :: string
  oc_contract_uri :: string
  oc_quote_address :: string
  oc_quote_symbol :: string
  oc_quote_decimals :: byte
  oc_pool_id :: string
  oc_tick_spacing :: int
  oc_hooks :: string
  oc_supply :: string
  oc_creator_eoa :: string
  oc_creator_event :: string
  oc_native_launch_fee_wei :: string
  oc_tx_hash :: string
  oc_hook_warning :: bool
  oc_block_number :: u64
  oc_log_index :: u64
  oc_created_at :: time

definition o1_crypto_view :: "o1_crypto_launch \<Rightarrow> launch_view" where
  "o1_crypto_view v = \<lparr>lv_token = oc_token_address v, lv_category = ''o1_crypto'',
     lv_symbol = oc_symbol v, lv_name = oc_name v, lv_pair = (oc_quote_address v, oc_quote_symbol v),
     lv_creators = (oc_creator_eoa v, oc_creator_event v),
     lv_created = (oc_created_at v, oc_block_number v, oc_tx_hash v)\<rparr>"

text \<open>The two venues whose tables exist but are never written.\<close>

record o1_stock_launch =
  os_token_address :: string
  os_symbol :: string
  os_name :: string
  os_contract_uri :: string
  os_quote_address :: string
  os_quote_symbol :: string
  os_quote_decimals :: byte
  os_pool_id :: string
  os_tick_spacing :: int
  os_hooks :: string
  os_supply :: string
  os_creator_eoa :: string
  os_creator_event :: string
  os_native_launch_fee_wei :: string
  os_tx_hash :: string
  os_anomaly :: bool
  os_block_number :: u64
  os_log_index :: u64
  os_created_at :: time

definition o1_stock_view :: "o1_stock_launch \<Rightarrow> launch_view" where
  "o1_stock_view v = \<lparr>lv_token = os_token_address v, lv_category = ''o1_stock'',
     lv_symbol = os_symbol v, lv_name = os_name v, lv_pair = (os_quote_address v, os_quote_symbol v),
     lv_creators = (os_creator_eoa v, os_creator_event v),
     lv_created = (os_created_at v, os_block_number v, os_tx_hash v)\<rparr>"

record long_launch =
  ll_token_address :: string
  ll_symbol :: string
  ll_name :: string
  ll_quote_address :: string
  ll_quote_symbol :: string
  ll_pool_id :: string
  ll_quote_decimals :: byte
  ll_fee :: u64
  ll_tick_spacing :: int
  ll_hooks :: string
  ll_ticker_key :: string
  ll_pool_initializer :: string
  ll_launcher :: string
  ll_creator_eoa :: string
  ll_integrator :: string
  ll_airlock :: string
  ll_initial_supply :: string
  ll_num_tokens_to_sell :: string
  ll_tx_hash :: string
  ll_deployed_at :: "time option"
  ll_reserved_until :: "time option"
  ll_block_number :: u64
  ll_log_index :: u64
  ll_created_at :: time

definition long_view :: "long_launch \<Rightarrow> launch_view" where
  "long_view v = \<lparr>lv_token = ll_token_address v, lv_category = ''long'', lv_symbol = ll_symbol v,
     lv_name = ll_name v, lv_pair = (ll_quote_address v, ll_quote_symbol v),
     lv_creators = (ll_creator_eoa v, ll_launcher v),
     lv_created = (ll_created_at v, ll_block_number v, ll_tx_hash v)\<rparr>"

end
