(* ===== verification/Contracts_Catalog.thy ===== *)
theory Contracts_Catalog
  imports Domain_Address Domain_Launch
begin

text \<open>
  \<open>internal/contracts\<close>: the fixed contract addresses and event topics, the static catalog of
  (address, topic0) rules, and the run-time registrations of pools and curves. The mutex of
  the Go struct makes each operation atomic; an operation is a function on the catalog value.
\<close>

section \<open>Addresses and topics\<close>

definition zero_address :: string where "zero_address = ''0x0000000000000000000000000000000000000000''"
definition weth_address :: string where "weth_address = ''0x0bd7d308f8e1639fab988df18a8011f41eacad73''"
definition usdg_address :: string where "usdg_address = ''0x5fc5360d0400a0fd4f2af552add042d716f1d168''"
definition pool_manager :: string where "pool_manager = ''0x8366a39cc670b4001a1121b8f6a443a643e40951''"
definition universal_router :: string where "universal_router = ''0x8876789976decbfcbbbe364623c63652db8c0904''"
definition permit2 :: string where "permit2 = ''0x000000000022d473030f116ddee9f6b43ac78ba3''"
definition gmgn_router :: string where "gmgn_router = ''0x65050a9b7e5075a2ba5ced7b1b64ee66262c40dc''"
definition pons_factory :: string where "pons_factory = ''0x7ed598bcef8bd9edd8c97a195c6d13f40801ec7e''"
definition pons_launch_and_buy :: string where "pons_launch_and_buy = ''0xe33e9e479df8802cb0866d5d05258bec4cf62948''"
definition pons_meme_hook :: string where "pons_meme_hook = ''0xe5e702641ea86f4ae6cc3cdaed2b886f976be044''"
definition o1_crypto_factory :: string where "o1_crypto_factory = ''0x411f21283d3e492bc395027329e08f9f4f560ba5''"
definition o1_crypto_hook :: string where "o1_crypto_hook = ''0x441f773b3bb1ed4c6457d0528624112e43c02acc''"
definition o1_stock_factory :: string where "o1_stock_factory = ''0xe64ac4113848bbc1a6dde1a6d1da96720a36f297''"
definition o1_stock_hook :: string where "o1_stock_hook = ''0x778b0c4eea7d35d66513b587ba87fc9084b0eacc''"
definition long_launcher :: string where "long_launcher = ''0x22e99278308b393ea1260859b181ad7e78f5eeed''"
definition airlock :: string where "airlock = ''0xeb7c034704ef8dcd2d32324c1545f62fb4ad0862''"
definition graduation_executor :: string where "graduation_executor = ''0xc7819b64a1daecd7ec19856d026cb14efbd89046''"

definition topic_pons_token_launched :: string where
  "topic_pons_token_launched = ''0x8d4aad4953d0ca700d468f3753aa14432d1b35b43ec6409f051fb6aa43a89607''"
definition topic_pons_launched :: string where
  "topic_pons_launched = ''0xdcacba5e347ae7abd91cb519eb877af8fa7774e347b85dd3ddcd24a2ba8cdf37''"
definition topic_pons_curve_buy :: string where
  "topic_pons_curve_buy = ''0xec36bf571f136799e8dc0b0b8bea4b04d8bd3d43de838aab0d5fc21d4cbfc455''"
definition topic_pons_curve_sell :: string where
  "topic_pons_curve_sell = ''0x8113d738abdcb6b38357e9d53a54a7157861a09031b453651f0fe7fe151f59df''"
definition topic_pons_launch_swept :: string where
  "topic_pons_launch_swept = ''0xcdb72f157fd3666758a6ce201387ffb52038c7562e4fff352828da1096c4b6b4''"
definition topic_pons_graduated :: string where
  "topic_pons_graduated = ''0x0a44ef75df69c534f43cd6c1aa3ef8983065fe5fe79ef9e79f6494e6f258c259''"
definition topic_o1_launched :: string where
  "topic_o1_launched = ''0x207384e895174175cc774fe7f7457b37c382f27ebf53d37d5257b862f80eaf9c''"
definition topic_pool_swap :: string where
  "topic_pool_swap = ''0x40e9cecb9f5f1f1c5b9c97dec2917b7ee92e57ba5563708daca94dd84ad7112f''"
definition topic_pool_initialize :: string where
  "topic_pool_initialize = ''0xdd466e674ea557f56295e2d0218a125ea4b4f0f6f3307b95f85e6110838d6438''"
definition topic_erc20_transfer :: string where
  "topic_erc20_transfer = ''0xddf252ad1be2c89b69c2b068fc378daa952ba7f163c4a11628f55a4df523b3ef''"

lemmas address_defs = zero_address_def weth_address_def usdg_address_def pool_manager_def
  universal_router_def permit2_def gmgn_router_def pons_factory_def pons_launch_and_buy_def
  pons_meme_hook_def o1_crypto_factory_def o1_crypto_hook_def o1_stock_factory_def
  o1_stock_hook_def long_launcher_def airlock_def graduation_executor_def

lemmas topic_defs = topic_pons_token_launched_def topic_pons_launched_def topic_pons_curve_buy_def
  topic_pons_curve_sell_def topic_pons_launch_swept_def topic_pons_graduated_def
  topic_o1_launched_def topic_pool_swap_def topic_pool_initialize_def topic_erc20_transfer_def

section \<open>The catalog\<close>

datatype role = RoleFactory | RoleLaunchAndBuy | RoleHook | RolePoolManager | RoleRouter
  | RoleAggregator | RoleIgnore

datatype venue = VenuePons | VenueO1Crypto | VenueShared | VenueNone

datatype kind = KindCreate | KindCurveBuy | KindCurveSell | KindGraduated | KindV4Swap
  | KindV4Initialize | KindIgnore

record entry =
  en_address :: string
  en_topic0 :: string
  en_role :: role
  en_venue :: venue
  en_kind :: kind

record catalog =
  cat_entries :: "string \<rightharpoonup> entry"
  cat_roles :: "string \<rightharpoonup> role"
  cat_pools :: "string \<rightharpoonup> pool_registration"
  cat_curves :: "string \<rightharpoonup> curve_registration"

definition mk_entry :: "string \<Rightarrow> string \<Rightarrow> role \<Rightarrow> venue \<Rightarrow> kind \<Rightarrow> entry" where
  "mk_entry a t r v k = \<lparr>en_address = a, en_topic0 = t, en_role = r, en_venue = v, en_kind = k\<rparr>"

definition default_entries :: "entry list" where
  "default_entries = [
     mk_entry pons_factory topic_pons_token_launched RoleFactory VenuePons KindCreate,
     mk_entry pons_factory topic_pons_graduated RoleFactory VenuePons KindGraduated,
     mk_entry pons_factory topic_pons_launch_swept RoleFactory VenuePons KindIgnore,
     mk_entry pons_launch_and_buy topic_pons_launched RoleLaunchAndBuy VenuePons KindIgnore,
     mk_entry o1_crypto_factory topic_o1_launched RoleFactory VenueO1Crypto KindCreate,
     mk_entry pool_manager topic_pool_swap RolePoolManager VenueShared KindV4Swap,
     mk_entry pool_manager topic_pool_initialize RolePoolManager VenueShared KindV4Initialize,
     mk_entry universal_router [] RoleRouter VenueNone KindIgnore,
     mk_entry gmgn_router [] RoleAggregator VenueNone KindIgnore,
     mk_entry o1_crypto_hook [] RoleHook VenueO1Crypto KindIgnore,
     mk_entry pons_meme_hook [] RoleHook VenuePons KindIgnore,
     mk_entry o1_stock_factory [] RoleIgnore VenueNone KindIgnore,
     mk_entry o1_stock_hook [] RoleIgnore VenueNone KindIgnore,
     mk_entry long_launcher [] RoleIgnore VenueNone KindIgnore,
     mk_entry airlock [] RoleIgnore VenueNone KindIgnore]"

definition rule_key :: "string \<Rightarrow> string \<Rightarrow> string" where
  "rule_key address topic0 = address @ ''|'' @ topic0"

fun add_entries :: "entry list \<Rightarrow> catalog \<Rightarrow> catalog" where
  "add_entries [] c = c"
| "add_entries (e # es) c =
     (let e' = e\<lparr>en_address := to_lower (en_address e), en_topic0 := to_lower (en_topic0 e)\<rparr>
      in add_entries es
           (c\<lparr>cat_entries := (cat_entries c)(rule_key (en_address e') (en_topic0 e') \<mapsto> e'),
              cat_roles := (cat_roles c)(en_address e' \<mapsto> en_role e')\<rparr>))"

definition required_rules :: "(string \<times> string) list" where
  "required_rules = [
     (pons_factory, topic_pons_token_launched), (pons_launch_and_buy, topic_pons_launched),
     (o1_crypto_factory, topic_o1_launched), (pool_manager, topic_pool_swap),
     (pool_manager, topic_pool_initialize)]"

definition empty_catalog :: catalog where
  "empty_catalog = \<lparr>cat_entries = Map.empty, cat_roles = Map.empty, cat_pools = Map.empty,
     cat_curves = Map.empty\<rparr>"

definition new_catalog :: "catalog res" where
  "new_catalog =
     (let c = add_entries default_entries empty_catalog
      in case find (\<lambda>(a, t). cat_entries c (rule_key a t) = None) required_rules of
           Some (a, t) \<Rightarrow> Inl (E_catalog (rule_key a t))
         | None \<Rightarrow> Inr c)"

definition match_exact :: "catalog \<Rightarrow> string \<Rightarrow> string \<Rightarrow> entry option" where
  "match_exact c address topic0 = cat_entries c (rule_key (to_lower address) (to_lower topic0))"

definition role_of :: "catalog \<Rightarrow> string \<Rightarrow> role option" where
  "role_of c address = cat_roles c (to_lower address)"

text \<open>\<open>visited\<close> is the sequence in which the \<open>range\<close> over the roles visits them.\<close>

definition protocol_addresses :: "(string \<times> role) list \<Rightarrow> string list" where
  "protocol_addresses visited =
     sort (map fst (filter (\<lambda>(_, r). r \<in> {RoleRouter, RoleAggregator, RoleFactory, RoleLaunchAndBuy,
       RolePoolManager, RoleHook, RoleIgnore}) visited) @ [permit2])"

section \<open>Registrations\<close>

definition normalize_pool_registration ::
  "eth_common \<Rightarrow> pool_registration \<Rightarrow> pool_registration res" where
  "normalize_pool_registration E v =
     guardE (pr_category v \<noteq> ''pons'' \<and> pr_category v \<noteq> ''o1_crypto'') (E_category (pr_category v))
       (bindE (normalize_hash (pr_pool_id v) 32) (\<lambda>i.
        bindE (normalize_address E (pr_token v)) (\<lambda>t.
        bindE (normalize_address E (pr_quote v)) (\<lambda>q.
          Inr (v\<lparr>pr_pool_id := i, pr_token := t, pr_quote := q\<rparr>)))))"

definition normalize_curve_registration ::
  "eth_common \<Rightarrow> curve_registration \<Rightarrow> curve_registration res" where
  "normalize_curve_registration E v =
     bindE (normalize_address E (cr_curve v)) (\<lambda>a.
     bindE (normalize_address E (cr_token v)) (\<lambda>t.
     bindE (normalize_address E (cr_quote v)) (\<lambda>q.
       Inr (v\<lparr>cr_curve := a, cr_token := t, cr_quote := q\<rparr>))))"

definition register_pool :: "eth_common \<Rightarrow> pool_registration \<Rightarrow> catalog \<Rightarrow> catalog res" where
  "register_pool E v c = bindE (normalize_pool_registration E v)
     (\<lambda>w. Inr (c\<lparr>cat_pools := (cat_pools c)(pr_pool_id w \<mapsto> w)\<rparr>))"

definition register_curve :: "eth_common \<Rightarrow> curve_registration \<Rightarrow> catalog \<Rightarrow> catalog res" where
  "register_curve E v c = bindE (normalize_curve_registration E v)
     (\<lambda>w. Inr (c\<lparr>cat_curves := (cat_curves c)(cr_curve w \<mapsto> w)\<rparr>))"

definition pool_lookup :: "catalog \<Rightarrow> string \<Rightarrow> pool_registration option" where
  "pool_lookup c i = cat_pools c (to_lower i)"

definition curve_lookup :: "catalog \<Rightarrow> string \<Rightarrow> curve_registration option" where
  "curve_lookup c address = cat_curves c (to_lower address)"

text \<open>
  Two new maps are filled first; the catalog is touched only when every row was valid, so an
  error leaves the caller's catalog as it was.
\<close>

definition rebuild_registrations ::
  "eth_common \<Rightarrow> pool_registration list \<Rightarrow> curve_registration list \<Rightarrow> catalog \<Rightarrow> catalog res" where
  "rebuild_registrations E pools curves c =
     bindE (mapE (normalize_pool_registration E) pools) (\<lambda>ps.
     bindE (mapE (normalize_curve_registration E) curves) (\<lambda>cs.
       Inr (c\<lparr>cat_pools := map_of (rev (map (\<lambda>p. (pr_pool_id p, p)) ps)),
              cat_curves := map_of (rev (map (\<lambda>v. (cr_curve v, v)) cs))\<rparr>)))"

section \<open>The interface of a registration table\<close>

text \<open>
  What the router relies on, for pools and curves alike: a registration is normalised or
  refused, and a later lookup of its key, in any case of the letters, finds it.
\<close>

locale registry =
  fixes norm :: "'v \<Rightarrow> 'v res"
    and key :: "'v \<Rightarrow> string"
    and register :: "'v \<Rightarrow> 's \<Rightarrow> 's res"
    and lookup :: "'s \<Rightarrow> string \<Rightarrow> 'v option"
  assumes register_ok: "norm v = Inr w \<Longrightarrow> \<exists>s'. register v s = Inr s' \<and>
      (\<forall>k. lookup s' k = (if to_lower k = key w then Some w else lookup s k))"
    and register_bad: "norm v = Inl e \<Longrightarrow> register v s = Inl e"
begin

lemma register_iff: "is_ok (register v s) \<longleftrightarrow> is_ok (norm v)"
  using register_ok [of v _ s] register_bad [of v _ s] by (cases "norm v") fastforce+

lemma lookup_register:
  assumes "register v s = Inr s'"
  obtains w where "norm v = Inr w" "\<And>k. lookup s' k = (if to_lower k = key w then Some w else lookup s k)"
  using assms register_ok [of v _ s] register_bad [of v _ s] by (cases "norm v") fastforce+

text \<open>After a sequence of registrations a key finds the last one made under it.\<close>

lemma lookup_register_all:
  "foldE register vs s = Inr s' \<Longrightarrow>
   \<exists>ws. mapE norm vs = Inr ws \<and>
     (\<forall>k. lookup s' k = (case map_of (rev (map (\<lambda>w. (key w, w)) ws)) (to_lower k) of
        None \<Rightarrow> lookup s k | Some w \<Rightarrow> Some w))"
proof (induction vs arbitrary: s)
  case Nil
  then show ?case by simp
next
  case (Cons v vs)
  then obtain s1 where s1: "register v s = Inr s1" "foldE register vs s1 = Inr s'"
    by (auto simp: res_simps)
  from lookup_register [OF s1(1)] obtain w where
    w: "norm v = Inr w" "\<And>k. lookup s1 k = (if to_lower k = key w then Some w else lookup s k)"
    by blast
  from Cons.IH [OF s1(2)] obtain ws where
    ws: "mapE norm vs = Inr ws"
      "\<And>k. lookup s' k = (case map_of (rev (map (\<lambda>w. (key w, w)) ws)) (to_lower k) of
        None \<Rightarrow> lookup s1 k | Some w \<Rightarrow> Some w)"
    by blast
  show ?case
    by (rule exI [of _ "w # ws"]) (auto simp: w ws map_add_def split: option.splits)
qed

end

lemma normalize_pool_key:
  "normalize_pool_registration E v = Inr w \<Longrightarrow> canonical_hash (pr_pool_id w)"
  by (auto simp: normalize_pool_registration_def res_simps intro: normalize_hash_canonical)

lemma normalize_curve_key:
  "\<lbrakk>eth_ok E; normalize_curve_registration E v = Inr w\<rbrakk> \<Longrightarrow> canonical_address (cr_curve w)"
  by (auto simp: normalize_curve_registration_def res_simps intro: normalize_address_canonical)

interpretation pools: registry "normalize_pool_registration E" pr_pool_id "register_pool E" pool_lookup
  for E
  by unfold_locales (auto simp: register_pool_def pool_lookup_def)

interpretation curves: registry "normalize_curve_registration E" cr_curve "register_curve E" curve_lookup
  for E
  by unfold_locales (auto simp: register_curve_def curve_lookup_def)

section \<open>Well-formed registrations\<close>

definition pool_ok :: "pool_registration \<Rightarrow> bool" where
  "pool_ok p \<longleftrightarrow> pr_category p \<in> {''pons'', ''o1_crypto''} \<and> canonical_hash (pr_pool_id p) \<and>
     canonical_address (pr_token p) \<and> canonical_address (pr_quote p)"

definition curve_ok :: "curve_registration \<Rightarrow> bool" where
  "curve_ok v \<longleftrightarrow> canonical_address (cr_curve v) \<and> canonical_address (cr_token v) \<and>
     canonical_address (cr_quote v)"

text \<open>Every stored row is in normal form and stored under its own key.\<close>

definition registrations_ok :: "catalog \<Rightarrow> bool" where
  "registrations_ok c \<longleftrightarrow>
     (\<forall>k p. cat_pools c k = Some p \<longrightarrow> k = pr_pool_id p \<and> pool_ok p) \<and>
     (\<forall>k v. cat_curves c k = Some v \<longrightarrow> k = cr_curve v \<and> curve_ok v)"

lemma normalize_pool_ok:
  "\<lbrakk>eth_ok E; normalize_pool_registration E v = Inr w\<rbrakk> \<Longrightarrow> pool_ok w"
  by (auto simp: normalize_pool_registration_def pool_ok_def res_simps
      intro: normalize_hash_canonical normalize_address_canonical)

lemma normalize_curve_ok:
  "\<lbrakk>eth_ok E; normalize_curve_registration E v = Inr w\<rbrakk> \<Longrightarrow> curve_ok w"
  by (auto simp: normalize_curve_registration_def curve_ok_def res_simps
      intro: normalize_address_canonical)

lemma register_pool_inv:
  "\<lbrakk>eth_ok E; registrations_ok c; register_pool E v c = Inr c'\<rbrakk> \<Longrightarrow> registrations_ok c'"
  by (auto simp: register_pool_def registrations_ok_def res_simps dest: normalize_pool_ok split: if_splits)

lemma register_curve_inv:
  "\<lbrakk>eth_ok E; registrations_ok c; register_curve E v c = Inr c'\<rbrakk> \<Longrightarrow> registrations_ok c'"
  by (auto simp: register_curve_def registrations_ok_def res_simps dest: normalize_curve_ok split: if_splits)

lemma mapE_in_set: "\<lbrakk>mapE f xs = Inr ys; y \<in> set ys\<rbrakk> \<Longrightarrow> \<exists>x\<in>set xs. f x = Inr y"
  by (induction xs arbitrary: ys) (auto simp: res_simps)

lemma rebuild_inv:
  assumes "eth_ok E" and "rebuild_registrations E pools curves c = Inr c'"
  shows "registrations_ok c'"
  using assms unfolding rebuild_registrations_def registrations_ok_def
  by (auto simp: res_simps dest!: map_of_SomeD)
    (blast dest: mapE_in_set normalize_pool_ok normalize_curve_ok)+

lemma add_entries_registrations [simp]:
  "cat_pools (add_entries es c) = cat_pools c" "cat_curves (add_entries es c) = cat_curves c"
  by (induction es arbitrary: c) (auto simp: Let_def)

lemma new_catalog_registrations: "new_catalog = Inr c \<Longrightarrow> registrations_ok c"
  by (auto simp: new_catalog_def Let_def registrations_ok_def empty_catalog_def split: option.splits)

section \<open>The static rules\<close>

lemma add_entries_keep:
  "cat_entries c k \<noteq> None \<Longrightarrow> cat_entries (add_entries es c) k \<noteq> None"
  by (induction es arbitrary: c) (auto simp: Let_def)

lemma add_entries_mem:
  "e \<in> set es \<Longrightarrow>
   cat_entries (add_entries es c) (rule_key (to_lower (en_address e)) (to_lower (en_topic0 e))) \<noteq> None"
proof (induction es arbitrary: c)
  case (Cons d es)
  show ?case
  proof (cases "e = d")
    case True
    show ?thesis
      unfolding add_entries.simps Let_def True by (rule add_entries_keep) simp
  next
    case False
    with Cons show ?thesis by (simp add: Let_def)
  qed
qed simp

lemma add_entries_inv:
  "\<lbrakk>cat_entries (add_entries es c) k = Some x; \<And>y. cat_entries c k = Some y \<Longrightarrow> P k y;
    \<And>e. e \<in> set es \<Longrightarrow> P (rule_key (to_lower (en_address e)) (to_lower (en_topic0 e)))
        (e\<lparr>en_address := to_lower (en_address e), en_topic0 := to_lower (en_topic0 e)\<rparr>)\<rbrakk> \<Longrightarrow> P k x"
proof (induction es arbitrary: c)
  case Nil
  then show ?case by simp
next
  case (Cons e es)
  from Cons.prems(1) show ?case
    unfolding add_entries.simps Let_def
    by (rule Cons.IH) (use Cons.prems(2,3) in \<open>auto split: if_splits\<close>)
qed

section \<open>Properties\<close>

lemma map_upd_if: "(\<lambda>a. if a = k then Some b else m a) = m(k \<mapsto> b)"
  by (simp add: fun_upd_def)

lemma foldE_register_pool:
  "foldE (register_pool E) ps c = bindE (mapE (normalize_pool_registration E) ps)
     (\<lambda>ws. Inr (c\<lparr>cat_pools := cat_pools c ++ map_of (rev (map (\<lambda>p. (pr_pool_id p, p)) ws))\<rparr>))"
proof (induction ps arbitrary: c)
  case (Cons p ps)
  show ?case
    by (cases "normalize_pool_registration E p"; cases "mapE (normalize_pool_registration E) ps")
      (simp_all add: register_pool_def [of E p] Cons.IH map_upd_if)
qed simp

lemma foldE_register_curve:
  "foldE (register_curve E) vs c = bindE (mapE (normalize_curve_registration E) vs)
     (\<lambda>ws. Inr (c\<lparr>cat_curves := cat_curves c ++ map_of (rev (map (\<lambda>v. (cr_curve v, v)) ws))\<rparr>))"
proof (induction vs arbitrary: c)
  case (Cons v vs)
  show ?case
    by (cases "normalize_curve_registration E v"; cases "mapE (normalize_curve_registration E) vs")
      (simp_all add: register_curve_def [of E v] Cons.IH map_upd_if)
qed simp

text \<open>C32. \<open>RebuildRegistrations\<close> gives the catalog, or the error, that registering every pool
  and then every curve one by one into an emptied catalog gives; the static rules stay.\<close>

theorem rebuild_is_sequential_registration:
  "rebuild_registrations E ps vs c =
     bindE (foldE (register_pool E) ps (c\<lparr>cat_pools := Map.empty, cat_curves := Map.empty\<rparr>))
       (foldE (register_curve E) vs)"
  by (cases "mapE (normalize_pool_registration E) ps"; cases "mapE (normalize_curve_registration E) vs")
    (simp_all add: rebuild_registrations_def foldE_register_pool foldE_register_curve)

text \<open>The list of protocol addresses does not depend on the order in which \<open>range\<close> visits the
  roles, is sorted, and holds exactly the addresses of the seven protocol roles and Permit2.\<close>

theorem protocol_addresses_deterministic:
  assumes "iterates (cat_roles c) xs" and "iterates (cat_roles c) ys"
  shows "protocol_addresses xs = protocol_addresses ys \<and> sorted (protocol_addresses xs) \<and>
    set (protocol_addresses xs) = insert permit2 {a. \<exists>r. cat_roles c a = Some r \<and>
      r \<in> {RoleRouter, RoleAggregator, RoleFactory, RoleLaunchAndBuy, RolePoolManager, RoleHook, RoleIgnore}}"
proof -
  have "mset xs = mset ys" by (rule iterates_mset [OF assms])
  then have "protocol_addresses xs = protocol_addresses ys"
    unfolding protocol_addresses_def by (intro properties_for_sort) simp_all
  moreover have "set (protocol_addresses xs) = insert permit2 {a. \<exists>r. cat_roles c a = Some r \<and>
      r \<in> {RoleRouter, RoleAggregator, RoleFactory, RoleLaunchAndBuy, RolePoolManager, RoleHook, RoleIgnore}}"
    using iterates_set [OF assms(1)] unfolding protocol_addresses_def by (auto simp: image_iff)
  ultimately show ?thesis by (simp add: protocol_addresses_def)
qed

theorem protocol_addresses_deterministic_witness:
  "protocol_addresses [(pool_manager, RolePoolManager), (gmgn_router, RoleAggregator)] =
   protocol_addresses [(gmgn_router, RoleAggregator), (pool_manager, RolePoolManager)]"
proof -
  let ?c = "empty_catalog\<lparr>cat_roles := map_of [(pool_manager, RolePoolManager), (gmgn_router, RoleAggregator)]\<rparr>"
  have ne: "pool_manager \<noteq> gmgn_router" by (simp add: address_defs)
  have "iterates (cat_roles ?c) [(pool_manager, RolePoolManager), (gmgn_router, RoleAggregator)]"
    using ne by (simp add: iterates_def)
  moreover have "iterates (cat_roles ?c) [(gmgn_router, RoleAggregator), (pool_manager, RolePoolManager)]"
    using ne by (auto simp: iterates_def fun_eq_iff)
  ultimately show ?thesis using protocol_addresses_deterministic by blast
qed

end
