(* ===== verification/Venue_Route.thy ===== *)
theory Venue_Route
  imports Contracts_Catalog
begin

text \<open>
  \<open>internal/venue/route.go\<close>: the dispatch of a log to its only handler. Go's
  \<open>(RouteHit, bool)\<close> is an option.
\<close>

record route_hit =
  rh_venue :: venue
  rh_kind :: kind
  rh_pool :: "pool_registration option"
  rh_curve :: "curve_registration option"

definition hit :: "venue \<Rightarrow> kind \<Rightarrow> pool_registration option \<Rightarrow> curve_registration option \<Rightarrow> route_hit" where
  "hit v k p c = \<lparr>rh_venue = v, rh_kind = k, rh_pool = p, rh_curve = c\<rparr>"

definition route :: "catalog \<Rightarrow> string \<Rightarrow> string \<Rightarrow> string list \<Rightarrow> route_hit option" where
  "route c address topic0 topics =
     (let a = to_lower address; t = to_lower topic0
      in if role_of c a = Some RoleIgnore then Some (hit VenueNone KindIgnore None None)
         else case match_exact c a t of
           Some e \<Rightarrow>
             (if en_kind e = KindV4Swap then
                if length topics < 2 then None
                else case pool_lookup c (topics ! 1) of
                  None \<Rightarrow> None
                | Some p \<Rightarrow> Some (hit VenueShared KindV4Swap (Some p) None)
              else Some (hit (en_venue e) (en_kind e) None None))
         | None \<Rightarrow>
             (if t = topic_pons_curve_buy then
                case curve_lookup c a of
                  None \<Rightarrow> None
                | Some v \<Rightarrow> Some (hit VenuePons KindCurveBuy None (Some v))
              else if t = topic_pons_curve_sell then
                case curve_lookup c a of
                  None \<Rightarrow> None
                | Some v \<Rightarrow> Some (hit VenuePons KindCurveSell None (Some v))
              else None))"

lemma hit_sel [simp]:
  "rh_venue (hit v k p c) = v" "rh_kind (hit v k p c) = k" "rh_pool (hit v k p c) = p"
  "rh_curve (hit v k p c) = c"
  by (simp_all add: hit_def)

lemma hit_eq [simp]: "hit v k p c = hit v' k' p' c' \<longleftrightarrow> v = v' \<and> k = k' \<and> p = p' \<and> c = c'"
  by (simp add: hit_def)

text \<open>The letter case of the log's address and topic does not matter.\<close>

lemma role_of_lower [simp]: "role_of c (to_lower a) = role_of c a"
  and match_exact_lower [simp]: "match_exact c (to_lower a) t = match_exact c a t"
    "match_exact c a (to_lower t) = match_exact c a t"
  and pool_lookup_lower [simp]: "pool_lookup c (to_lower i) = pool_lookup c i"
  and curve_lookup_lower [simp]: "curve_lookup c (to_lower a) = curve_lookup c a"
  by (simp_all add: role_of_def match_exact_def pool_lookup_def curve_lookup_def)

section \<open>What a hit carries\<close>

text \<open>
  In a catalog built by the code no rule is a curve rule and only the PoolManager's Swap rule
  needs a pool; \<open>static_ok\<close> is the part of that the dispatch depends on.
\<close>

definition static_ok :: "catalog \<Rightarrow> bool" where
  "static_ok c \<longleftrightarrow> (\<forall>k e. cat_entries c k = Some e \<longrightarrow>
     en_kind e \<noteq> KindCurveBuy \<and> en_kind e \<noteq> KindCurveSell \<and> k = rule_key (en_address e) (en_topic0 e))"

lemma default_entries_kinds:
  "e \<in> set default_entries \<Longrightarrow> en_kind e \<noteq> KindCurveBuy \<and> en_kind e \<noteq> KindCurveSell"
  by (auto simp: default_entries_def mk_entry_def)

lemma new_catalog_static: "new_catalog = Inr c \<Longrightarrow> static_ok c"
proof -
  assume "new_catalog = Inr c"
  then have c: "c = add_entries default_entries empty_catalog"
    by (auto simp: new_catalog_def Let_def split: option.splits)
  show ?thesis
    unfolding static_ok_def c
  proof (intro allI impI)
    fix k e
    assume "cat_entries (add_entries default_entries empty_catalog) k = Some e"
    then show "en_kind e \<noteq> KindCurveBuy \<and> en_kind e \<noteq> KindCurveSell \<and>
        k = rule_key (en_address e) (en_topic0 e)"
      by (rule add_entries_inv) (auto simp: empty_catalog_def dest: default_entries_kinds)
  qed
qed

lemma static_ok_register:
  "\<lbrakk>static_ok c; register_pool E p c = Inr c'\<rbrakk> \<Longrightarrow> static_ok c'"
  "\<lbrakk>static_ok c; register_curve E v c = Inr c'\<rbrakk> \<Longrightarrow> static_ok c'"
  "\<lbrakk>static_ok c; rebuild_registrations E ps vs c = Inr c'\<rbrakk> \<Longrightarrow> static_ok c'"
  by (auto simp: static_ok_def register_pool_def register_curve_def rebuild_registrations_def res_simps)

text \<open>
  The contract the block handler uses when it dereferences the hit's pointers: a swap hit has
  the pool of its second topic, a curve hit has the curve of its address, and only these two
  kinds carry a registration.
\<close>

lemma route_payload:
  assumes "static_ok c" and "route c a t ts = Some h"
  shows "rh_kind h = KindV4Swap \<longleftrightarrow> rh_pool h \<noteq> None"
    and "rh_kind h \<in> {KindCurveBuy, KindCurveSell} \<longleftrightarrow> rh_curve h \<noteq> None"
    and "rh_pool h = Some p \<Longrightarrow> 2 \<le> length ts \<and> pool_lookup c (ts ! 1) = Some p"
    and "rh_curve h = Some v \<Longrightarrow> curve_lookup c a = Some v"
  using assms
  by (auto simp: route_def Let_def static_ok_def match_exact_def split: if_splits option.splits)

section \<open>Every catalog the program can have\<close>

text \<open>
  The catalog starts as \<open>NewCatalog\<close> and changes only by registrations and rebuilds (a failed
  call leaves it as it was).
\<close>

inductive reachable_catalog :: "eth_common \<Rightarrow> catalog \<Rightarrow> bool" for E where
  start: "new_catalog = Inr c \<Longrightarrow> reachable_catalog E c"
| pool: "\<lbrakk>reachable_catalog E c; register_pool E p c = Inr c'\<rbrakk> \<Longrightarrow> reachable_catalog E c'"
| curve: "\<lbrakk>reachable_catalog E c; register_curve E v c = Inr c'\<rbrakk> \<Longrightarrow> reachable_catalog E c'"
| rebuild: "\<lbrakk>reachable_catalog E c; rebuild_registrations E ps vs c = Inr c'\<rbrakk> \<Longrightarrow> reachable_catalog E c'"

lemma reachable_catalog_inv:
  assumes "eth_ok E" and "reachable_catalog E c"
  shows "registrations_ok c \<and> static_ok c"
  using assms(2)
proof induction
  case (start c)
  then show ?case by (simp add: new_catalog_registrations new_catalog_static)
next
  case (pool c p c')
  then show ?case using register_pool_inv [OF assms(1)] static_ok_register by blast
next
  case (curve c v c')
  then show ?case using register_curve_inv [OF assms(1)] static_ok_register by blast
next
  case (rebuild c ps vs c')
  then show ?case using rebuild_inv [OF assms(1)] static_ok_register by blast
qed

section \<open>Properties\<close>

text \<open>C26. Whatever sequence of registrations built the catalog, a hit of the router carries what
  its kind needs: a Swap the registered pool of its second topic, a curve trade the registered
  curve of the emitting address, both in normal form, and no other kind a registration; so the
  block handler never dereferences a missing registration.\<close>

theorem dispatch_carries_registration:
  assumes "eth_ok E" and "reachable_catalog E c" and "route c a t ts = Some h"
  shows "(rh_kind h = KindV4Swap \<longleftrightarrow> (\<exists>p. rh_pool h = Some p \<and> pool_ok p \<and> 2 \<le> length ts \<and>
        pr_pool_id p = to_lower (ts ! 1))) \<and>
    (rh_kind h \<in> {KindCurveBuy, KindCurveSell} \<longleftrightarrow> (\<exists>v. rh_curve h = Some v \<and> curve_ok v \<and>
        cr_curve v = to_lower a))"
proof -
  have inv: "registrations_ok c" "static_ok c" using reachable_catalog_inv [OF assms(1,2)] by blast+
  note p = route_payload [OF inv(2) assms(3)]
  have "pool_ok p \<and> pr_pool_id p = to_lower (ts ! 1)" if "rh_pool h = Some p" for p
    using p(3) [OF that] inv(1) by (auto simp: registrations_ok_def pool_lookup_def)
  moreover have "curve_ok v \<and> cr_curve v = to_lower a" if "rh_curve h = Some v" for v
    using p(4) [OF that] inv(1) by (auto simp: registrations_ok_def curve_lookup_def)
  ultimately show ?thesis using p by (auto simp: not_None_eq)
qed

definition ex_reg :: curve_registration where
  "ex_reg = \<lparr>cr_curve = ''0x1111111111111111111111111111111111111111'',
     cr_token = ''0x2222222222222222222222222222222222222222'', cr_quote = weth_address,
     cr_token_decimals = 18, cr_quote_decimals = 18\<rparr>"

lemma new_catalog_ok: "new_catalog = Inr (add_entries default_entries empty_catalog)"
proof -
  have "find (\<lambda>(a, t). cat_entries (add_entries default_entries empty_catalog) (rule_key a t) = None)
      required_rules = None"
    by code_simp
  then show ?thesis by (simp add: new_catalog_def Let_def)
qed

theorem dispatch_carries_registration_witness:
  "\<exists>c h. route c (cr_curve ex_reg) topic_pons_curve_buy [topic_pons_curve_buy] = Some h \<and> rh_curve h = Some ex_reg"
proof -
  let ?c = "add_entries default_entries empty_catalog"
  have n: "normalize_curve_registration eth_plain ex_reg = Inr ex_reg" by code_simp
  obtain c' where c': "register_curve eth_plain ex_reg ?c = Inr c'"
    "c' = ?c\<lparr>cat_curves := (cat_curves ?c)(cr_curve ex_reg \<mapsto> ex_reg)\<rparr>"
    using n by (simp add: register_curve_def)
  have r: "reachable_catalog eth_plain c'"
    using c'(1) new_catalog_ok by (blast intro: start curve)
  have h: "route c' (cr_curve ex_reg) topic_pons_curve_buy [topic_pons_curve_buy] =
      Some (hit VenuePons KindCurveBuy None (Some ex_reg))"
    unfolding c'(2) by code_simp
  from dispatch_carries_registration [OF eth_plain_ok r h] have "rh_curve (hit VenuePons KindCurveBuy None (Some ex_reg)) = Some ex_reg"
    by auto
  with h show ?thesis by (intro exI conjI)
qed

end
