(* ===== verification/Abi_Words.thy ===== *)
theory Abi_Words
  imports Go_Text
begin

unbundle bit_operations_syntax

text \<open>
  Event data as the venues read it: a log with its topics (text) and data (bytes), 32-byte ABI
  words, and what a strict decoder of signed and unsigned words promises. The three venue
  packages each carry their own copy of the decoders; the two locales state the contract once
  and each package interprets them on its copy.
\<close>

record event_log =
  el_address :: string
  el_topics :: "string list"
  el_data :: "byte list"
  el_log_index :: u64

text \<open>\<open>xs[i:j]\<close> of a slice long enough.\<close>

definition slice :: "nat \<Rightarrow> nat \<Rightarrow> 'a list \<Rightarrow> 'a list" where
  "slice i j xs = take (j - i) (drop i xs)"

lemma slice_length [simp]: "j \<le> length xs \<Longrightarrow> length (slice i j xs) = j - i"
  by (simp add: slice_def)

section \<open>Big-endian numbers\<close>

text \<open>\<open>new(big.Int).SetBytes(bs)\<close>\<close>

fun be_nat :: "byte list \<Rightarrow> nat" where
  "be_nat [] = 0"
| "be_nat (b # bs) = unat b * 256 ^ length bs + be_nat bs"

fun be_bytes :: "nat \<Rightarrow> nat \<Rightarrow> byte list" where
  "be_bytes 0 n = []"
| "be_bytes (Suc k) n = of_nat (n div 256 ^ k) # be_bytes k (n mod 256 ^ k)"

lemma unat_byte: "unat (b :: byte) < 256"
  using unsigned_less [of b, where 'a = nat] by simp

lemma be_nat_bound: "be_nat bs < 256 ^ length bs"
proof (induction bs)
  case (Cons b bs)
  have "(unat b + 1) * 256 ^ length bs \<le> 256 * 256 ^ length bs"
    using unat_byte [of b] by (intro mult_le_mono1) simp
  then have "unat b * 256 ^ length bs + 256 ^ length bs \<le> 256 * 256 ^ length bs"
    by (simp only: add_mult_distrib mult_1)
  with Cons have "unat b * 256 ^ length bs + be_nat bs < 256 * 256 ^ length bs"
    by linarith
  then show ?case by simp
qed simp

lemma be_nat_append: "be_nat (xs @ ys) = be_nat xs * 256 ^ length ys + be_nat ys"
  by (induction xs) (simp_all add: algebra_simps power_add)

text \<open>How the evaluator computes it.\<close>

lemma be_nat_horner [code]: "be_nat bs = foldl (\<lambda>n b. n * 256 + unat b) 0 bs"
proof -
  have "foldl (\<lambda>n b. n * 256 + unat b) a bs = a * 256 ^ length bs + be_nat bs" for a
    by (induction bs arbitrary: a) (simp_all add: algebra_simps)
  then show ?thesis by simp
qed

lemma be_bytes_length [simp]: "length (be_bytes k n) = k"
  by (induction k arbitrary: n) auto

lemma be_bytes_snoc: "be_bytes (Suc k) n = be_bytes k (n div 256) @ [of_nat (n mod 256)]"
proof (induction k arbitrary: n)
  case 0
  have "unat (of_nat n :: byte) = unat (of_nat (n mod 256) :: byte)"
    by (simp add: unsigned_of_nat take_bit_eq_mod)
  then have "(of_nat n :: byte) = of_nat (n mod 256)" by (rule unsigned_word_eqI)
  then show ?case by simp
next
  case (Suc k)
  have "n div 256 ^ Suc k = n div 256 div 256 ^ k" by (simp add: div_mult2_eq)
  moreover have "n mod 256 ^ Suc k div 256 = n div 256 mod 256 ^ k"
    by (simp add: mod_mult2_eq)
  moreover have "n mod 256 ^ Suc k mod 256 = n mod 256" by (simp add: mod_mod_cancel)
  ultimately show ?case
    using Suc.IH [of "n mod 256 ^ Suc k"] by (simp del: power_Suc)
qed

fun be_bytes_onto :: "nat \<Rightarrow> nat \<Rightarrow> byte list \<Rightarrow> byte list" where
  "be_bytes_onto 0 n bs = bs"
| "be_bytes_onto (Suc k) n bs = be_bytes_onto k (n div 256) (of_nat (n mod 256) # bs)"

lemma be_bytes_code [code]: "be_bytes k n = be_bytes_onto k n []"
proof -
  have "be_bytes_onto k n bs = be_bytes k n @ bs" for bs
    by (induction k arbitrary: n bs) (simp_all add: be_bytes_snoc del: be_bytes.simps(2))
  then show ?thesis by simp
qed

lemma be_nat_bytes: "n < 256 ^ k \<Longrightarrow> be_nat (be_bytes k n) = n"
proof (induction k arbitrary: n)
  case (Suc k)
  have "n div 256 ^ k < 256"
    using Suc.prems by (simp add: less_mult_imp_div_less)
  then have "unat (of_nat (n div 256 ^ k) :: byte) = n div 256 ^ k"
    by (simp add: unsigned_of_nat take_bit_eq_mod)
  moreover have "be_nat (be_bytes k (n mod 256 ^ k)) = n mod 256 ^ k"
    by (rule Suc.IH) simp
  ultimately show ?case by (simp add: div_mult_mod_eq)
qed simp

lemma be_nat_inject: "\<lbrakk>length xs = length ys; be_nat xs = be_nat ys\<rbrakk> \<Longrightarrow> xs = ys"
proof (induction xs ys rule: list_induct2)
  case (Cons x xs y ys)
  have b: "be_nat xs < 256 ^ length ys" "be_nat ys < 256 ^ length ys"
    using be_nat_bound [of xs] be_nat_bound [of ys] Cons(1) by simp_all
  from Cons(1,3) have e: "unat x * 256 ^ length ys + be_nat xs = unat y * 256 ^ length ys + be_nat ys"
    by simp
  then have "(unat x * 256 ^ length ys + be_nat xs) div 256 ^ length ys =
      (unat y * 256 ^ length ys + be_nat ys) div 256 ^ length ys" by simp
  then have "unat x = unat y" using b by simp
  then have "x = y" by (simp add: word_unat_eq_iff)
  with e Cons show ?case by simp
qed simp

lemma be_nat_zeros [simp]: "be_nat (replicate k 0) = 0"
  by (induction k) auto

lemma be_nat_ones: "be_nat (replicate k 255) + 1 = 256 ^ k"
proof (induction k)
  case (Suc k)
  have "unat (255 :: byte) = 255" by simp
  with Suc show ?case unfolding replicate_Suc be_nat.simps by simp
qed simp

lemma be_nat_eq_0: "be_nat xs = 0 \<longleftrightarrow> xs = replicate (length xs) 0"
  using be_nat_inject [of xs "replicate (length xs) 0"] be_nat_zeros by (metis length_replicate)

lemma be_nat_eq_max: "be_nat xs + 1 = 256 ^ length xs \<longleftrightarrow> xs = replicate (length xs) 255"
  using be_nat_inject [of xs "replicate (length xs) 255"] be_nat_ones [of "length xs"]
  by (metis add_right_cancel length_replicate)

lemma list_all_eq_replicate: "list_all (\<lambda>b. b = c) xs \<longleftrightarrow> xs = replicate (length xs) c"
  by (induction xs) auto

section \<open>The value of an ABI word\<close>

text \<open>A 32-byte word read as a 256-bit two's complement number.\<close>

definition signed_word :: "byte list \<Rightarrow> int" where
  "signed_word w = (if be_nat w < 2 ^ 255 then int (be_nat w) else int (be_nat w) - 2 ^ 256)"

definition encode_signed :: "int \<Rightarrow> byte list" where
  "encode_signed v = be_bytes 32 (nat (if 0 \<le> v then v else v + 2 ^ 256))"

lemma encode_signed:
  assumes "- (2 ^ 255) \<le> v" and "v < 2 ^ 255"
  shows "length (encode_signed v) = 32" "signed_word (encode_signed v) = v"
proof -
  show "length (encode_signed v) = 32" by (simp add: encode_signed_def)
  let ?n = "nat (if 0 \<le> v then v else v + 2 ^ 256)"
  have "?n < 256 ^ 32" using assms by (auto simp: nat_less_iff)
  from be_nat_bytes [OF this] have n: "be_nat (encode_signed v) = ?n" by (simp add: encode_signed_def)
  show "signed_word (encode_signed v) = v"
    unfolding signed_word_def n using assms by (auto simp: nat_less_iff)
qed

text \<open>
  A word with \<open>n\<close> value bytes behind \<open>k\<close> padding bytes: its 256-bit value fits the \<open>n\<close>
  bytes exactly when the padding is the sign extension.
\<close>

lemma signed_word_split:
  assumes "length pre = k" "length suf = n" "k + n = 32" "0 < n" "0 < k"
  defines "h \<equiv> 2 ^ (8 * n - 1) :: nat"
  shows "- int h \<le> signed_word (pre @ suf) \<and> signed_word (pre @ suf) < int h \<longleftrightarrow>
      (if be_nat suf < h then pre = replicate k 0 else pre = replicate k 255)" (is ?A)
    and "pre = replicate k 0 \<Longrightarrow> be_nat suf < h \<Longrightarrow> signed_word (pre @ suf) = int (be_nat suf)"
    and "pre = replicate k 255 \<Longrightarrow> \<not> be_nat suf < h \<Longrightarrow>
      signed_word (pre @ suf) = int (be_nat suf) - 256 ^ n"
proof -
  let ?N = "256 ^ n :: nat" and ?M = "256 ^ k :: nat" and ?P = "be_nat pre" and ?v = "be_nat suf"
  have hh: "2 * h = ?N"
  proof -
    have "2 * h = 2 ^ Suc (8 * n - 1)" unfolding h_def by (rule power_Suc [symmetric])
    also have "Suc (8 * n - 1) = 8 * n" using assms(4) by simp
    also have "(2::nat) ^ (8 * n) = ?N" by (simp add: power_mult)
    finally show ?thesis .
  qed
  have iN: "int ?N = 2 * int h" using hh by linarith
  have MN: "?M * ?N = 2 ^ 256"
  proof -
    have "?M * ?N = 256 ^ (k + n)" by (rule power_add [symmetric])
    then show ?thesis by (simp add: assms(3))
  qed
  have M: "256 \<le> ?M" using assms(5) self_le_power [of "256::nat" k] by simp
  have Pb: "?P < ?M" and vb: "?v < ?N"
    using be_nat_bound [of pre] be_nat_bound [of suf] assms(1,2) by simp_all
  have t: "be_nat (pre @ suf) = ?P * ?N + ?v" by (simp add: be_nat_append assms(2))
  have half: "(2::nat) ^ 255 = (?M div 2) * ?N"
  proof -
    have "even ?M" using assms(5) by simp
    then have "2 * ((?M div 2) * ?N) = 2 ^ 256" using MN by (metis mult.assoc dvd_mult_div_cancel)
    then show ?thesis by (simp add: mult.commute)
  qed
  have P0: "?P = 0 \<longleftrightarrow> pre = replicate k 0" using be_nat_eq_0 [of pre] assms(1) by simp
  have Pm: "?P + 1 = ?M \<longleftrightarrow> pre = replicate k 255" using be_nat_eq_max [of pre] assms(1) by simp
  have low: "signed_word (pre @ suf) = int (?P * ?N + ?v)" if "?P < ?M div 2"
  proof -
    have "(?P + 1) * ?N \<le> (?M div 2) * ?N" using that by (intro mult_le_mono1) simp
    then have "?P * ?N + ?v < 2 ^ 255" unfolding half using vb by simp
    then show ?thesis by (simp add: signed_word_def t)
  qed
  have high: "signed_word (pre @ suf) = int (?P * ?N + ?v) - int (?M * ?N)" if "\<not> ?P < ?M div 2"
  proof -
    have "(?M div 2) * ?N \<le> ?P * ?N" using that by (intro mult_le_mono1) simp
    then have "\<not> ?P * ?N + ?v < 2 ^ 255" unfolding half by linarith
    then show ?thesis by (simp add: signed_word_def t MN)
  qed
  show z: "signed_word (pre @ suf) = int ?v" if "pre = replicate k 0" "?v < h"
    using low M P0 that by simp
  show o: "signed_word (pre @ suf) = int ?v - 256 ^ n" if "pre = replicate k 255" "\<not> ?v < h"
  proof -
    from Pm that have "?P = ?M - 1" by simp
    moreover from this have "(?M * ?N) = ?P * ?N + ?N" using M by (simp add: algebra_simps)
    ultimately show ?thesis using high M by simp
  qed
  show ?A
  proof (cases "?P = 0 \<or> ?P + 1 = ?M")
    case True
    then show ?thesis
    proof
      assume "?P = 0"
      with low M have "signed_word (pre @ suf) = int ?v" by simp
      moreover have "pre \<noteq> replicate k 255" using \<open>?P = 0\<close> Pm M by auto
      ultimately show ?thesis using P0 \<open>?P = 0\<close> by auto
    next
      assume P: "?P + 1 = ?M"
      then have "?M * ?N = ?P * ?N + ?N" by (metis add_mult_distrib nat_mult_1)
      with high M P have "signed_word (pre @ suf) = int ?v - int ?N" by simp
      moreover have "pre \<noteq> replicate k 0" using P P0 M by auto
      moreover have "int ?v < 2 * int h" using vb hh by linarith
      ultimately show ?thesis using P Pm iN unfolding of_nat_power by auto
    qed
  next
    case False
    have a: "int ?N \<le> int (?P * ?N)" using False by (simp del: of_nat_mult)
    have "?P * ?N + ?N + ?N \<le> ?M * ?N"
    proof -
      have "(?P + 2) * ?N \<le> ?M * ?N" using False Pb by (intro mult_le_mono1) simp
      then show ?thesis by (simp add: algebra_simps)
    qed
    then have b: "int (?P * ?N) + int ?N + int ?N \<le> int (?M * ?N)" by linarith
    have vi: "int ?v < 2 * int h" using vb hh by linarith
    have "\<not> (- int h \<le> signed_word (pre @ suf) \<and> signed_word (pre @ suf) < int h)"
    proof (cases "?P < ?M div 2")
      case True
      with low [OF this] a iN vi show ?thesis unfolding of_nat_add by linarith
    next
      case False
      with high [OF this] b iN vi show ?thesis unfolding of_nat_add by linarith
    qed
    with False P0 Pm show ?thesis by auto
  qed
qed

section \<open>The contract of a strict decoder\<close>

text \<open>
  \<open>dec\<close> accepts a 32-byte word exactly when its value fits \<open>n\<close> bytes, and returns it.
\<close>

locale strict_signed =
  fixes dec :: "byte list \<Rightarrow> int res" and n :: nat
  assumes size: "0 < n" "n < 32"
    and short: "length w \<noteq> 32 \<Longrightarrow> dec w = Inl E_word_length"
    and strict: "length w = 32 \<Longrightarrow> dec w =
      (if - (2 ^ (8 * n - 1)) \<le> signed_word w \<and> signed_word w < 2 ^ (8 * n - 1)
       then Inr (signed_word w) else Inl E_word_padding)"
begin

lemma bound_256: "(2::int) ^ (8 * n - 1) \<le> 2 ^ 255"
  by (rule power_increasing) (use size in auto)

lemma roundtrip:
  assumes "- (2 ^ (8 * n - 1)) \<le> v" and "v < 2 ^ (8 * n - 1)"
  shows "dec (encode_signed v) = Inr v"
proof -
  have "- (2 ^ 255) \<le> v" "v < 2 ^ 255" using assms bound_256 by linarith+
  with encode_signed [of v] assms show ?thesis by (simp add: strict)
qed

lemma range: "dec w = Inr v \<Longrightarrow> - (2 ^ (8 * n - 1)) \<le> v \<and> v < 2 ^ (8 * n - 1)"
  using short [of w] strict [of w] by (cases "length w = 32") (auto split: if_splits)

lemma inject: "\<lbrakk>dec w = Inr v; dec w' = Inr v\<rbrakk> \<Longrightarrow> w = w'"
proof -
  assume a: "dec w = Inr v" "dec w' = Inr v"
  have l: "length w = 32" "length w' = 32"
    using a short by (metis sum.distinct(1))+
  have "signed_word w = signed_word w'"
    using a l by (auto simp: strict split: if_splits)
  moreover have "be_nat w < 2 ^ 256" "be_nat w' < 2 ^ 256"
    using be_nat_bound [of w] be_nat_bound [of w'] l by simp_all
  ultimately have "be_nat w = be_nat w'"
    by (auto simp: signed_word_def split: if_splits)
  with l show "w = w'" by (intro be_nat_inject) simp_all
qed

lemma accepts:
  "dec w = Inr v \<longleftrightarrow> - (2 ^ (8 * n - 1)) \<le> v \<and> v < 2 ^ (8 * n - 1) \<and> w = encode_signed v"
  using range [of w v] roundtrip [of v] inject [of w v "encode_signed v"] by auto

end

locale strict_unsigned =
  fixes dec :: "byte list \<Rightarrow> int res" and n :: nat
  assumes size: "n \<le> 32"
    and short: "length w \<noteq> 32 \<Longrightarrow> dec w = Inl E_word_length"
    and strict: "length w = 32 \<Longrightarrow> dec w =
      (if be_nat w < 256 ^ n then Inr (int (be_nat w)) else Inl E_word_padding)"
begin

lemma range: "dec w = Inr v \<Longrightarrow> 0 \<le> v \<and> v < 256 ^ n"
  using short [of w] strict [of w] by (cases "length w = 32") (auto split: if_splits)

lemma roundtrip: "m < 256 ^ n \<Longrightarrow> dec (be_bytes 32 m) = Inr (int m)"
  using be_nat_bytes [of m 32] strict [of "be_bytes 32 m"] power_increasing [OF size, of "256::nat"]
  by simp

lemma accepts: "dec w = Inr v \<longleftrightarrow> 0 \<le> v \<and> v < 256 ^ n \<and> w = be_bytes 32 (nat v)"
proof
  assume d: "dec w = Inr v"
  then have l: "length w = 32" using short [of w] by (cases "length w = 32") auto
  with d have v: "v = int (be_nat w)" using strict [of w] by (auto split: if_splits)
  have "be_nat (be_bytes 32 (be_nat w)) = be_nat w"
    using be_nat_bound [of w] l by (intro be_nat_bytes) simp
  then have "be_bytes 32 (be_nat w) = w" by (rule be_nat_inject [rotated]) (simp add: l)
  with range [OF d] v show "0 \<le> v \<and> v < 256 ^ n \<and> w = be_bytes 32 (nat v)" by simp
next
  assume "0 \<le> v \<and> v < 256 ^ n \<and> w = be_bytes 32 (nat v)"
  with roundtrip [of "nat v"] show "dec w = Inr v" by (auto simp: nat_less_iff)
qed

end

section \<open>Three-byte values assembled by shifts\<close>

lemma high_bit: "(b :: byte) AND 0x80 \<noteq> 0 \<longleftrightarrow> 128 \<le> unat b"
proof -
  have odd_div: "odd (m div 128) \<longleftrightarrow> 128 \<le> m" if "m < 256" for m :: nat
  proof (cases "m < 128")
    case True
    then show ?thesis by simp
  next
    case False
    with that have "m div 128 = 1" by (intro div_nat_eqI) simp_all
    with False show ?thesis by simp
  qed
  have "(128 :: byte) = 2 ^ 7" by simp
  then have "b AND 0x80 \<noteq> 0 \<longleftrightarrow> bit b 7"
    using and_exp_eq_0_iff_not_bit [of b 7] by metis
  moreover have "bit b 7 \<longleftrightarrow> bit (unat b) 7"
    by (simp add: bit_unsigned_iff)
  moreover have "bit (unat b) 7 \<longleftrightarrow> odd (unat b div 128)"
    by (simp add: bit_iff_odd)
  ultimately show ?thesis using odd_div [OF unat_byte [of b]] by simp
qed

text \<open>\<open>T(a)<<16 | T(b)<<8 | T(c)\<close> at the integer type of the code.\<close>

definition shift3 :: "byte \<Rightarrow> byte \<Rightarrow> byte \<Rightarrow> 'a::len word" where
  "shift3 a b c = push_bit 16 (ucast a) OR push_bit 8 (ucast b) OR ucast c"

lemma byte_bit: "bit (b :: byte) n \<Longrightarrow> n < 8"
  using bit_imp_le_length [of b n] by simp

lemma shift3_of_nat [code]: "shift3 a b c = (of_nat (be_nat [a, b, c]) :: 'a::len word)"
proof -
  let ?a = "push_bit 16 (ucast a) :: 'a word" and ?b = "push_bit 8 (ucast b) :: 'a word"
  have "?a AND ?b = 0" "(?a OR ?b) AND ucast c = 0"
    by (rule bit_word_eqI, auto simp: bit_simps dest!: byte_bit)+
  then have "shift3 a b c = ?a + ?b + ucast c"
    using disjunctive_add_eq_or [of ?a ?b] disjunctive_add_eq_or [of "?a OR ?b" "ucast c"]
    by (simp add: shift3_def or.assoc)
  also have "\<dots> = of_nat (be_nat [a, b, c])"
    by (simp add: push_bit_eq_mult mult.commute)
  finally show ?thesis .
qed

lemma be_nat3_bound: "be_nat [a, b, c] < 2 ^ 24"
  using be_nat_bound [of "[a, b, c]"] by simp

lemma sint_of_int:
  "\<lbrakk>- (2 ^ (LENGTH('a) - 1)) \<le> i; i < 2 ^ (LENGTH('a) - 1)\<rbrakk> \<Longrightarrow> sint (of_int i :: 'a::len word) = i"
  by (simp add: signed_of_int signed_take_bit_int_eq_self)

text \<open>Both decoders of three-byte words, at any integer type of 32 bits or more.\<close>

definition unsigned3 :: "'a::len itself \<Rightarrow> byte list \<Rightarrow> int res" where
  "unsigned3 T w =
     guardE (length w \<noteq> 32) E_word_length
       (guardE (\<not> list_all (\<lambda>b. b = 0) (take 29 w)) E_word_padding
         (Inr (uint (shift3 (w ! 29) (w ! 30) (w ! 31) :: 'a word))))"

definition signed3 :: "'a::len itself \<Rightarrow> byte list \<Rightarrow> int res" where
  "signed3 T w =
     guardE (length w \<noteq> 32) E_word_length
       (let negative = w ! 29 AND 0x80 \<noteq> 0; pad = (if negative then 0xff else 0)
        in guardE (\<not> list_all (\<lambda>b. b = pad) (take 29 w)) E_word_padding
             (let value = shift3 (w ! 29) (w ! 30) (w ! 31) :: 'a word
              in Inr (sint (if negative then value - 2 ^ 24 else value))))"

lemma three_short:
  "length w \<noteq> 32 \<Longrightarrow> unsigned3 T w = Inl E_word_length"
  "length w \<noteq> 32 \<Longrightarrow> signed3 T w = Inl E_word_length"
  by (simp_all add: unsigned3_def signed3_def guardE_def)

lemma word32_cases:
  assumes "length w = 32"
  obtains pre a b c where "w = pre @ [a, b, c]" "length pre = 29"
proof -
  have d: "length (drop 29 w) = 3" using assms by simp
  then obtain a b c where "drop 29 w = [a, b, c]"
    unfolding numeral_3_eq_3 length_Suc_conv by blast
  moreover have "w = take 29 w @ drop 29 w" by simp
  moreover have "length (take 29 w) = 29" using assms by simp
  ultimately show thesis using that by metis
qed

lemma unsigned3_spec:
  assumes "32 \<le> LENGTH('a::len)" and "length w = 32"
  shows "unsigned3 TYPE('a) w = (if be_nat w < 256 ^ 3 then Inr (int (be_nat w)) else Inl E_word_padding)"
proof -
  from word32_cases [OF assms(2)] obtain pre a b c where
    w: "w = pre @ [a, b, c]" "length pre = 29" by metis
  let ?v = "be_nat [a, b, c]"
  have n: "w ! 29 = a" "w ! 30 = b" "w ! 31 = c" "take 29 w = pre"
    using w by (simp_all add: nth_append)
  have "?v < 2 ^ LENGTH('a)"
    using be_nat3_bound [of a b c] power_increasing [OF assms(1), of "2::nat"]
    by (simp del: be_nat.simps)
  then have v: "uint (shift3 a b c :: 'a word) = int ?v"
    unfolding shift3_of_nat by (simp add: unsigned_of_nat take_bit_nat_eq_self del: be_nat.simps)
  have t: "be_nat w = be_nat pre * 256 ^ 3 + ?v" by (simp add: w be_nat_append del: be_nat.simps)
  have vb: "?v < 256 ^ 3" using be_nat_bound [of "[a, b, c]"] by simp
  show ?thesis
  proof (cases "be_nat pre = 0")
    case True
    with be_nat_eq_0 [of pre] w(2) have "list_all (\<lambda>b. b = 0) pre"
      by (simp add: list_all_eq_replicate)
    with True assms(2) vb show ?thesis
      unfolding unsigned3_def n v t by (simp del: be_nat.simps)
  next
    case False
    then have "\<not> list_all (\<lambda>b. b = 0) pre"
      using be_nat_eq_0 [of pre] by (simp add: list_all_eq_replicate)
    moreover have "256 ^ 3 \<le> be_nat pre * 256 ^ 3" using False by simp
    then have "\<not> be_nat pre * 256 ^ 3 + ?v < 256 ^ 3" by linarith
    ultimately show ?thesis
      using assms(2) unfolding unsigned3_def n v t by (simp del: be_nat.simps)
  qed
qed

lemma signed3_spec:
  assumes "32 \<le> LENGTH('a::len)" and "length w = 32"
  shows "signed3 TYPE('a) w =
    (if - (2 ^ (8 * 3 - 1)) \<le> signed_word w \<and> signed_word w < 2 ^ (8 * 3 - 1)
     then Inr (signed_word w) else Inl E_word_padding)"
proof -
  from word32_cases [OF assms(2)] obtain pre a b c where
    w: "w = pre @ [a, b, c]" "length pre = 29" by metis
  let ?v = "be_nat [a, b, c]"
  have n: "w ! 29 = a" "w ! 30 = b" "w ! 31 = c" "take 29 w = pre"
    using w by (simp_all add: nth_append)
  have p: "(2::int) ^ 24 \<le> 2 ^ (LENGTH('a) - 1)"
    by (rule power_increasing) (use assms(1) in simp_all)
  have vb: "?v < 2 ^ 24" using be_nat3_bound by blast
  have s: "sint (of_int i :: 'a word) = i" if "- (2 ^ 24) \<le> i" "i < 2 ^ 24" for i
    by (rule sint_of_int) (use that p in linarith)+
  have v: "shift3 a b c = (of_int (int ?v) :: 'a word)"
    unfolding shift3_of_nat by (simp del: be_nat.simps)
  then have v': "shift3 a b c - 2 ^ 24 = (of_int (int ?v - 2 ^ 24) :: 'a word)"
    by (simp del: be_nat.simps)
  have neg: "a AND 0x80 \<noteq> 0 \<longleftrightarrow> \<not> ?v < 2 ^ (8 * 3 - 1)"
    using unat_byte [of b] unat_byte [of c] unfolding high_bit
    by (cases "128 \<le> unat a") simp_all
  note sp = signed_word_split [OF w(2), of "[a, b, c]" 3, folded w(1)]
  show ?thesis
  proof (cases "?v < 2 ^ (8 * 3 - 1)")
    case True
    have "sint (shift3 a b c :: 'a word) = int ?v" unfolding v by (rule s) (use vb in \<open>simp_all del: be_nat.simps\<close>)
    with sp True neg assms(2) show ?thesis
      unfolding signed3_def n Let_def
      by (simp add: list_all_eq_replicate w(2) guardE_def del: be_nat.simps)
  next
    case False
    have "sint (shift3 a b c - 2 ^ 24 :: 'a word) = int ?v - 2 ^ 24"
      unfolding v' by (rule s) (use vb False in \<open>simp_all del: be_nat.simps\<close>)
    with sp False neg assms(2) show ?thesis
      unfolding signed3_def n Let_def
      by (simp add: list_all_eq_replicate w(2) guardE_def del: be_nat.simps)
  qed
qed

section \<open>How a contract writes an address\<close>

definition address_text :: "byte list \<Rightarrow> string" where
  "address_text a = ''0x'' @ hex_of_bytes a"

definition address_topic :: "byte list \<Rightarrow> string" where
  "address_topic a = ''0x'' @ hex_of_bytes (replicate 12 0 @ a)"

definition address_word :: "byte list \<Rightarrow> byte list" where
  "address_word a = replicate 12 0 @ a"

lemma address_word_length [simp]: "length (address_word a) = 12 + length a"
  by (simp add: address_word_def)

lemma address_topic_digits:
  "trim_prefix (to_lower (address_topic a)) ''0x'' = hex_of_bytes (replicate 12 0 @ a)"
  "length a = 20 \<Longrightarrow> length (hex_of_bytes (replicate 12 0 @ a)) = 64"
  "drop 24 (hex_of_bytes (replicate 12 0 @ a)) = hex_of_bytes a"
proof -
  show "trim_prefix (to_lower (address_topic a)) ''0x'' = hex_of_bytes (replicate 12 0 @ a)"
    using hex_of_bytes_lower_hex [of "replicate 12 0 @ a"]
    by (simp add: address_topic_def trim_prefix_def has_prefix_def lower_char_def)
  show "length a = 20 \<Longrightarrow> length (hex_of_bytes (replicate 12 0 @ a)) = 64" by simp
  have "hex_of_bytes (replicate 12 0 @ a) = hex_of_bytes (replicate 12 0) @ hex_of_bytes a"
    by (simp only: hex_of_bytes_def map_append concat_append)
  moreover have "length (hex_of_bytes (replicate 12 0)) = 24" by simp
  ultimately show "drop 24 (hex_of_bytes (replicate 12 0 @ a)) = hex_of_bytes a"
    by (simp only: drop_append drop_all[of "hex_of_bytes (replicate 12 0)" 24]) simp
qed

lemma slice_words:
  "length a = 32 \<Longrightarrow> slice 0 32 (a @ r) = a"
  "\<lbrakk>length a = 32; length b = 32\<rbrakk> \<Longrightarrow> slice 32 64 (a @ b @ r) = b"
  "\<lbrakk>length a = 32; length b = 32; length c = 32\<rbrakk> \<Longrightarrow> slice 64 96 (a @ b @ c @ r) = c"
  by (simp_all add: slice_def)

end
