(* ===== verification/Venue_Pons.thy ===== *)
theory Venue_Pons
  imports Abi_Words Contracts_Catalog
begin

text \<open>
  \<open>internal/venue/pons\<close>: strict decoding of the Pons events (launch, curve trades,
  graduation). Each decoder either refuses the log or returns the domain value.
\<close>

record pons_tx =
  ptx_from :: string
  ptx_to :: string
  ptx_hash :: string
  ptx_value :: string
  ptx_block_number :: u64
  ptx_tx_index :: u64
  ptx_chain_time :: time
  ptx_logs :: "event_log list"

section \<open>ABI helpers (create.go, graduate.go)\<close>

definition pons_quote_metadata :: "string \<Rightarrow> string \<times> byte" where
  "pons_quote_metadata address =
     (if address = zero_address then (''ETH'', 18)
      else if address = weth_address then (''WETH'', 18)
      else if address = usdg_address then (''USDG'', 6)
      else (''UNKNOWN'', 0))"

definition pons_address_from_topic :: "eth_common \<Rightarrow> string \<Rightarrow> string res" where
  "pons_address_from_topic E topic =
     (let t = trim_prefix (to_lower topic) ''0x''
      in guardE (length t \<noteq> 64) E_shape (normalize_address E (drop 24 t)))"

definition pons_address_from_word :: "eth_common \<Rightarrow> byte list \<Rightarrow> string res" where
  "pons_address_from_word E w =
     guardE (length w \<noteq> 32) E_word_length
       (guardE (\<not> list_all (\<lambda>b. b = 0) (take 12 w)) E_word_padding
          (normalize_address E (hex_of_bytes (drop 12 w))))"

definition pons_word_uint :: "byte list \<Rightarrow> int" where
  "pons_word_uint w = int (be_nat w)"

definition pons_uint24 :: "byte list \<Rightarrow> int res" where
  "pons_uint24 w = unsigned3 TYPE(32) w"

definition pons_int24 :: "byte list \<Rightarrow> int res" where
  "pons_int24 w = signed3 TYPE(32) w"

interpretation pons_unsigned: strict_unsigned pons_uint24 3
  by unfold_locales (simp_all add: pons_uint24_def unsigned3_spec three_short)

interpretation pons_signed: strict_signed pons_int24 3
  by unfold_locales (simp_all add: pons_int24_def signed3_spec three_short)

section \<open>Creation\<close>

definition decode_launch_and_buy ::
  "eth_common \<Rightarrow> event_log \<Rightarrow> string \<Rightarrow> string \<Rightarrow> (string \<times> string) option res" where
  "decode_launch_and_buy E lg token curve =
     (if to_lower (el_address lg) \<noteq> pons_launch_and_buy \<or> el_topics lg = [] \<or>
         to_lower (el_topics lg ! 0) \<noteq> topic_pons_launched then Inr None
      else guardE (length (el_topics lg) \<noteq> 4 \<or> length (el_data lg) \<noteq> 96) E_shape
        (bindE (pons_address_from_topic E (el_topics lg ! 1)) (\<lambda>got_token.
         bindE (pons_address_from_topic E (el_topics lg ! 2)) (\<lambda>got_curve.
           if got_token \<noteq> token \<or> got_curve \<noteq> curve then Inr None
           else Inr (Some (dec_of_int (pons_word_uint (slice 32 64 (el_data lg))),
                           dec_of_int (pons_word_uint (slice 64 96 (el_data lg)))))))))"

text \<open>The loop over the logs of the transaction: the first match ends it, an error too.\<close>

fun first_buy :: "eth_common \<Rightarrow> string \<Rightarrow> string \<Rightarrow> event_log list \<Rightarrow> (string \<times> string) option res" where
  "first_buy E token curve [] = Inr None"
| "first_buy E token curve (lg # ls) =
     bindE (decode_launch_and_buy E lg token curve) (\<lambda>r.
       case r of Some b \<Rightarrow> Inr (Some b) | None \<Rightarrow> first_buy E token curve ls)"

definition pons_decode_create :: "eth_common \<Rightarrow> event_log \<Rightarrow> pons_tx \<Rightarrow> pons_launch res" where
  "pons_decode_create E lg tx =
     guardE (to_lower (el_address lg) \<noteq> pons_factory \<or> length (el_topics lg) \<noteq> 4 \<or>
             to_lower (el_topics lg ! 0) \<noteq> topic_pons_token_launched) E_event
       (guardE (length (el_data lg) \<noteq> 96) E_shape
         (bindE (pons_address_from_topic E (el_topics lg ! 1)) (\<lambda>token.
          bindE (pons_address_from_topic E (el_topics lg ! 2)) (\<lambda>curve.
          bindE (pons_address_from_topic E (el_topics lg ! 3)) (\<lambda>deployer.
          bindE (pons_address_from_word E (slice 0 32 (el_data lg))) (\<lambda>pair.
          bindE (normalize_address E (ptx_from tx)) (\<lambda>creator.
            (let launched_via = (if to_lower (ptx_to tx) = pons_launch_and_buy
                          then ''launch_and_buy'' else ''factory'');
                 (pair_symbol, pair_decimals) = pons_quote_metadata pair
             in bindE (first_buy E token curve (ptx_logs tx)) (\<lambda>buy.
                  let (fb_quote, fb_tokens) = (case buy of Some b \<Rightarrow> b | None \<Rightarrow> (''0'', ''0''))
                  in Inr \<lparr>pl_token_address = token, pl_symbol = [], pl_name = [], pl_logo = [],
                    pl_description = [], pl_curve_address = curve, pl_pair_address = pair,
                    pl_pair_symbol = pair_symbol, pl_pair_decimals = pair_decimals,
                    pl_launch_config_id = dec_of_int (pons_word_uint (slice 32 64 (el_data lg))),
                    pl_graduation_threshold = dec_of_int (pons_word_uint (slice 64 96 (el_data lg))),
                    pl_first_buy_quote = fb_quote, pl_deployer = deployer, pl_creator_eoa = creator,
                    pl_creator_fee_recipient = [], pl_launch_entry = launched_via,
                    pl_first_buy_tokens = fb_tokens, pl_phase = ''curve'', pl_pool_id = [],
                    pl_tx_hash = to_lower (ptx_hash tx), pl_graduated_at = None,
                    pl_block_number = ptx_block_number tx, pl_log_index = el_log_index lg,
                    pl_created_at = ptx_chain_time tx\<rparr>)))))))))"

section \<open>Curve trades\<close>

fun verify_buy_transfer_loop ::
  "eth_common \<Rightarrow> string \<Rightarrow> string \<Rightarrow> event_log list \<Rightarrow> bool \<Rightarrow> bool \<Rightarrow> (bool \<times> bool) res" where
  "verify_buy_transfer_loop E token recipient [] found matched = Inr (found, matched)"
| "verify_buy_transfer_loop E token recipient (lg # ls) found matched =
     (if to_lower (el_address lg) \<noteq> to_lower token \<or> el_topics lg = [] \<or>
         to_lower (el_topics lg ! 0) \<noteq> topic_erc20_transfer
      then verify_buy_transfer_loop E token recipient ls found matched
      else guardE (length (el_topics lg) \<noteq> 3 \<or> length (el_data lg) \<noteq> 32) E_shape
        (bindE (pons_address_from_topic E (el_topics lg ! 2)) (\<lambda>to.
           verify_buy_transfer_loop E token recipient ls True (matched \<or> to = recipient))))"

definition verify_buy_transfer ::
  "eth_common \<Rightarrow> event_log list \<Rightarrow> string \<Rightarrow> string \<Rightarrow> err option res" where
  "verify_buy_transfer E logs token recipient =
     bindE (verify_buy_transfer_loop E token recipient logs False False)
       (\<lambda>(found, matched). Inr (if found \<and> \<not> matched then Some E_attribution else None))"

definition decode_curve ::
  "eth_common \<Rightarrow> event_log \<Rightarrow> pons_tx \<Rightarrow> curve_registration \<Rightarrow> fill res" where
  "decode_curve E lg tx registration =
     guardE (to_lower (el_address lg) \<noteq> to_lower (cr_curve registration)) E_event
       (guardE (length (el_topics lg) \<noteq> 3 \<or> length (el_data lg) \<noteq> 128) E_shape
         (let topic = to_lower (el_topics lg ! 0)
          in guardE (topic \<noteq> topic_pons_curve_buy \<and> topic \<noteq> topic_pons_curve_sell) E_event
            (bindE (pons_address_from_topic E (el_topics lg ! 2)) (\<lambda>user.
              (let base = \<lparr>f_token = cr_token registration, f_category = ''pons'',
                     f_quote = cr_quote registration, f_user = user, f_side = [], f_router = ''curve'',
                     f_tx_hash = to_lower (ptx_hash tx), f_warning = None,
                     f_meme_amount_raw = [], f_quote_amount_raw = [],
                     f_token_decimals = cr_token_decimals registration,
                     f_quote_decimals = cr_quote_decimals registration,
                     f_block_number = ptx_block_number tx, f_tx_index = ptx_tx_index tx,
                     f_log_index = el_log_index lg, f_chain_time = ptx_chain_time tx,
                     f_protocol_contracts = [cr_curve registration]\<rparr>;
                   first = dec_of_int (pons_word_uint (slice 0 32 (el_data lg)));
                   snd_word = dec_of_int (pons_word_uint (slice 32 64 (el_data lg)))
               in if topic = topic_pons_curve_buy
                  then bindE (verify_buy_transfer E (ptx_logs tx) (cr_token registration) user)
                    (\<lambda>warning. Inr (base\<lparr>f_side := ''buy'', f_quote_amount_raw := first,
                       f_meme_amount_raw := snd_word, f_warning := warning\<rparr>))
                  else Inr (base\<lparr>f_side := ''sell'', f_meme_amount_raw := first,
                       f_quote_amount_raw := snd_word\<rparr>))))))"

section \<open>Graduation\<close>

record graduation =
  gr_token :: string
  gr_pool_id :: string
  gr_position_id :: string
  gr_token_amount :: string
  gr_pair_token_amount :: string
  gr_graduated_at :: time

fun find_pons_initialize :: "eth_common \<Rightarrow> event_log list \<Rightarrow> string \<Rightarrow> string res" where
  "find_pons_initialize E [] token = Inl E_no_initialize"
| "find_pons_initialize E (lg # ls) token =
     (if to_lower (el_address lg) \<noteq> pool_manager \<or> el_topics lg = [] \<or>
         to_lower (el_topics lg ! 0) \<noteq> topic_pool_initialize
      then find_pons_initialize E ls token
      else guardE (length (el_topics lg) \<noteq> 4 \<or> length (el_data lg) \<noteq> 160) E_shape
        (bindE (pons_address_from_topic E (el_topics lg ! 2)) (\<lambda>currency0.
         bindE (pons_address_from_topic E (el_topics lg ! 3)) (\<lambda>currency1.
         bindE (pons_address_from_word E (slice 64 96 (el_data lg))) (\<lambda>hook.
         bindE (pons_uint24 (slice 0 32 (el_data lg))) (\<lambda>fee.
         bindE (pons_int24 (slice 32 64 (el_data lg))) (\<lambda>spacing.
           if hook \<noteq> pons_meme_hook \<or> fee \<noteq> 0 \<or> spacing \<noteq> 200 \<or>
              (currency0 \<noteq> token \<and> currency1 \<noteq> token)
           then find_pons_initialize E ls token
           else normalize_hash (el_topics lg ! 1) 32)))))))"

definition decode_graduation :: "eth_common \<Rightarrow> event_log \<Rightarrow> pons_tx \<Rightarrow> graduation res" where
  "decode_graduation E lg tx =
     guardE (to_lower (el_address lg) \<noteq> pons_factory \<or> length (el_topics lg) \<noteq> 2 \<or>
             to_lower (el_topics lg ! 0) \<noteq> topic_pons_graduated) E_event
       (guardE (length (el_data lg) \<noteq> 96) E_shape
         (bindE (pons_address_from_topic E (el_topics lg ! 1)) (\<lambda>token.
          bindE (find_pons_initialize E (ptx_logs tx) token) (\<lambda>pool_id.
            Inr \<lparr>gr_token = token, gr_pool_id = pool_id,
              gr_position_id = dec_of_int (pons_word_uint (slice 0 32 (el_data lg))),
              gr_token_amount = dec_of_int (pons_word_uint (slice 32 64 (el_data lg))),
              gr_pair_token_amount = dec_of_int (pons_word_uint (slice 64 96 (el_data lg))),
              gr_graduated_at = ptx_chain_time tx\<rparr>))))"

section \<open>Facts about the helpers\<close>

lemma pons_topic_canonical:
  "\<lbrakk>eth_ok E; pons_address_from_topic E t = Inr a\<rbrakk> \<Longrightarrow> canonical_address a"
  by (auto simp: pons_address_from_topic_def Let_def res_simps intro: normalize_address_canonical)

lemma bytes_canonical: "length bs = 20 \<Longrightarrow> canonical_address (''0x'' @ hex_of_bytes bs)"
  by (auto simp: canonical_hex_def hex_of_bytes_lower_hex)

lemma hex_of_bytes_plain [simp]: "plain_text (hex_of_bytes bs)"
  by (rule all_lower_hex_plain [OF hex_of_bytes_lower_hex])

lemma no_0x_prefix: "all_lower_hex d \<Longrightarrow> strip0x d = d"
  by (cases d; cases "tl d") (auto simp: strip0x_def has_prefix_def lower_hex_char_def)

text \<open>The normal form of 20 bytes rendered in hexadecimal is that text behind \<open>0x\<close>.\<close>

lemma normalize_bytes:
  assumes "eth_ok E" and "length bs = 20"
  shows "normalize_address E (hex_of_bytes bs) = Inr (''0x'' @ hex_of_bytes bs)"
  using assms hex_of_bytes_lower_hex [of bs] all_lower_hex_hex [of "hex_of_bytes bs"]
  by (simp add: normalize_address_eq no_0x_prefix Let_def)

lemma pons_address_from_word_eq:
  assumes "eth_ok E" and "length w = 32"
  shows "pons_address_from_word E w =
    (if be_nat w < 2 ^ 160 then Inr (''0x'' @ hex_of_bytes (drop 12 w)) else Inl E_word_padding)"
proof -
  have "w = take 12 w @ drop 12 w" by simp
  then have n: "be_nat w = be_nat (take 12 w) * 256 ^ 20 + be_nat (drop 12 w)"
    using be_nat_append [of "take 12 w" "drop 12 w"] assms(2) by simp
  have b: "be_nat (drop 12 w) < 256 ^ 20" using be_nat_bound [of "drop 12 w"] assms(2) by simp
  have "list_all (\<lambda>b. b = 0) (take 12 w) \<longleftrightarrow> be_nat (take 12 w) = 0"
    using be_nat_eq_0 [of "take 12 w"] by (simp add: list_all_eq_replicate)
  also have "\<dots> \<longleftrightarrow> be_nat w < 2 ^ 160"
    using b unfolding n by (cases "be_nat (take 12 w)") simp_all
  finally show ?thesis
    using assms by (simp add: pons_address_from_word_def normalize_bytes guardE_def)
qed

lemma pons_topic_roundtrip:
  "\<lbrakk>eth_ok E; length a = 20\<rbrakk> \<Longrightarrow> pons_address_from_topic E (address_topic a) = Inr (address_text a)"
  unfolding pons_address_from_topic_def Let_def address_topic_digits(1,3)
  by (simp add: address_topic_digits(2) normalize_bytes address_text_def)

lemma pons_word_roundtrip:
  "\<lbrakk>eth_ok E; length a = 20\<rbrakk> \<Longrightarrow> pons_address_from_word E (address_word a) = Inr (address_text a)"
  by (simp add: pons_address_from_word_def address_word_def list_all_eq_replicate normalize_bytes
      address_text_def guardE_def)

lemma normalize_address_text:
  "\<lbrakk>eth_ok E; length a = 20\<rbrakk> \<Longrightarrow> normalize_address E (address_text a) = Inr (address_text a)"
  using bytes_canonical [of a] normalize_address_id [of E] unfolding address_text_def by blast

section \<open>The events as the contracts emit them\<close>

definition token_launched_log ::
  "byte list \<Rightarrow> byte list \<Rightarrow> byte list \<Rightarrow> byte list \<Rightarrow> nat \<Rightarrow> nat \<Rightarrow> u64 \<Rightarrow> event_log" where
  "token_launched_log token curve deployer pair config threshold i =
     \<lparr>el_address = pons_factory,
      el_topics = [topic_pons_token_launched, address_topic token, address_topic curve, address_topic deployer],
      el_data = address_word pair @ be_bytes 32 config @ be_bytes 32 threshold, el_log_index = i\<rparr>"

definition launch_and_buy_log ::
  "byte list \<Rightarrow> byte list \<Rightarrow> byte list \<Rightarrow> byte list \<Rightarrow> nat \<Rightarrow> nat \<Rightarrow> event_log" where
  "launch_and_buy_log token curve buyer w quote tokens =
     \<lparr>el_address = pons_launch_and_buy,
      el_topics = [topic_pons_launched, address_topic token, address_topic curve, address_topic buyer],
      el_data = w @ be_bytes 32 quote @ be_bytes 32 tokens, el_log_index = 0\<rparr>"

definition curve_trade_log :: "string \<Rightarrow> string \<Rightarrow> string \<Rightarrow> byte list \<Rightarrow> nat \<Rightarrow> nat \<Rightarrow> byte list \<Rightarrow> u64 \<Rightarrow> event_log" where
  "curve_trade_log topic curve sender user a b rest i =
     \<lparr>el_address = curve, el_topics = [topic, sender, address_topic user],
      el_data = be_bytes 32 a @ be_bytes 32 b @ rest, el_log_index = i\<rparr>"

lemma topics_lower [simp]:
  "to_lower topic_pons_token_launched = topic_pons_token_launched"
  "to_lower topic_pons_launched = topic_pons_launched"
  "to_lower topic_pons_curve_buy = topic_pons_curve_buy"
  "to_lower topic_pons_curve_sell = topic_pons_curve_sell"
  "to_lower topic_pons_graduated = topic_pons_graduated"
  "to_lower pons_factory = pons_factory" "to_lower pons_launch_and_buy = pons_launch_and_buy"
  by code_simp+

lemma be_bytes_value: "n < 2 ^ 256 \<Longrightarrow> be_nat (be_bytes 32 n) = n"
  using be_nat_bytes [of n 32] by simp

lemma first_buy_finds:
  assumes "eth_ok E" and "length token = 20" and "length curve = 20" and "length w = 32"
    and "quote < 2 ^ 256" and "tokens < 2 ^ 256"
    and "\<forall>l\<in>set pre. to_lower (el_address l) \<noteq> pons_launch_and_buy"
  shows "first_buy E (address_text token) (address_text curve)
      (pre @ launch_and_buy_log token curve buyer w quote tokens # post) =
    Inr (Some (dec_of_int (int quote), dec_of_int (int tokens)))"
  using assms(7)
proof (induction pre)
  case Nil
  then show ?case
    using assms(1-6)
    by (simp add: decode_launch_and_buy_def launch_and_buy_log_def pons_topic_roundtrip
        slice_def pons_word_uint_def be_bytes_value)
next
  case (Cons l pre)
  then show ?case by (simp add: decode_launch_and_buy_def)
qed

section \<open>Graduation\<close>

definition is_pool_initialize :: "event_log \<Rightarrow> bool" where
  "is_pool_initialize lg \<longleftrightarrow> to_lower (el_address lg) = pool_manager \<and> el_topics lg \<noteq> [] \<and>
     to_lower (el_topics lg ! 0) = topic_pool_initialize"

text \<open>The pool a graduation opens: fee 0, tick spacing 200, the meme hook and the token.\<close>

definition opens_graduated_pool :: "eth_common \<Rightarrow> event_log \<Rightarrow> string \<Rightarrow> string \<Rightarrow> bool" where
  "opens_graduated_pool E lg token pool \<longleftrightarrow>
     is_pool_initialize lg \<and> length (el_topics lg) = 4 \<and> length (el_data lg) = 160 \<and>
     normalize_hash (el_topics lg ! 1) 32 = Inr pool \<and>
     (pons_address_from_topic E (el_topics lg ! 2) = Inr token \<or>
      pons_address_from_topic E (el_topics lg ! 3) = Inr token) \<and>
     pons_uint24 (slice 0 32 (el_data lg)) = Inr 0 \<and>
     pons_int24 (slice 32 64 (el_data lg)) = Inr 200 \<and>
     pons_address_from_word E (slice 64 96 (el_data lg)) = Inr pons_meme_hook"

lemma find_pons_initialize_sound:
  "find_pons_initialize E logs token = Inr pool \<Longrightarrow> \<exists>lg\<in>set logs. opens_graduated_pool E lg token pool"
proof (induction logs)
  case (Cons lg ls)
  show ?case
  proof (cases "find_pons_initialize E (lg # ls) token = find_pons_initialize E ls token")
    case True
    with Cons show ?thesis by auto
  next
    case False
    with Cons.prems have "opens_graduated_pool E lg token pool"
      by (auto simp: opens_graduated_pool_def is_pool_initialize_def res_simps split: if_splits)
    then show ?thesis by simp
  qed
qed simp

section \<open>Buys\<close>

definition token_transfer :: "string \<Rightarrow> event_log \<Rightarrow> bool" where
  "token_transfer token lg \<longleftrightarrow> to_lower (el_address lg) = to_lower token \<and> el_topics lg \<noteq> [] \<and>
     to_lower (el_topics lg ! 0) = topic_erc20_transfer"

definition transfer_to :: "eth_common \<Rightarrow> event_log \<Rightarrow> string \<Rightarrow> bool" where
  "transfer_to E lg a \<longleftrightarrow> length (el_topics lg) = 3 \<and> length (el_data lg) = 32 \<and>
     pons_address_from_topic E (el_topics lg ! 2) = Inr a"

lemma verify_buy_loop:
  "verify_buy_transfer_loop E token user logs found matched = Inr (found', matched') \<Longrightarrow>
   found' = (found \<or> (\<exists>l\<in>set logs. token_transfer token l)) \<and>
   matched' = (matched \<or> (\<exists>l\<in>set logs. token_transfer token l \<and> transfer_to E l user))"
proof (induction logs arbitrary: found matched)
  case (Cons lg ls)
  show ?case
  proof (cases "token_transfer token lg")
    case False
    with Cons.prems have "verify_buy_transfer_loop E token user ls found matched = Inr (found', matched')"
      by (auto simp: token_transfer_def)
    with Cons.IH False show ?thesis by auto
  next
    case True
    then have g: "\<not> (to_lower (el_address lg) \<noteq> to_lower token \<or> el_topics lg = [] \<or>
         to_lower (el_topics lg ! 0) \<noteq> topic_erc20_transfer)" by (simp add: token_transfer_def)
    from Cons.prems obtain to where t: "pons_address_from_topic E (el_topics lg ! 2) = Inr to"
      "length (el_topics lg) = 3" "length (el_data lg) = 32"
      "verify_buy_transfer_loop E token user ls True (matched \<or> to = user) = Inr (found', matched')"
      unfolding verify_buy_transfer_loop.simps if_not_P [OF g] by (auto simp: res_simps)
    have "transfer_to E lg user \<longleftrightarrow> to = user" using t by (simp add: transfer_to_def)
    with Cons.IH [OF t(4)] True show ?thesis by auto
  qed
qed simp

section \<open>Properties\<close>

text \<open>C27. A \<open>TokenLaunched\<close> log with the first \<open>LaunchAndBuy\<close> log of its transaction, as the
  contracts encode them, decodes to exactly the encoded launch: all four addresses, the two
  numbers, the first buy, the transaction's sender as creator, and the pair's known metadata.\<close>

theorem pons_create_roundtrip:
  assumes "eth_ok E" and "length token = 20" "length curve = 20" "length deployer = 20" "length pair = 20"
    "length creator = 20" "length w = 32"
    and "config < 2 ^ 256" "threshold < 2 ^ 256" "quote < 2 ^ 256" "tokens < 2 ^ 256"
    and "ptx_from tx = address_text creator"
    and "ptx_logs tx = pre @ launch_and_buy_log token curve buyer w quote tokens # post"
    and "\<forall>l\<in>set pre. to_lower (el_address l) \<noteq> pons_launch_and_buy"
  shows "\<exists>l. pons_decode_create E (token_launched_log token curve deployer pair config threshold i) tx = Inr l \<and>
    pl_token_address l = address_text token \<and> pl_curve_address l = address_text curve \<and>
    pl_deployer l = address_text deployer \<and> pl_pair_address l = address_text pair \<and>
    pl_creator_eoa l = address_text creator \<and>
    (pl_pair_symbol l, pl_pair_decimals l) = pons_quote_metadata (address_text pair) \<and>
    pl_launch_config_id l = dec_of_int (int config) \<and>
    pl_graduation_threshold l = dec_of_int (int threshold) \<and>
    pl_first_buy_quote l = dec_of_int (int quote) \<and> pl_first_buy_tokens l = dec_of_int (int tokens) \<and>
    pl_phase l = ''curve'' \<and> pl_tx_hash l = to_lower (ptx_hash tx) \<and> pl_log_index l = i"
  using assms first_buy_finds [OF assms(1-3,7,10,11,14), of buyer post]
  by (simp add: pons_decode_create_def token_launched_log_def pons_topic_roundtrip pons_word_roundtrip
      normalize_address_text slice_words pons_word_uint_def be_bytes_value slice_def Let_def
      split: prod.split)

text \<open>A graduation is decoded only when its own transaction opened a pool of the PoolManager
  with the token, fee 0, tick spacing 200 and the meme hook; the pool id is that pool's.\<close>

theorem graduation_names_opened_pool:
  assumes "decode_graduation E lg tx = Inr g"
  shows "to_lower (el_address lg) = pons_factory \<and>
    pons_address_from_topic E (el_topics lg ! 1) = Inr (gr_token g) \<and>
    canonical_hash (gr_pool_id g) \<and>
    (\<exists>l\<in>set (ptx_logs tx). opens_graduated_pool E l (gr_token g) (gr_pool_id g))"
proof -
  from assms obtain token pool where t: "to_lower (el_address lg) = pons_factory"
    "pons_address_from_topic E (el_topics lg ! 1) = Inr token"
    "find_pons_initialize E (ptx_logs tx) token = Inr pool"
    "gr_token g = token" "gr_pool_id g = pool"
    by (auto simp: decode_graduation_def res_simps)
  from find_pons_initialize_sound [OF t(3)] obtain l where l: "l \<in> set (ptx_logs tx)"
    "opens_graduated_pool E l token pool" by blast
  then have "canonical_hash pool"
    by (auto simp: opens_graduated_pool_def intro: normalize_hash_canonical)
  with t l show ?thesis by blast
qed

text \<open>C31. A trade on a registered curve decodes to the registered token and quote, the user of its
  third topic and the two amounts in the order of its direction; a buy carries a warning exactly
  when the transaction moves the token but never to that user.\<close>

theorem curve_trade_decodes:
  assumes "eth_ok E" and "length user = 20" and "a < 2 ^ 256" "b < 2 ^ 256" "length rest = 64"
    and "topic = topic_pons_curve_buy \<or> topic = topic_pons_curve_sell"
    and "decode_curve E (curve_trade_log topic (cr_curve reg) sender user a b rest i) tx reg = Inr f"
  shows "f_user f = address_text user \<and> f_token f = cr_token reg \<and> f_quote f = cr_quote reg \<and>
    (if topic = topic_pons_curve_buy
     then f_side f = ''buy'' \<and> f_quote_amount_raw f = dec_of_int (int a) \<and>
       f_meme_amount_raw f = dec_of_int (int b) \<and>
       (f_warning f \<noteq> None \<longleftrightarrow> (\<exists>l\<in>set (ptx_logs tx). token_transfer (cr_token reg) l) \<and>
         \<not> (\<exists>l\<in>set (ptx_logs tx). token_transfer (cr_token reg) l \<and> transfer_to E l (address_text user)))
     else f_side f = ''sell'' \<and> f_meme_amount_raw f = dec_of_int (int a) \<and>
       f_quote_amount_raw f = dec_of_int (int b) \<and> f_warning f = None)"
proof -
  have ne: "topic_pons_curve_buy \<noteq> topic_pons_curve_sell" by (simp add: topic_defs)
  have w: "pons_word_uint (slice 0 32 (be_bytes 32 a @ be_bytes 32 b @ rest)) = int a"
    "pons_word_uint (slice 32 64 (be_bytes 32 a @ be_bytes 32 b @ rest)) = int b"
    using assms(3,4) by (simp_all add: slice_words pons_word_uint_def be_bytes_value)
  show ?thesis
  proof (cases "topic = topic_pons_curve_buy")
    case True
    with assms w obtain warn where
      v: "verify_buy_transfer E (ptx_logs tx) (cr_token reg) (address_text user) = Inr warn"
      and f: "f_warning f = warn" "f_user f = address_text user" "f_token f = cr_token reg"
        "f_quote f = cr_quote reg" "f_side f = ''buy''" "f_quote_amount_raw f = dec_of_int (int a)"
        "f_meme_amount_raw f = dec_of_int (int b)"
      by (auto simp: decode_curve_def curve_trade_log_def pons_topic_roundtrip res_simps Let_def)
    from v obtain fd m where
      l: "verify_buy_transfer_loop E (cr_token reg) (address_text user) (ptx_logs tx) False False = Inr (fd, m)"
      "warn = (if fd \<and> \<not> m then Some E_attribution else None)"
      by (auto simp: verify_buy_transfer_def res_simps)
    from verify_buy_loop [OF l(1)] l(2) f True show ?thesis by auto
  next
    case False
    with assms(6) have "topic = topic_pons_curve_sell" by blast
    with False assms(1-5,7) w ne show ?thesis
      by (auto simp: decode_curve_def curve_trade_log_def pons_topic_roundtrip res_simps Let_def)
  qed
qed

section \<open>Evaluated examples\<close>

definition ex_bytes :: "byte \<Rightarrow> byte list" where "ex_bytes b = replicate 20 b"

definition ex_pons_tx :: "event_log list \<Rightarrow> pons_tx" where
  "ex_pons_tx logs = \<lparr>ptx_from = address_text (ex_bytes 9), ptx_to = pons_launch_and_buy,
     ptx_hash = ''0xAB'', ptx_value = ''0'', ptx_block_number = 7, ptx_tx_index = 0,
     ptx_chain_time = 0, ptx_logs = logs\<rparr>"

theorem pons_create_roundtrip_witness:
  "\<exists>l. pons_decode_create eth_plain (token_launched_log (ex_bytes 1) (ex_bytes 2) (ex_bytes 3) (ex_bytes 0) 4 5 6)
      (ex_pons_tx [launch_and_buy_log (ex_bytes 1) (ex_bytes 2) (ex_bytes 9) (replicate 32 0) 70 80]) = Inr l \<and>
     pl_first_buy_quote l = dec_of_int 70 \<and> pl_first_buy_tokens l = dec_of_int 80"
proof -
  have l: "length (ex_bytes b) = 20" for b by (simp add: ex_bytes_def)
  let ?tx = "ex_pons_tx [launch_and_buy_log (ex_bytes 1) (ex_bytes 2) (ex_bytes 9) (replicate 32 0) 70 80]"
  have "ptx_logs ?tx = [] @ launch_and_buy_log (ex_bytes 1) (ex_bytes 2) (ex_bytes 9) (replicate 32 0) 70 80 # []"
    by (simp add: ex_pons_tx_def)
  from pons_create_roundtrip [OF eth_plain_ok l l l l l _ _ _ _ _ _ this, of 4 5 9 3 0 6]
  show ?thesis by (auto simp: ex_pons_tx_def)
qed

definition ex_init_log :: event_log where
  "ex_init_log = \<lparr>el_address = pool_manager,
     el_topics = [topic_pool_initialize, ''0x'' @ replicate 64 CHR ''7'', address_topic (ex_bytes 1), address_topic (ex_bytes 0)],
     el_data = replicate 32 0 @ replicate 31 0 @ [200] @ replicate 12 0 @
       [0xe5, 0xe7, 0x02, 0x64, 0x1e, 0xa8, 0x6f, 0x4a, 0xe6, 0xcc, 0x3c, 0xda, 0xed, 0x2b, 0x88, 0x6f, 0x97, 0x6b, 0xe0, 0x44] @
       replicate 64 0, el_log_index = 1\<rparr>"

definition ex_graduated_log :: event_log where
  "ex_graduated_log = \<lparr>el_address = pons_factory, el_topics = [topic_pons_graduated, address_topic (ex_bytes 1)],
     el_data = replicate 95 0 @ [7], el_log_index = 2\<rparr>"

definition ex_graduation :: graduation where
  "ex_graduation = \<lparr>gr_token = address_text (ex_bytes 1), gr_pool_id = ''0x'' @ replicate 64 CHR ''7'',
     gr_position_id = ''0'', gr_token_amount = ''0'', gr_pair_token_amount = ''7'', gr_graduated_at = 0\<rparr>"

lemma ex_graduates: "decode_graduation eth_plain ex_graduated_log (ex_pons_tx [ex_init_log]) = Inr ex_graduation"
  by code_simp

theorem graduation_names_opened_pool_witness:
  "opens_graduated_pool eth_plain ex_init_log (address_text (ex_bytes 1)) (''0x'' @ replicate 64 CHR ''7'')"
  using graduation_names_opened_pool [OF ex_graduates] by (simp add: ex_pons_tx_def ex_graduation_def)

definition ex_curve_reg :: curve_registration where
  "ex_curve_reg = \<lparr>cr_curve = address_text (ex_bytes 2), cr_token = address_text (ex_bytes 1),
     cr_quote = zero_address, cr_token_decimals = 18, cr_quote_decimals = 18\<rparr>"

definition ex_curve_fill :: fill where
  "ex_curve_fill = \<lparr>f_token = address_text (ex_bytes 1), f_category = ''pons'', f_quote = zero_address,
     f_user = address_text (ex_bytes 9), f_side = ''buy'', f_router = ''curve'', f_tx_hash = ''0xab'',
     f_warning = None, f_meme_amount_raw = ''6'', f_quote_amount_raw = ''5'', f_token_decimals = 18,
     f_quote_decimals = 18, f_block_number = 7, f_tx_index = 0, f_log_index = 4, f_chain_time = 0,
     f_protocol_contracts = [address_text (ex_bytes 2)]\<rparr>"

lemma ex_curve_decodes: "decode_curve eth_plain (curve_trade_log topic_pons_curve_buy (cr_curve ex_curve_reg)
     (address_topic (ex_bytes 8)) (ex_bytes 9) 5 6 (replicate 64 0) 4) (ex_pons_tx []) ex_curve_reg = Inr ex_curve_fill"
  by code_simp

theorem curve_trade_decodes_witness:
  "f_user ex_curve_fill = address_text (ex_bytes 9) \<and> f_quote_amount_raw ex_curve_fill = dec_of_int 5"
  using curve_trade_decodes [OF eth_plain_ok _ _ _ _ _ ex_curve_decodes] by (simp add: ex_bytes_def)

end
