(* ===== verification/Venue_O1crypto.thy ===== *)
theory Venue_O1crypto
  imports Abi_Words Contracts_Catalog
begin

text \<open>
  \<open>internal/venue/o1crypto/create.go\<close>: the creation event of the o1 crypto factory, checked
  against the \<open>Initialize\<close> event of its pool in the same transaction. The package has its
  own copies of the ABI helpers.
\<close>

record o1_tx =
  otx_from :: string
  otx_hash :: string
  otx_value :: string
  otx_block_number :: u64
  otx_tx_index :: u64
  otx_chain_time :: time
  otx_logs :: "event_log list"

section \<open>ABI helpers\<close>

definition o1_topic_address :: "eth_common \<Rightarrow> string \<Rightarrow> string res" where
  "o1_topic_address E topic =
     (let t = trim_prefix (to_lower topic) ''0x''
      in guardE (length t \<noteq> 64) E_shape (normalize_address E (drop 24 t)))"

definition o1_word_address :: "eth_common \<Rightarrow> byte list \<Rightarrow> string res" where
  "o1_word_address E w =
     guardE (length w \<noteq> 32) E_word_length
       (guardE (\<not> list_all (\<lambda>b. b = 0) (take 12 w)) E_word_padding
          (normalize_address E (hex_of_bytes (drop 12 w))))"

definition o1_signed_int24 :: "byte list \<Rightarrow> int res" where
  "o1_signed_int24 w = signed3 TYPE(64) w"

definition o1_uint24 :: "byte list \<Rightarrow> int res" where
  "o1_uint24 w = unsigned3 TYPE(32) w"

definition o1_quote_metadata :: "string \<Rightarrow> string \<times> byte" where
  "o1_quote_metadata address =
     (if address = zero_address then (''ETH'', 18)
      else if address = weth_address then (''WETH'', 18)
      else if address = usdg_address then (''USDG'', 6)
      else (''UNKNOWN'', 0))"

interpretation o1_signed: strict_signed o1_signed_int24 3
  by unfold_locales (simp_all add: o1_signed_int24_def signed3_spec three_short)

interpretation o1_unsigned: strict_unsigned o1_uint24 3
  by unfold_locales (simp_all add: o1_uint24_def unsigned3_spec three_short)

section \<open>The Initialize event of the pool\<close>

text \<open>
  The result is the hook and whether it differs from the catalog's (the code's non-empty
  warning text). The first \<open>Initialize\<close> of the pool decides.
\<close>

fun validate_initialize ::
  "eth_common \<Rightarrow> event_log list \<Rightarrow> string \<Rightarrow> string \<Rightarrow> string \<Rightarrow> int \<Rightarrow> (string \<times> bool) res" where
  "validate_initialize E [] pool_id token quote tick_spacing = Inl E_no_initialize"
| "validate_initialize E (lg # ls) pool_id token quote tick_spacing =
     (if to_lower (el_address lg) \<noteq> pool_manager \<or> el_topics lg = [] \<or>
         to_lower (el_topics lg ! 0) \<noteq> topic_pool_initialize
      then validate_initialize E ls pool_id token quote tick_spacing
      else guardE (length (el_topics lg) \<noteq> 4 \<or> length (el_data lg) \<noteq> 160) E_shape
       (bindE (normalize_hash (el_topics lg ! 1) 32) (\<lambda>hash.
        if hash \<noteq> pool_id then validate_initialize E ls pool_id token quote tick_spacing
        else
        bindE (o1_topic_address E (el_topics lg ! 2)) (\<lambda>currency0.
        bindE (o1_topic_address E (el_topics lg ! 3)) (\<lambda>currency1.
        guardE (\<not> ((currency0 = token \<and> currency1 = quote) \<or> (currency0 = quote \<and> currency1 = token)))
          E_initialize
       (bindE (o1_uint24 (slice 0 32 (el_data lg))) (\<lambda>fee.
        guardE (fee \<noteq> 0) E_initialize
       (bindE (o1_signed_int24 (slice 32 64 (el_data lg))) (\<lambda>init_spacing.
        guardE (init_spacing \<noteq> tick_spacing) E_initialize
       (bindE (o1_word_address E (slice 64 96 (el_data lg))) (\<lambda>hook.
        Inr (hook, hook \<noteq> o1_crypto_hook))))))))))))"

section \<open>DecodeCreate\<close>

definition o1_decode_create :: "eth_common \<Rightarrow> event_log \<Rightarrow> o1_tx \<Rightarrow> o1_crypto_launch res" where
  "o1_decode_create E lg tx =
     guardE (to_lower (el_address lg) \<noteq> o1_crypto_factory \<or> length (el_topics lg) \<noteq> 4 \<or>
             to_lower (el_topics lg ! 0) \<noteq> topic_o1_launched) E_event
    (guardE (length (el_data lg) \<noteq> 96) E_shape
    (bindE (o1_topic_address E (el_topics lg ! 1)) (\<lambda>token.
     bindE (normalize_hash (el_topics lg ! 2) 32) (\<lambda>pool_id.
     bindE (o1_topic_address E (el_topics lg ! 3)) (\<lambda>creator_event.
     bindE (o1_word_address E (slice 0 32 (el_data lg))) (\<lambda>quote.
     bindE (o1_signed_int24 (slice 64 96 (el_data lg))) (\<lambda>tick_spacing.
     bindE (validate_initialize E (otx_logs tx) pool_id token quote tick_spacing) (\<lambda>(hook, hook_warning).
     bindE (normalize_address E (otx_from tx)) (\<lambda>creator_eoa.
       let (symbol, decimals) = o1_quote_metadata quote
       in Inr \<lparr>oc_token_address = token, oc_symbol = [], oc_name = [], oc_contract_uri = [],
            oc_quote_address = quote, oc_quote_symbol = symbol, oc_quote_decimals = decimals,
            oc_pool_id = pool_id, oc_tick_spacing = tick_spacing, oc_hooks = hook,
            oc_supply = dec_of_nat (be_nat (slice 32 64 (el_data lg))),
            oc_creator_eoa = creator_eoa, oc_creator_event = creator_event,
            oc_native_launch_fee_wei = otx_value tx, oc_tx_hash = to_lower (otx_hash tx),
            oc_hook_warning = hook_warning, oc_block_number = otx_block_number tx,
            oc_log_index = el_log_index lg, oc_created_at = otx_chain_time tx\<rparr>)))))))))"

section \<open>What a decoded launch guarantees\<close>

lemma o1_topic_canonical:
  "\<lbrakk>eth_ok E; o1_topic_address E t = Inr a\<rbrakk> \<Longrightarrow> canonical_address a"
  by (auto simp: o1_topic_address_def Let_def res_simps intro: normalize_address_canonical)

lemma o1_word_canonical:
  "\<lbrakk>eth_ok E; o1_word_address E w = Inr a\<rbrakk> \<Longrightarrow> canonical_address a"
  by (auto simp: o1_word_address_def res_simps intro: normalize_address_canonical)

text \<open>An \<open>Initialize\<close> log of the pool: the event, with a topic that names the pool.\<close>

definition is_initialize :: "event_log \<Rightarrow> bool" where
  "is_initialize lg \<longleftrightarrow> to_lower (el_address lg) = pool_manager \<and> el_topics lg \<noteq> [] \<and>
     to_lower (el_topics lg ! 0) = topic_pool_initialize"

definition initializes :: "string \<Rightarrow> event_log \<Rightarrow> bool" where
  "initializes pool lg \<longleftrightarrow> is_initialize lg \<and> normalize_hash (el_topics lg ! 1) 32 = Inr pool"

text \<open>The log says what the launch says.\<close>

definition initialize_agrees :: "eth_common \<Rightarrow> event_log \<Rightarrow> string \<Rightarrow> string \<Rightarrow> int \<Rightarrow> string \<Rightarrow> bool" where
  "initialize_agrees E lg token quote spacing hook \<longleftrightarrow>
     length (el_topics lg) = 4 \<and> length (el_data lg) = 160 \<and>
     (\<exists>c0 c1. o1_topic_address E (el_topics lg ! 2) = Inr c0 \<and>
        o1_topic_address E (el_topics lg ! 3) = Inr c1 \<and>
        ((c0 = token \<and> c1 = quote) \<or> (c0 = quote \<and> c1 = token))) \<and>
     o1_uint24 (slice 0 32 (el_data lg)) = Inr 0 \<and>
     o1_signed_int24 (slice 32 64 (el_data lg)) = Inr spacing \<and>
     o1_word_address E (slice 64 96 (el_data lg)) = Inr hook"

lemma validate_initialize_spec:
  "validate_initialize E logs pool token quote spacing = Inr (hook, warn) \<longleftrightarrow>
     (\<exists>pre lg post. logs = pre @ lg # post \<and> initializes pool lg \<and>
        initialize_agrees E lg token quote spacing hook \<and> warn = (hook \<noteq> o1_crypto_hook) \<and>
        (\<forall>l\<in>set pre. is_initialize l \<longrightarrow> length (el_topics l) = 4 \<and> length (el_data l) = 160 \<and>
           (\<exists>p. normalize_hash (el_topics l ! 1) 32 = Inr p \<and> p \<noteq> pool)))"
    (is "?L logs \<longleftrightarrow> ?R logs")
proof (induction logs)
  case Nil
  then show ?case by simp
next
  case (Cons lg ls)
  let ?skip = "\<not> is_initialize lg \<or> (length (el_topics lg) = 4 \<and> length (el_data lg) = 160 \<and>
           (\<exists>p. normalize_hash (el_topics lg ! 1) 32 = Inr p \<and> p \<noteq> pool))"
  let ?here = "initializes pool lg \<and> initialize_agrees E lg token quote spacing hook \<and>
      warn = (hook \<noteq> o1_crypto_hook)"
  have L: "?L (lg # ls) \<longleftrightarrow> ?here \<or> (?skip \<and> ?L ls)"
    by (auto simp: is_initialize_def initializes_def initialize_agrees_def res_simps)
  have R: "?R (lg # ls) \<longleftrightarrow> ?here \<or> (?skip \<and> ?R ls)"
  proof
    assume "?R (lg # ls)"
    then obtain pre l post where a: "lg # ls = pre @ l # post" "initializes pool l"
      "initialize_agrees E l token quote spacing hook" "warn = (hook \<noteq> o1_crypto_hook)"
      "\<forall>l\<in>set pre. is_initialize l \<longrightarrow> length (el_topics l) = 4 \<and> length (el_data l) = 160 \<and>
           (\<exists>p. normalize_hash (el_topics l ! 1) 32 = Inr p \<and> p \<noteq> pool)" by blast
    then show "?here \<or> (?skip \<and> ?R ls)" by (cases pre) auto
  next
    assume "?here \<or> (?skip \<and> ?R ls)"
    then show "?R (lg # ls)"
    proof
      assume ?here
      then show ?thesis by (intro exI [of _ "[]"]) auto
    next
      assume a: "?skip \<and> ?R ls"
      then obtain pre l post where "ls = pre @ l # post" "initializes pool l"
        "initialize_agrees E l token quote spacing hook" "warn = (hook \<noteq> o1_crypto_hook)"
        "\<forall>l\<in>set pre. is_initialize l \<longrightarrow> length (el_topics l) = 4 \<and> length (el_data l) = 160 \<and>
           (\<exists>p. normalize_hash (el_topics l ! 1) 32 = Inr p \<and> p \<noteq> pool)" by blast
      with a show ?thesis by (intro exI [of _ "lg # pre"]) auto
    qed
  qed
  show ?case unfolding L R Cons.IH ..
qed

section \<open>Properties\<close>

text \<open>C30. A creation of the o1 crypto factory is decoded only when its own transaction holds the
  \<open>Initialize\<close> event of the pool it names, for the same two currencies, with fee 0 and the same
  tick spacing, and no earlier one of that pool; the hook is the one of that event, and a warning
  is set exactly when it is not the catalog's hook. Every address and the pool id are canonical.\<close>

theorem o1_create_matches_initialize:
  assumes "eth_ok E" and "o1_decode_create E lg tx = Inr l"
  shows "to_lower (el_address lg) = o1_crypto_factory \<and>
    canonical_address (oc_token_address l) \<and> canonical_address (oc_quote_address l) \<and>
    canonical_address (oc_creator_eoa l) \<and> canonical_address (oc_creator_event l) \<and>
    canonical_hash (oc_pool_id l) \<and> - (2 ^ 23) \<le> oc_tick_spacing l \<and> oc_tick_spacing l < 2 ^ 23 \<and>
    (\<exists>pre i post. otx_logs tx = pre @ i # post \<and> initializes (oc_pool_id l) i \<and>
       initialize_agrees E i (oc_token_address l) (oc_quote_address l) (oc_tick_spacing l) (oc_hooks l) \<and>
       (\<forall>j\<in>set pre. \<not> initializes (oc_pool_id l) j)) \<and>
    (oc_hook_warning l \<longleftrightarrow> oc_hooks l \<noteq> o1_crypto_hook)"
proof -
  from assms(2) have d: "to_lower (el_address lg) = o1_crypto_factory"
    "o1_topic_address E (el_topics lg ! 1) = Inr (oc_token_address l)"
    "normalize_hash (el_topics lg ! 2) 32 = Inr (oc_pool_id l)"
    "o1_topic_address E (el_topics lg ! 3) = Inr (oc_creator_event l)"
    "o1_word_address E (slice 0 32 (el_data lg)) = Inr (oc_quote_address l)"
    "o1_signed_int24 (slice 64 96 (el_data lg)) = Inr (oc_tick_spacing l)"
    "validate_initialize E (otx_logs tx) (oc_pool_id l) (oc_token_address l) (oc_quote_address l)
       (oc_tick_spacing l) = Inr (oc_hooks l, oc_hook_warning l)"
    "normalize_address E (otx_from tx) = Inr (oc_creator_eoa l)"
    by (auto simp: o1_decode_create_def res_simps Let_def case_prod_unfold)
  from d(7) obtain pre i post where i: "otx_logs tx = pre @ i # post" "initializes (oc_pool_id l) i"
    "initialize_agrees E i (oc_token_address l) (oc_quote_address l) (oc_tick_spacing l) (oc_hooks l)"
    "oc_hook_warning l = (oc_hooks l \<noteq> o1_crypto_hook)"
    "\<forall>j\<in>set pre. is_initialize j \<longrightarrow> length (el_topics j) = 4 \<and> length (el_data j) = 160 \<and>
       (\<exists>p. normalize_hash (el_topics j ! 1) 32 = Inr p \<and> p \<noteq> oc_pool_id l)"
    unfolding validate_initialize_spec by blast
  have "\<forall>j\<in>set pre. \<not> initializes (oc_pool_id l) j" using i(5) by (auto simp: initializes_def)
  moreover have "- (2 ^ 23) \<le> oc_tick_spacing l \<and> oc_tick_spacing l < 2 ^ 23"
    using o1_signed.range [OF d(6)] by simp
  ultimately show ?thesis
    using d(1) i o1_topic_canonical [OF assms(1)] o1_word_canonical [OF assms(1)] normalize_hash_canonical
      normalize_address_canonical [OF assms(1)] d(2,3,4,5,8) by blast
qed

text \<open>The decoders of ABI words accept a word exactly when it is the 32-byte two's complement
  (or big-endian) form of a number in range, and return that number.\<close>

theorem o1_words_are_strict:
  "(o1_signed_int24 w = Inr v \<longleftrightarrow> - (2 ^ 23) \<le> v \<and> v < 2 ^ 23 \<and> w = encode_signed v) \<and>
   (o1_uint24 w = Inr u \<longleftrightarrow> 0 \<le> u \<and> u < 2 ^ 24 \<and> w = be_bytes 32 (nat u))"
  using o1_signed.accepts [of w v] o1_unsigned.accepts [of w u] by simp

definition ex_o1_bytes :: "byte \<Rightarrow> byte list" where "ex_o1_bytes b = replicate 20 b"

definition ex_o1_log :: event_log where
  "ex_o1_log = \<lparr>el_address = o1_crypto_factory,
     el_topics = [topic_o1_launched, address_topic (ex_o1_bytes 1), ''0x'' @ replicate 64 CHR ''7'', address_topic (ex_o1_bytes 3)],
     el_data = replicate 32 0 @ replicate 31 0 @ [9] @ replicate 31 0 @ [60], el_log_index = 1\<rparr>"

definition ex_o1_init :: event_log where
  "ex_o1_init = \<lparr>el_address = pool_manager,
     el_topics = [topic_pool_initialize, ''0x'' @ replicate 64 CHR ''7'', address_topic (ex_o1_bytes 0), address_topic (ex_o1_bytes 1)],
     el_data = replicate 32 0 @ replicate 31 0 @ [60] @ replicate 12 0 @ ex_o1_bytes 5 @ replicate 64 0,
     el_log_index = 0\<rparr>"

definition ex_o1_tx :: o1_tx where
  "ex_o1_tx = \<lparr>otx_from = address_text (ex_o1_bytes 4), otx_hash = ''0xAB'', otx_value = ''8'',
     otx_block_number = 7, otx_tx_index = 0, otx_chain_time = 0, otx_logs = [ex_o1_init]\<rparr>"

definition ex_o1_launch :: o1_crypto_launch where
  "ex_o1_launch = \<lparr>oc_token_address = address_text (ex_o1_bytes 1), oc_symbol = [], oc_name = [],
     oc_contract_uri = [], oc_quote_address = zero_address, oc_quote_symbol = ''ETH'', oc_quote_decimals = 18,
     oc_pool_id = ''0x'' @ replicate 64 CHR ''7'', oc_tick_spacing = 60, oc_hooks = address_text (ex_o1_bytes 5),
     oc_supply = ''9'', oc_creator_eoa = address_text (ex_o1_bytes 4),
     oc_creator_event = address_text (ex_o1_bytes 3), oc_native_launch_fee_wei = ''8'', oc_tx_hash = ''0xab'',
     oc_hook_warning = True, oc_block_number = 7, oc_log_index = 1, oc_created_at = 0\<rparr>"

lemma ex_o1_decodes: "o1_decode_create eth_plain ex_o1_log ex_o1_tx = Inr ex_o1_launch"
  by code_simp

theorem o1_create_matches_initialize_witness:
  "canonical_address (oc_token_address ex_o1_launch) \<and> oc_hooks ex_o1_launch \<noteq> o1_crypto_hook"
  using o1_create_matches_initialize [OF eth_plain_ok ex_o1_decodes] by (simp add: ex_o1_launch_def)

end
