(* ===== verification/Venue_V4fill.thy ===== *)
theory Venue_V4fill
  imports Abi_Words Contracts_Catalog "HOL-Library.List_Lexorder" "HOL-Library.Char_ord"
begin

text \<open>
  \<open>internal/venue/v4fill\<close>: strict decoding of \<open>PoolManager.Swap\<close> and the attribution of a
  trade to a user from the net ERC-20 transfers of its transaction. The Go map of net amounts
  is an association list with distinct keys; the order in which \<open>range\<close> visits it is the
  parameter \<open>visit\<close>, of which only \<open>go_range\<close> is known.
\<close>

record transfer =
  tr_token :: string
  tr_from :: string
  tr_to :: string
  tr_amount :: int

record v4_tx =
  vtx_to :: string
  vtx_hash :: string
  vtx_block_number :: u64
  vtx_tx_index :: u64
  vtx_chain_time :: time
  vtx_logs :: "event_log list"

section \<open>Transfers (transfer.go)\<close>

definition v4_topic_address :: "eth_common \<Rightarrow> string \<Rightarrow> string res" where
  "v4_topic_address E topic =
     (let t = trim_prefix (to_lower topic) ''0x''
      in guardE (length t \<noteq> 64) E_shape (normalize_address E (drop 24 t)))"

fun decode_transfers_loop :: "eth_common \<Rightarrow> string \<Rightarrow> event_log list \<Rightarrow> transfer list res" where
  "decode_transfers_loop E token [] = Inr []"
| "decode_transfers_loop E token (lg # ls) =
     (if to_lower (el_address lg) \<noteq> token \<or> el_topics lg = [] \<or>
         to_lower (el_topics lg ! 0) \<noteq> topic_erc20_transfer
      then decode_transfers_loop E token ls
      else guardE (length (el_topics lg) \<noteq> 3 \<or> length (el_data lg) \<noteq> 32) E_shape
        (bindE (v4_topic_address E (el_topics lg ! 1)) (\<lambda>from.
         bindE (v4_topic_address E (el_topics lg ! 2)) (\<lambda>to.
         bindE (decode_transfers_loop E token ls) (\<lambda>out.
           Inr (\<lparr>tr_token = token, tr_from = from, tr_to = to,
                 tr_amount = int (be_nat (el_data lg))\<rparr> # out))))))"

definition decode_transfers :: "eth_common \<Rightarrow> event_log list \<Rightarrow> string \<Rightarrow> transfer list res" where
  "decode_transfers E logs token =
     bindE (normalize_address E token) (\<lambda>t. decode_transfers_loop E t logs)"

section \<open>Attribution\<close>

type_synonym net = "(string \<times> int) list"

definition go_range :: "(net \<Rightarrow> net) \<Rightarrow> bool" where
  "go_range visit \<longleftrightarrow> (\<forall>xs. mset (visit xs) = mset xs)"

fun excluded :: "eth_common \<Rightarrow> string list \<Rightarrow> string list" where
  "excluded E [] = [zero_address]"
| "excluded E (a # as) =
     (case normalize_address E a of Inl _ \<Rightarrow> excluded E as | Inr n \<Rightarrow> n # excluded E as)"

definition net_add :: "string \<Rightarrow> int \<Rightarrow> net \<Rightarrow> net" where
  "net_add a delta net =
     AList.update a ((case map_of net a of None \<Rightarrow> 0 | Some v \<Rightarrow> v) + delta) net"

fun net_flows :: "eth_common \<Rightarrow> transfer list \<Rightarrow> net \<Rightarrow> net res" where
  "net_flows E [] net = Inr net"
| "net_flows E (t # ts) net =
     guardE (tr_amount t < 0) E_amount
       (case (normalize_address E (tr_from t), normalize_address E (tr_to t)) of
          (Inr from, Inr to) \<Rightarrow>
            (let net1 = (if from \<noteq> zero_address then net_add from (- tr_amount t) net else net);
                 net2 = (if to \<noteq> zero_address then net_add to (tr_amount t) net1 else net1)
             in net_flows E ts net2)
        | _ \<Rightarrow> Inl E_address)"

record best =
  b_user :: string
  b_abs :: int
  b_net :: int
  b_tied :: bool

fun pick_best :: "string list \<Rightarrow> net \<Rightarrow> best \<Rightarrow> best" where
  "pick_best ex [] b = b"
| "pick_best ex ((a, v) # rest) b =
     (if a \<in> set ex \<or> v = 0 then pick_best ex rest b
      else if b_abs b < \<bar>v\<bar>
      then pick_best ex rest \<lparr>b_user = a, b_abs = \<bar>v\<bar>, b_net = v, b_tied = False\<rparr>
      else if \<bar>v\<bar> = b_abs b then pick_best ex rest (b\<lparr>b_tied := True\<rparr>)
      else pick_best ex rest b)"

definition attribute_user ::
  "eth_common \<Rightarrow> (net \<Rightarrow> net) \<Rightarrow> transfer list \<Rightarrow> string list \<Rightarrow> (string \<times> string \<times> int) res" where
  "attribute_user E visit transfers protocol =
     bindE (net_flows E transfers []) (\<lambda>net.
       let b = pick_best (excluded E protocol) (visit net)
                 \<lparr>b_user = [], b_abs = 0, b_net = 0, b_tied = False\<rparr>
       in guardE (b_user b = [] \<or> b_tied b) E_attribution
            (Inr (b_user b, if 0 < b_net b then ''buy'' else ''sell'', b_abs b)))"

fun net_sum :: "string \<Rightarrow> transfer list \<Rightarrow> int \<Rightarrow> int" where
  "net_sum a [] out = out"
| "net_sum a (t # ts) out =
     (let out1 = (if tr_to t = a then out + tr_amount t else out);
          out2 = (if tr_from t = a then out1 - tr_amount t else out1)
      in net_sum a ts out2)"

definition net_amount_for :: "string \<Rightarrow> transfer list \<Rightarrow> int" where
  "net_amount_for a ts = \<bar>net_sum a ts 0\<bar>"

section \<open>Swap (swap.go)\<close>

definition router_name :: "string \<Rightarrow> string" where
  "router_name a =
     (if to_lower a = gmgn_router then ''gmgn''
      else if to_lower a = universal_router then ''universal_router''
      else ''unknown'')"

definition currency_less :: "string \<Rightarrow> string \<Rightarrow> bool" where
  "currency_less a b \<longleftrightarrow> to_lower a < to_lower b"

fun count_swaps :: "event_log list \<Rightarrow> nat" where
  "count_swaps [] = 0"
| "count_swaps (lg # ls) =
     (if to_lower (el_address lg) = pool_manager \<and> el_topics lg \<noteq> [] \<and>
         to_lower (el_topics lg ! 0) = topic_pool_swap
      then Suc (count_swaps ls) else count_swaps ls)"

definition signed_int128 :: "byte list \<Rightarrow> int res" where
  "signed_int128 w =
     guardE (length w \<noteq> 32) E_word_length
       (let negative = w ! 16 AND 0x80 \<noteq> 0; pad = (if negative then 0xff else 0)
        in guardE (\<not> list_all (\<lambda>b. b = pad) (take 16 w)) E_word_padding
             (let value = int (be_nat (drop 16 w))
              in Inr (if negative then value - 2 ^ 128 else value)))"

definition validate_signed24 :: "byte list \<Rightarrow> unit res" where
  "validate_signed24 w =
     (let negative = w ! 29 AND 0x80 \<noteq> 0; pad = (if negative then 0xff else 0)
      in guardE (\<not> list_all (\<lambda>b. b = pad) (take 29 w)) E_word_padding (Inr ()))"

definition validate_swap_tail :: "byte list \<Rightarrow> unit res" where
  "validate_swap_tail d =
     guardE (length d \<noteq> 128) E_shape
    (guardE (\<not> list_all (\<lambda>b. b = 0) (slice 0 12 d)) E_word_padding
    (guardE (\<not> list_all (\<lambda>b. b = 0) (slice 32 48 d)) E_word_padding
    (bindE (validate_signed24 (slice 64 96 d)) (\<lambda>_.
     guardE (\<not> list_all (\<lambda>b. b = 0) (slice 96 125 d)) E_word_padding (Inr ())))))"

definition complete_unattributed_fill ::
  "eth_common \<Rightarrow> (net \<Rightarrow> net) \<Rightarrow> fill \<Rightarrow> event_log list \<Rightarrow> pool_registration \<Rightarrow> string list \<Rightarrow> int
   \<Rightarrow> fill res" where
  "complete_unattributed_fill E visit fill logs pool protocol token_delta =
     guardE (pr_quote pool = zero_address \<or> token_delta = 0 \<or> count_swaps logs \<noteq> 1) E_fallback
       (bindE (decode_transfers E logs (pr_quote pool)) (\<lambda>quote_transfers.
          case attribute_user E visit quote_transfers protocol of
            Inl _ \<Rightarrow> Inl E_fallback
          | Inr (_, _, quote_amount) \<Rightarrow>
              guardE (quote_amount = 0) E_fallback
                (Inr (fill\<lparr>f_meme_amount_raw := dec_of_int \<bar>token_delta\<bar>,
                           f_quote_amount_raw := dec_of_int quote_amount\<rparr>))))"

definition decode_swap ::
  "eth_common \<Rightarrow> (net \<Rightarrow> net) \<Rightarrow> event_log \<Rightarrow> v4_tx \<Rightarrow> pool_registration \<Rightarrow> string list \<Rightarrow> fill res" where
  "decode_swap E visit lg tx pool protocol =
     guardE (to_lower (el_address lg) \<noteq> pool_manager \<or> length (el_topics lg) \<noteq> 3 \<or>
             to_lower (el_topics lg ! 0) \<noteq> topic_pool_swap) E_event
    (guardE (length (el_data lg) \<noteq> 192) E_shape
    (guardE (normalize_hash (el_topics lg ! 1) 32 \<noteq> Inr (to_lower (pr_pool_id pool))) E_pool_id
    (bindE (v4_topic_address E (el_topics lg ! 2)) (\<lambda>_.
     bindE (signed_int128 (slice 0 32 (el_data lg))) (\<lambda>amount0.
     bindE (signed_int128 (slice 32 64 (el_data lg))) (\<lambda>amount1.
     bindE (validate_swap_tail (drop 64 (el_data lg))) (\<lambda>_.
       let token_delta = (if currency_less (pr_token pool) (pr_quote pool) then amount0 else amount1);
           fill = \<lparr>f_token = pr_token pool, f_category = pr_category pool, f_quote = pr_quote pool,
             f_user = [], f_side = [], f_router = router_name (vtx_to tx),
             f_tx_hash = to_lower (vtx_hash tx), f_warning = None,
             f_meme_amount_raw = [], f_quote_amount_raw = [],
             f_token_decimals = pr_token_decimals pool, f_quote_decimals = pr_quote_decimals pool,
             f_block_number = vtx_block_number tx, f_tx_index = vtx_tx_index tx,
             f_log_index = el_log_index lg, f_chain_time = vtx_chain_time tx,
             f_protocol_contracts = protocol\<rparr>
       in bindE (decode_transfers E (vtx_logs tx) (pr_token pool)) (\<lambda>meme_transfers.
          case attribute_user E visit meme_transfers protocol of
            Inl e \<Rightarrow>
              (case complete_unattributed_fill E visit (fill\<lparr>f_warning := Some e\<rparr>) (vtx_logs tx)
                      pool protocol token_delta of
                 Inl _ \<Rightarrow> Inl e | Inr fill' \<Rightarrow> Inr fill')
          | Inr (user, side, meme_amount) \<Rightarrow>
              (let fill1 = fill\<lparr>f_user := user, f_side := side,
                                f_meme_amount_raw := dec_of_int meme_amount\<rparr>
               in bindE (if pr_quote pool = zero_address then Inr fill1
                     else bindE (decode_transfers E (vtx_logs tx) (pr_quote pool)) (\<lambda>quote_transfers.
                       let quote_amount = net_amount_for user quote_transfers
                       in Inr (if 0 < quote_amount
                               then fill1\<lparr>f_quote_amount_raw := dec_of_int quote_amount\<rparr>
                               else fill1))) (\<lambda>fill2.
                  let expected_side = (if token_delta < 0 then ''buy'' else ''sell'')
                  in Inr (if token_delta \<noteq> 0 \<and> expected_side \<noteq> f_side fill2
                          then fill2\<lparr>f_warning := Some E_direction\<rparr> else fill2)))))))))))"

section \<open>The strict int128 decoder\<close>

lemma int128_short: "length w \<noteq> 32 \<Longrightarrow> signed_int128 w = Inl E_word_length"
  by (simp add: signed_int128_def)

lemma int128_spec:
  assumes "length w = 32"
  shows "signed_int128 w =
    (if - (2 ^ (8 * 16 - 1)) \<le> signed_word w \<and> signed_word w < 2 ^ (8 * 16 - 1)
     then Inr (signed_word w) else Inl E_word_padding)"
proof -
  define pre where "pre = take 16 w"
  define suf where "suf = drop 16 w"
  have w: "w = pre @ suf" and l: "length pre = 16" "length suf = 16"
    using assms by (simp_all add: pre_def suf_def)
  then obtain b bs where s: "suf = b # bs" "length bs = 15"
    by (cases suf) auto
  have n: "w ! 16 = b" using w l s by (simp add: nth_append)
  have vb: "be_nat suf < 256 ^ 16" using be_nat_bound [of suf] l by simp
  have "be_nat suf = unat b * 256 ^ 15 + be_nat bs" using s by simp
  moreover have "be_nat bs < 256 ^ 15" using be_nat_bound [of bs] s by simp
  ultimately have neg: "b AND 0x80 \<noteq> 0 \<longleftrightarrow> \<not> be_nat suf < 2 ^ (8 * 16 - 1)"
    unfolding high_bit by (cases "128 \<le> unat b") auto
  have k: "16 + 16 = (32 :: nat)" "0 < (16 :: nat)" by simp_all
  note sp = signed_word_split [OF l k(1) k(2) k(2), folded w]
  show ?thesis
  proof (cases "be_nat suf < 2 ^ (8 * 16 - 1)")
    case True
    with sp neg assms l show ?thesis
      unfolding signed_int128_def n Let_def pre_def [symmetric] suf_def [symmetric]
      by (simp add: list_all_eq_replicate guardE_def)
  next
    case False
    with sp neg assms l show ?thesis
      unfolding signed_int128_def n Let_def pre_def [symmetric] suf_def [symmetric]
      by (simp add: list_all_eq_replicate guardE_def)
  qed
qed

interpretation v4_signed: strict_signed signed_int128 16
  by unfold_locales (simp_all add: int128_short int128_spec)

section \<open>Net flows\<close>

text \<open>What the transfers move to an address, all in all.\<close>

definition flow :: "transfer list \<Rightarrow> string \<Rightarrow> int" where
  "flow ts a = sum_list (map (\<lambda>t. (if tr_to t = a then tr_amount t else 0) -
                               (if tr_from t = a then tr_amount t else 0)) ts)"

lemma flow_simps [simp]:
  "flow [] a = 0"
  "flow (t # ts) a = (if tr_to t = a then tr_amount t else 0) -
     (if tr_from t = a then tr_amount t else 0) + flow ts a"
  by (simp_all add: flow_def)

lemma net_sum_flow: "net_sum a ts out = out + flow ts a"
  by (induction ts arbitrary: out) (simp_all add: Let_def)

lemma net_amount_for_flow: "net_amount_for a ts = \<bar>flow ts a\<bar>"
  by (simp add: net_amount_for_def net_sum_flow)

definition transfers_ok :: "transfer list \<Rightarrow> bool" where
  "transfers_ok ts \<longleftrightarrow>
     (\<forall>t\<in>set ts. canonical_address (tr_from t) \<and> canonical_address (tr_to t) \<and> 0 \<le> tr_amount t)"

definition net_val :: "net \<Rightarrow> string \<Rightarrow> int" where
  "net_val net a = (case map_of net a of None \<Rightarrow> 0 | Some v \<Rightarrow> v)"

definition net_ok :: "net \<Rightarrow> bool" where
  "net_ok net \<longleftrightarrow> distinct (map fst net) \<and> (\<forall>a\<in>fst ` set net. a \<noteq> [])"

lemma net_add_val: "net_val (net_add a d net) b = net_val net b + (if a = b then d else 0)"
  by (simp add: net_val_def net_add_def update_conv' split: option.splits)

lemma net_add_ok: "\<lbrakk>net_ok net; a \<noteq> []\<rbrakk> \<Longrightarrow> net_ok (net_add a d net)"
  by (simp add: net_ok_def net_add_def distinct_update dom_update del: set_map)

lemma net_flows_ok:
  assumes "eth_ok E" and "transfers_ok ts" and "net_ok net"
  obtains net' where "net_flows E ts net = Inr net'" "net_ok net'"
    "\<And>a. a \<noteq> zero_address \<Longrightarrow> net_val net' a = net_val net a + flow ts a"
proof -
  have "\<exists>net'. net_flows E ts net = Inr net' \<and> net_ok net' \<and>
      (\<forall>a. a \<noteq> zero_address \<longrightarrow> net_val net' a = net_val net a + flow ts a)"
    using assms(2,3)
  proof (induction ts arbitrary: net)
    case Nil
    then show ?case by simp
  next
    case (Cons t ts)
    from Cons.prems(1) have c: "canonical_address (tr_from t)" "canonical_address (tr_to t)"
      "0 \<le> tr_amount t" "transfers_ok ts" by (simp_all add: transfers_ok_def)
    let ?n1 = "if tr_from t \<noteq> zero_address then net_add (tr_from t) (- tr_amount t) net else net"
    let ?n2 = "if tr_to t \<noteq> zero_address then net_add (tr_to t) (tr_amount t) ?n1 else ?n1"
    have "tr_from t \<noteq> []" "tr_to t \<noteq> []" using c(1,2) by (simp_all add: canonical_ne)
    then have "net_ok ?n2" using Cons.prems(2) by (simp add: net_add_ok)
    from Cons.IH [OF c(4) this] obtain net' where n: "net_flows E ts ?n2 = Inr net'" "net_ok net'"
      "\<And>a. a \<noteq> zero_address \<Longrightarrow> net_val net' a = net_val ?n2 a + flow ts a" by blast
    have "net_flows E (t # ts) net = Inr net'"
      using c n(1) normalize_address_id [OF assms(1)] by (simp add: Let_def)
    moreover have "net_val net' a = net_val net a + flow (t # ts) a" if "a \<noteq> zero_address" for a
      using n(3) [OF that] that by (auto simp: net_add_val)
    ultimately show ?case using n(2) by blast
  qed
  then show thesis using that by blast
qed

lemma v4_topic_canonical:
  "\<lbrakk>eth_ok E; v4_topic_address E t = Inr a\<rbrakk> \<Longrightarrow> canonical_address a"
  by (auto simp: v4_topic_address_def Let_def res_simps intro: normalize_address_canonical)

lemma decode_transfers_ok:
  assumes "eth_ok E" and "decode_transfers E logs token = Inr ts"
  shows "transfers_ok ts"
proof -
  have "decode_transfers_loop E tok logs = Inr ts \<Longrightarrow> transfers_ok ts" for tok
  proof (induction logs arbitrary: ts)
    case (Cons lg ls)
    show ?case
    proof (cases "decode_transfers_loop E tok (lg # ls) = decode_transfers_loop E tok ls")
      case True
      with Cons show ?thesis by simp
    next
      case False
      with Cons.prems obtain f t out where "v4_topic_address E (el_topics lg ! 1) = Inr f"
        "v4_topic_address E (el_topics lg ! 2) = Inr t" "decode_transfers_loop E tok ls = Inr out"
        "ts = \<lparr>tr_token = tok, tr_from = f, tr_to = t, tr_amount = int (be_nat (el_data lg))\<rparr> # out"
        by (auto simp: res_simps split: if_splits)
      with Cons.IH [of out] v4_topic_canonical [OF assms(1)] show ?thesis
        by (simp add: transfers_ok_def)
    qed
  qed (simp add: transfers_ok_def)
  with assms(2) show ?thesis by (auto simp: decode_transfers_def res_simps)
qed

section \<open>The unique largest flow\<close>

definition best_of :: "net \<Rightarrow> best \<Rightarrow> bool" where
  "best_of ys b \<longleftrightarrow> (\<forall>(a, v)\<in>set ys. \<bar>v\<bar> \<le> b_abs b) \<and>
     (if ys = [] then b_user b = [] \<and> b_abs b = 0 \<and> \<not> b_tied b
      else (b_user b, b_net b) \<in> set ys \<and> \<bar>b_net b\<bar> = b_abs b \<and>
        (b_tied b \<longleftrightarrow> (\<exists>(a, v)\<in>set ys. a \<noteq> b_user b \<and> \<bar>v\<bar> = b_abs b)))"

lemma best_of_ne:
  assumes "best_of ys b" and "ys \<noteq> []"
  shows "\<forall>(a, v)\<in>set ys. \<bar>v\<bar> \<le> b_abs b" "(b_user b, b_net b) \<in> set ys"
    "\<bar>b_net b\<bar> = b_abs b" "b_tied b \<longleftrightarrow> (\<exists>(a, v)\<in>set ys. a \<noteq> b_user b \<and> \<bar>v\<bar> = b_abs b)"
  using assms by (simp_all add: best_of_def)

lemma best_of_unique:
  assumes best: "best_of c b"
    and mem: "\<And>a v. (a, v) \<in> set c \<longleftrightarrow> a \<notin> X \<and> v \<noteq> 0 \<and> fl a = v"
    and key: "\<And>a v. (a, v) \<in> set c \<Longrightarrow> a \<noteq> []"
  shows "b_user b \<noteq> [] \<and> \<not> b_tied b \<and> u = b_user b \<longleftrightarrow>
      u \<notin> X \<and> fl u \<noteq> 0 \<and> (\<forall>a. a \<notin> X \<and> a \<noteq> u \<longrightarrow> \<bar>fl a\<bar> < \<bar>fl u\<bar>)" (is "?L \<longleftrightarrow> ?R")
    and "b_user b \<noteq> [] \<Longrightarrow> fl (b_user b) = b_net b \<and> \<bar>b_net b\<bar> = b_abs b"
proof -
  have e: "b_user b = []" "a \<in> X \<or> fl a = 0" if "c = []" for a
    using best mem [of a "fl a"] that by (simp_all add: best_of_def)
  have n: "b_user b \<notin> X" "b_net b \<noteq> 0" "fl (b_user b) = b_net b" "b_user b \<noteq> []"
    if "c \<noteq> []"
    using best_of_ne(2) [OF best that] key [of "b_user b" "b_net b"] by (simp_all add: mem)
  show "fl (b_user b) = b_net b \<and> \<bar>b_net b\<bar> = b_abs b" if "b_user b \<noteq> []"
    using e(1) n(3) best_of_ne(3) [OF best] that by blast
  have le: "\<bar>fl a\<bar> \<le> b_abs b" if "a \<notin> X" "c \<noteq> []" for a
  proof (cases "fl a = 0")
    case True
    then show ?thesis using best_of_ne(3) [OF best that(2)] by simp
  next
    case False
    with that(1) have "(a, fl a) \<in> set c" by (simp add: mem)
    with best_of_ne(1) [OF best that(2)] show ?thesis by blast
  qed
  show "?L \<longleftrightarrow> ?R"
  proof (cases "c = []")
    case True
    then show ?thesis using e by blast
  next
    case False
    note b = best_of_ne [OF best False]
    have pos: "0 < b_abs b" using n(2) [OF False] b(3) by linarith
    have tied: "b_tied b \<longleftrightarrow> (\<exists>a. a \<notin> X \<and> a \<noteq> b_user b \<and> \<bar>fl a\<bar> = b_abs b)"
    proof
      assume "b_tied b"
      then obtain a v where "(a, v) \<in> set c" "a \<noteq> b_user b" "\<bar>v\<bar> = b_abs b" using b(4) by blast
      then show "\<exists>a. a \<notin> X \<and> a \<noteq> b_user b \<and> \<bar>fl a\<bar> = b_abs b"
        by (intro exI [of _ a]) (simp add: mem)
    next
      assume "\<exists>a. a \<notin> X \<and> a \<noteq> b_user b \<and> \<bar>fl a\<bar> = b_abs b"
      then obtain a where "a \<notin> X" "a \<noteq> b_user b" "\<bar>fl a\<bar> = b_abs b" by blast
      moreover from this pos have "(a, fl a) \<in> set c" by (auto simp: mem)
      ultimately show "b_tied b" using b(4) by blast
    qed
    show ?thesis
    proof
      assume L: ?L
      have "\<bar>fl a\<bar> < \<bar>fl u\<bar>" if "a \<notin> X" "a \<noteq> u" for a
      proof -
        have "\<bar>fl a\<bar> \<noteq> b_abs b" using that L tied by blast
        moreover have "\<bar>fl u\<bar> = b_abs b" using L n(3) [OF False] b(3) by simp
        ultimately show ?thesis using le [OF that(1) False] by linarith
      qed
      with L n [OF False] show ?R by simp
    next
      assume R: ?R
      have u: "u = b_user b"
      proof (rule ccontr)
        assume "u \<noteq> b_user b"
        with R n(1) [OF False] have "\<bar>fl (b_user b)\<bar> < \<bar>fl u\<bar>" by blast
        then have "\<bar>b_net b\<bar> < \<bar>fl u\<bar>" using n(3) [OF False] by simp
        with le [of u] R False b(3) show False by simp
      qed
      have "\<not> b_tied b"
      proof
        assume "b_tied b"
        then obtain a where "a \<notin> X" "a \<noteq> u" "\<bar>fl a\<bar> = b_abs b" using tied u by blast
        with R have "\<bar>fl a\<bar> < \<bar>fl u\<bar>" by blast
        with u b(3) n(3) [OF False] \<open>\<bar>fl a\<bar> = b_abs b\<close> show False by simp
      qed
      with u n(4) [OF False] show ?L by blast
    qed
  qed
qed

definition candidates :: "string list \<Rightarrow> net \<Rightarrow> net" where
  "candidates ex xs = filter (\<lambda>(a, v). a \<notin> set ex \<and> v \<noteq> 0) xs"

lemma best_of_step:
  assumes "best_of ys b" and "v \<noteq> 0" and "a \<notin> fst ` set ys"
  shows "best_of (ys @ [(a, v)])
    (if b_abs b < \<bar>v\<bar> then \<lparr>b_user = a, b_abs = \<bar>v\<bar>, b_net = v, b_tied = False\<rparr>
     else if \<bar>v\<bar> = b_abs b then b\<lparr>b_tied := True\<rparr> else b)"
proof (cases "ys = []")
  case True
  with assms show ?thesis by (auto simp: best_of_def)
next
  case False
  with assms(1) have b: "\<forall>(a, v)\<in>set ys. \<bar>v\<bar> \<le> b_abs b" "(b_user b, b_net b) \<in> set ys"
    "\<bar>b_net b\<bar> = b_abs b" "b_tied b \<longleftrightarrow> (\<exists>(a, v)\<in>set ys. a \<noteq> b_user b \<and> \<bar>v\<bar> = b_abs b)"
    by (simp_all add: best_of_def)
  have ne: "a \<noteq> b_user b" using b(2) assms(3) by force
  consider "b_abs b < \<bar>v\<bar>" | "\<bar>v\<bar> = b_abs b" | "\<bar>v\<bar> < b_abs b" by linarith
  then show ?thesis
  proof cases
    case 1
    then have "\<forall>(a', w)\<in>set ys. \<bar>w\<bar> < \<bar>v\<bar>" using b(1) by auto
    with 1 show ?thesis by (auto simp: best_of_def less_imp_le)
  next
    case 2
    have "\<exists>(a', w)\<in>set (ys @ [(a, v)]). a' \<noteq> b_user b \<and> \<bar>w\<bar> = b_abs b" using 2 ne by auto
    with 2 b(1-3) show ?thesis by (simp add: best_of_def)
  next
    case 3
    then have "(\<exists>(a', w)\<in>set (ys @ [(a, v)]). a' \<noteq> b_user b \<and> \<bar>w\<bar> = b_abs b) = b_tied b"
      using b(4) by auto
    with 3 b(1-3) show ?thesis by (simp add: best_of_def)
  qed
qed

lemma pick_best_best:
  assumes "best_of ys b" and "distinct (map fst (ys @ candidates ex xs))"
  shows "best_of (ys @ candidates ex xs) (pick_best ex xs b)"
  using assms
proof (induction ex xs b arbitrary: ys rule: pick_best.induct)
  case (1 ex b)
  then show ?case by (simp add: candidates_def)
next
  case (2 ex a v rest b)
  show ?case
  proof (cases "a \<in> set ex \<or> v = 0")
    case True
    then have "candidates ex ((a, v) # rest) = candidates ex rest" by (auto simp: candidates_def)
    with 2 True show ?thesis by simp
  next
    case False
    then have c: "candidates ex ((a, v) # rest) = (a, v) # candidates ex rest"
      by (simp add: candidates_def)
    have "a \<notin> fst ` set ys" using "2.prems"(2) unfolding c by auto
    with False have step: "best_of (ys @ [(a, v)])
      (if b_abs b < \<bar>v\<bar> then \<lparr>b_user = a, b_abs = \<bar>v\<bar>, b_net = v, b_tied = False\<rparr>
       else if \<bar>v\<bar> = b_abs b then b\<lparr>b_tied := True\<rparr> else b)" (is "best_of _ ?b")
      using best_of_step [OF "2.prems"(1)] by blast
    have d: "distinct (map fst ((ys @ [(a, v)]) @ candidates ex rest))"
      using "2.prems"(2) unfolding c by simp
    consider (more) "b_abs b < \<bar>v\<bar>" | (tie) "\<not> b_abs b < \<bar>v\<bar>" "\<bar>v\<bar> = b_abs b"
      | (less) "\<not> b_abs b < \<bar>v\<bar>" "\<bar>v\<bar> \<noteq> b_abs b" by blast
    then have "best_of ((ys @ [(a, v)]) @ candidates ex rest) (pick_best ex rest ?b)"
    proof cases
      case more
      with step show ?thesis using "2.IH"(2) [OF False more _ d] by simp
    next
      case tie
      with step show ?thesis using "2.IH"(3) [OF False tie _ d] by simp
    next
      case less
      with step show ?thesis using "2.IH"(4) [OF False less _ d] by simp
    qed
    with False show ?thesis unfolding c by (simp split: if_splits)
  qed
qed

text \<open>
  The attribution, without the loop: the user is the one address outside the excluded ones
  that the transfers move strictly more to or from than any other.
\<close>

definition attributed :: "eth_common \<Rightarrow> transfer list \<Rightarrow> string list \<Rightarrow> string \<Rightarrow> bool" where
  "attributed E ts protocol u \<longleftrightarrow> u \<notin> set (excluded E protocol) \<and> flow ts u \<noteq> 0 \<and>
     (\<forall>a. a \<notin> set (excluded E protocol) \<and> a \<noteq> u \<longrightarrow> \<bar>flow ts a\<bar> < \<bar>flow ts u\<bar>)"

lemma zero_excluded [simp]: "zero_address \<in> set (excluded E protocol)"
  by (induction protocol) (auto split: sum.splits)

lemma pick_result:
  fixes fl :: "string \<Rightarrow> int"
  assumes "b_user b \<noteq> [] \<and> \<not> b_tied b \<and> u = b_user b \<longleftrightarrow> A"
    and "b_user b \<noteq> [] \<Longrightarrow> fl (b_user b) = b_net b \<and> \<bar>b_net b\<bar> = b_abs b"
  shows "(if b_user b = [] \<or> b_tied b then Inl e
      else Inr (b_user b, if 0 < b_net b then p else q, b_abs b)) = Inr (u, side, amount) \<longleftrightarrow>
    A \<and> side = (if 0 < fl u then p else q) \<and> amount = \<bar>fl u\<bar>"
proof (cases A)
  case True
  with assms have "b_user b \<noteq> []" "\<not> b_tied b" "u = b_user b" "fl u = b_net b" "\<bar>fl u\<bar> = b_abs b"
    by auto
  with True show ?thesis by (simp only: simp_thms if_False sum.inject prod.inject) blast
next
  case False
  with assms(1) show ?thesis by auto
qed

lemma attribute_user_eq:
  assumes "eth_ok E" and "go_range visit" and "transfers_ok ts"
  shows "attribute_user E visit ts protocol = Inr (u, side, amount) \<longleftrightarrow>
    attributed E ts protocol u \<and> side = (if 0 < flow ts u then ''buy'' else ''sell'') \<and>
    amount = \<bar>flow ts u\<bar>"
proof -
  have "net_ok []" by (simp add: net_ok_def)
  from net_flows_ok [OF assms(1,3) this] obtain net where n: "net_flows E ts [] = Inr net"
    "net_ok net" "\<And>a. a \<noteq> zero_address \<Longrightarrow> net_val net a = net_val [] a + flow ts a" by blast
  have n3: "a \<noteq> zero_address \<Longrightarrow> net_val net a = flow ts a" for a
    using n(3) [of a] by (simp add: net_val_def)
  let ?ex = "excluded E protocol" and ?c = "candidates (excluded E protocol) (visit net)"
  let ?b = "pick_best ?ex (visit net) \<lparr>b_user = [], b_abs = 0, b_net = 0, b_tied = False\<rparr>"
  have m: "mset (visit net) = mset net" using assms(2) by (simp add: go_range_def)
  then have "mset (map fst (visit net)) = mset (map fst net)" by simp
  then have dist: "distinct (map fst (visit net))"
    using n(2) mset_eq_imp_distinct_iff unfolding net_ok_def by blast
  have mem: "(a, v) \<in> set ?c \<longleftrightarrow> a \<notin> set ?ex \<and> v \<noteq> 0 \<and> flow ts a = v" for a v
  proof -
    have "(a, v) \<in> set (visit net) \<longleftrightarrow> map_of net a = Some v"
      unfolding mset_eq_setD [OF m] using n(2) by (simp add: net_ok_def)
    moreover have "map_of net a = Some v \<longleftrightarrow> flow ts a = v" if "a \<notin> set ?ex" "v \<noteq> 0"
    proof -
      have "a \<noteq> zero_address" using that by auto
      then have "flow ts a = net_val net a" by (simp add: n3)
      with that show ?thesis by (auto simp: net_val_def split: option.splits)
    qed
    ultimately show ?thesis by (auto simp: candidates_def)
  qed
  have "distinct (map fst ?c)" using dist unfolding candidates_def by (rule distinct_map_filter)
  then have best: "best_of ?c ?b"
    using pick_best_best [of "[]" "\<lparr>b_user = [], b_abs = 0, b_net = 0, b_tied = False\<rparr>" ?ex "visit net"]
    by (simp add: best_of_def)
  have key: "a \<noteq> []" if "(a, v) \<in> set ?c" for a v
    using that n(2) mset_eq_setD [OF m] by (force simp: candidates_def net_ok_def)
  have run: "attribute_user E visit ts protocol =
      (if b_user ?b = [] \<or> b_tied ?b then Inl E_attribution
       else Inr (b_user ?b, if 0 < b_net ?b then ''buy'' else ''sell'', b_abs ?b))"
    by (simp add: attribute_user_def n(1) Let_def guardE_def)
  have "b_user ?b \<noteq> [] \<and> \<not> b_tied ?b \<and> u = b_user ?b \<longleftrightarrow> attributed E ts protocol u"
    unfolding attributed_def by (rule best_of_unique(1) [OF best mem]) (rule key)
  moreover have "flow ts (b_user ?b) = b_net ?b \<and> \<bar>b_net ?b\<bar> = b_abs ?b" if "b_user ?b \<noteq> []"
    using that by (rule best_of_unique(2) [OF best mem, rotated]) (rule key)
  ultimately show ?thesis unfolding run by (rule pick_result)
qed

lemma attribute_user_error:
  assumes "eth_ok E" and "go_range visit" and "transfers_ok ts"
  shows "attribute_user E visit ts protocol = Inl e \<longleftrightarrow>
    e = E_attribution \<and> (\<forall>u. \<not> attributed E ts protocol u)"
proof -
  have "net_ok []" by (simp add: net_ok_def)
  from net_flows_ok [OF assms(1,3) this] obtain net where "net_flows E ts [] = Inr net" by blast
  then have "attribute_user E visit ts protocol = Inl e \<Longrightarrow> e = E_attribution" for e
    by (auto simp: attribute_user_def res_simps Let_def)
  moreover have "(\<exists>e. attribute_user E visit ts protocol = Inl e) \<longleftrightarrow> (\<forall>u. \<not> attributed E ts protocol u)"
  proof (cases "attribute_user E visit ts protocol")
    case (Inl a)
    with attribute_user_eq [OF assms, of protocol] show ?thesis by (metis sum.distinct(1))
  next
    case (Inr r)
    with attribute_user_eq [OF assms, of protocol "fst r" "fst (snd r)" "snd (snd r)"]
    show ?thesis by (metis prod.collapse sum.distinct(1))
  qed
  ultimately show ?thesis by auto
qed

section \<open>What a decoded Swap guarantees\<close>

text \<open>The two legs as the attribution describes them.\<close>

definition attributed_fill :: "eth_common \<Rightarrow> v4_tx \<Rightarrow> pool_registration \<Rightarrow> string list \<Rightarrow> fill \<Rightarrow> bool" where
  "attributed_fill E tx pool protocol fill \<longleftrightarrow>
     (\<exists>ts. decode_transfers E (vtx_logs tx) (pr_token pool) = Inr ts \<and>
        attributed E ts protocol (f_user fill) \<and>
        f_side fill = (if 0 < flow ts (f_user fill) then ''buy'' else ''sell'') \<and>
        f_meme_amount_raw fill = dec_of_int \<bar>flow ts (f_user fill)\<bar>) \<and>
     (if pr_quote pool = zero_address then f_quote_amount_raw fill = []
      else \<exists>qs. decode_transfers E (vtx_logs tx) (pr_quote pool) = Inr qs \<and>
        f_quote_amount_raw fill =
          (if flow qs (f_user fill) = 0 then [] else dec_of_int \<bar>flow qs (f_user fill)\<bar>))"

definition price_only_fill :: "eth_common \<Rightarrow> v4_tx \<Rightarrow> pool_registration \<Rightarrow> string list \<Rightarrow> int \<Rightarrow> fill \<Rightarrow> bool" where
  "price_only_fill E tx pool protocol delta fill \<longleftrightarrow>
     f_user fill = [] \<and> f_side fill = [] \<and> f_warning fill = Some E_attribution \<and>
     (\<exists>ts. decode_transfers E (vtx_logs tx) (pr_token pool) = Inr ts \<and>
        (\<forall>u. \<not> attributed E ts protocol u)) \<and>
     count_swaps (vtx_logs tx) = 1 \<and> pr_quote pool \<noteq> zero_address \<and> delta \<noteq> 0 \<and>
     f_meme_amount_raw fill = dec_of_int \<bar>delta\<bar> \<and>
     (\<exists>qs q. decode_transfers E (vtx_logs tx) (pr_quote pool) = Inr qs \<and> attributed E qs protocol q \<and>
        f_quote_amount_raw fill = dec_of_int \<bar>flow qs q\<bar>)"

definition swap_identity :: "event_log \<Rightarrow> v4_tx \<Rightarrow> pool_registration \<Rightarrow> fill \<Rightarrow> bool" where
  "swap_identity lg tx pool fill \<longleftrightarrow>
     f_token fill = pr_token pool \<and> f_quote fill = pr_quote pool \<and>
     f_category fill = pr_category pool \<and> f_tx_hash fill = to_lower (vtx_hash tx) \<and>
     f_block_number fill = vtx_block_number tx \<and> f_tx_index fill = vtx_tx_index tx \<and>
     f_log_index fill = el_log_index lg"

lemma zero_not_user: "eth_ok E \<Longrightarrow> attributed E ts protocol u \<Longrightarrow> u \<noteq> zero_address"
  by (auto simp: attributed_def)

lemma flow_support: "flow ts a \<noteq> 0 \<Longrightarrow> \<exists>t\<in>set ts. a = tr_from t \<or> a = tr_to t"
  by (induction ts) (auto split: if_splits)

lemma attributed_canonical:
  "\<lbrakk>transfers_ok ts; attributed E ts protocol u\<rbrakk> \<Longrightarrow> canonical_address u"
  using flow_support [of ts u] by (auto simp: attributed_def transfers_ok_def)

lemma complete_unattributed:
  assumes "eth_ok E" and "go_range visit"
    and "complete_unattributed_fill E visit fill logs pool protocol delta = Inr fill'"
  obtains qs q where "count_swaps logs = 1" "pr_quote pool \<noteq> zero_address" "delta \<noteq> 0"
    "decode_transfers E logs (pr_quote pool) = Inr qs" "attributed E qs protocol q"
    "fill' = fill\<lparr>f_meme_amount_raw := dec_of_int \<bar>delta\<bar>,
                  f_quote_amount_raw := dec_of_int \<bar>flow qs q\<bar>\<rparr>"
proof -
  from assms(3) obtain qs where g: "count_swaps logs = 1" "pr_quote pool \<noteq> zero_address" "delta \<noteq> 0"
    and q: "decode_transfers E logs (pr_quote pool) = Inr qs"
    and c: "(case attribute_user E visit qs protocol of Inl _ \<Rightarrow> Inl E_fallback
       | Inr (_, _, quote_amount) \<Rightarrow> guardE (quote_amount = 0) E_fallback
                (Inr (fill\<lparr>f_meme_amount_raw := dec_of_int \<bar>delta\<bar>,
                           f_quote_amount_raw := dec_of_int quote_amount\<rparr>))) = Inr fill'"
    by (auto simp: complete_unattributed_fill_def res_simps)
  from c obtain u s m where a: "attribute_user E visit qs protocol = Inr (u, s, m)"
    by (cases "attribute_user E visit qs protocol") auto
  then have "attributed E qs protocol u" "m = \<bar>flow qs u\<bar>"
    using attribute_user_eq [OF assms(1,2) decode_transfers_ok [OF assms(1) q]] by simp_all
  with a c show thesis by (intro that [OF g q]) (auto simp: res_simps)
qed

text \<open>The part of \<open>DecodeSwap\<close> after the strict checks of the log, in two steps.\<close>

definition user_legs ::
  "eth_common \<Rightarrow> v4_tx \<Rightarrow> pool_registration \<Rightarrow> int \<Rightarrow> fill \<Rightarrow> fill res" where
  "user_legs E tx pool token_delta fill1 =
     bindE (if pr_quote pool = zero_address then Inr fill1
            else bindE (decode_transfers E (vtx_logs tx) (pr_quote pool)) (\<lambda>quote_transfers.
              let quote_amount = net_amount_for (f_user fill1) quote_transfers
              in Inr (if 0 < quote_amount
                      then fill1\<lparr>f_quote_amount_raw := dec_of_int quote_amount\<rparr>
                      else fill1))) (\<lambda>fill2.
       let expected_side = (if token_delta < 0 then ''buy'' else ''sell'')
       in Inr (if token_delta \<noteq> 0 \<and> expected_side \<noteq> f_side fill2
               then fill2\<lparr>f_warning := Some E_direction\<rparr> else fill2))"

definition swap_legs ::
  "eth_common \<Rightarrow> (net \<Rightarrow> net) \<Rightarrow> v4_tx \<Rightarrow> pool_registration \<Rightarrow> string list \<Rightarrow> int \<Rightarrow> fill \<Rightarrow> fill res" where
  "swap_legs E visit tx pool protocol token_delta fill =
     bindE (decode_transfers E (vtx_logs tx) (pr_token pool)) (\<lambda>meme_transfers.
       case attribute_user E visit meme_transfers protocol of
         Inl e \<Rightarrow>
           (case complete_unattributed_fill E visit (fill\<lparr>f_warning := Some e\<rparr>) (vtx_logs tx)
                   pool protocol token_delta of
              Inl _ \<Rightarrow> Inl e | Inr fill' \<Rightarrow> Inr fill')
       | Inr (user, side, meme_amount) \<Rightarrow>
           user_legs E tx pool token_delta
             (fill\<lparr>f_user := user, f_side := side, f_meme_amount_raw := dec_of_int meme_amount\<rparr>))"

definition swap_word :: "pool_registration \<Rightarrow> event_log \<Rightarrow> byte list" where
  "swap_word pool lg = (if currency_less (pr_token pool) (pr_quote pool)
     then slice 0 32 (el_data lg) else slice 32 64 (el_data lg))"

definition swap_start :: "event_log \<Rightarrow> v4_tx \<Rightarrow> pool_registration \<Rightarrow> string list \<Rightarrow> fill" where
  "swap_start lg tx pool protocol = \<lparr>f_token = pr_token pool, f_category = pr_category pool,
     f_quote = pr_quote pool, f_user = [], f_side = [], f_router = router_name (vtx_to tx),
     f_tx_hash = to_lower (vtx_hash tx), f_warning = None,
     f_meme_amount_raw = [], f_quote_amount_raw = [],
     f_token_decimals = pr_token_decimals pool, f_quote_decimals = pr_quote_decimals pool,
     f_block_number = vtx_block_number tx, f_tx_index = vtx_tx_index tx,
     f_log_index = el_log_index lg, f_chain_time = vtx_chain_time tx,
     f_protocol_contracts = protocol\<rparr>"

lemma decode_swap_legs:
  assumes "decode_swap E visit lg tx pool protocol = Inr fill"
  obtains delta where "signed_int128 (swap_word pool lg) = Inr delta"
    "swap_legs E visit tx pool protocol delta (swap_start lg tx pool protocol) = Inr fill"
proof -
  from assms obtain a0 a1 where a: "signed_int128 (slice 0 32 (el_data lg)) = Inr a0"
    "signed_int128 (slice 32 64 (el_data lg)) = Inr a1"
    "swap_legs E visit tx pool protocol
       (if currency_less (pr_token pool) (pr_quote pool) then a0 else a1)
       (swap_start lg tx pool protocol) = Inr fill"
    unfolding decode_swap_def guardE_eq_Inr bindE_eq_Inr
    by (simp only: Let_def swap_legs_def swap_start_def user_legs_def fill.simps) blast
  show thesis
    by (rule that [of "if currency_less (pr_token pool) (pr_quote pool) then a0 else a1"])
      (use a in \<open>simp_all add: swap_word_def\<close>)
qed

definition same_origin :: "fill \<Rightarrow> fill \<Rightarrow> bool" where
  "same_origin f s \<longleftrightarrow> f_token f = f_token s \<and> f_quote f = f_quote s \<and> f_category f = f_category s \<and>
     f_tx_hash f = f_tx_hash s \<and> f_block_number f = f_block_number s \<and>
     f_tx_index f = f_tx_index s \<and> f_log_index f = f_log_index s"

definition direction_warning :: "int \<Rightarrow> fill \<Rightarrow> err option" where
  "direction_warning delta fill =
     (if delta < 0 \<and> f_side fill \<noteq> ''buy'' \<or> 0 < delta \<and> f_side fill \<noteq> ''sell''
      then Some E_direction else None)"

lemma user_legs_E:
  assumes "user_legs E tx pool delta f = Inr fill" and "f_warning f = None" "f_quote_amount_raw f = []"
  obtains q where "if pr_quote pool = zero_address then q = []
      else \<exists>qs. decode_transfers E (vtx_logs tx) (pr_quote pool) = Inr qs \<and>
        q = (if flow qs (f_user f) = 0 then [] else dec_of_int \<bar>flow qs (f_user f)\<bar>)"
    "fill = f\<lparr>f_quote_amount_raw := q, f_warning := direction_warning delta f\<rparr>"
proof -
  from assms(1) obtain f2 where f2: "(if pr_quote pool = zero_address then Inr f
       else bindE (decode_transfers E (vtx_logs tx) (pr_quote pool)) (\<lambda>qs. Inr (if 0 < \<bar>flow qs (f_user f)\<bar>
          then f\<lparr>f_quote_amount_raw := dec_of_int \<bar>flow qs (f_user f)\<bar>\<rparr> else f))) = Inr f2"
    and fill: "fill = (if delta \<noteq> 0 \<and> (if delta < 0 then ''buy'' else ''sell'') \<noteq> f_side f2
               then f2\<lparr>f_warning := Some E_direction\<rparr> else f2)"
    unfolding user_legs_def bindE_eq_Inr Let_def net_amount_for_flow sum.inject by blast
  have "\<exists>q. f2 = f\<lparr>f_quote_amount_raw := q\<rparr> \<and> (if pr_quote pool = zero_address then q = []
      else \<exists>qs. decode_transfers E (vtx_logs tx) (pr_quote pool) = Inr qs \<and>
        q = (if flow qs (f_user f) = 0 then [] else dec_of_int \<bar>flow qs (f_user f)\<bar>))"
  proof (cases "pr_quote pool = zero_address")
    case True
    with f2 assms(3) show ?thesis by (intro exI [of _ "[]"]) simp
  next
    case False
    with f2 obtain qs where d: "decode_transfers E (vtx_logs tx) (pr_quote pool) = Inr qs"
      and e: "f2 = (if 0 < \<bar>flow qs (f_user f)\<bar>
          then f\<lparr>f_quote_amount_raw := dec_of_int \<bar>flow qs (f_user f)\<bar>\<rparr> else f)"
      unfolding if_not_P [OF False] bindE_eq_Inr sum.inject by blast
    show ?thesis
      by (rule exI [of _ "if flow qs (f_user f) = 0 then [] else dec_of_int \<bar>flow qs (f_user f)\<bar>"])
        (use False d e assms(3) in simp)
  qed
  then obtain q where q: "f2 = f\<lparr>f_quote_amount_raw := q\<rparr>" and rest: "if pr_quote pool = zero_address then q = []
      else \<exists>qs. decode_transfers E (vtx_logs tx) (pr_quote pool) = Inr qs \<and>
        q = (if flow qs (f_user f) = 0 then [] else dec_of_int \<bar>flow qs (f_user f)\<bar>)" by blast
  have w: "direction_warning delta f = (if delta \<noteq> 0 \<and> (if delta < 0 then ''buy'' else ''sell'') \<noteq> f_side f
     then Some E_direction else None)" by (auto simp: direction_warning_def)
  have "fill = f\<lparr>f_quote_amount_raw := q, f_warning := direction_warning delta f\<rparr>"
    unfolding fill q w using assms(2) by simp
  with rest that show thesis by blast
qed

lemma swap_legs_cases:
  assumes ok: "eth_ok E" "go_range visit"
    and legs: "swap_legs E visit tx pool protocol delta s = Inr fill"
    and start: "f_user s = []" "f_side s = []" "f_quote_amount_raw s = []" "f_warning s = None"
  shows "same_origin fill s \<and>
    (if f_user fill = [] then price_only_fill E tx pool protocol delta fill
     else attributed_fill E tx pool protocol fill \<and> f_warning fill = direction_warning delta fill)"
proof -
  from legs obtain ts where t: "decode_transfers E (vtx_logs tx) (pr_token pool) = Inr ts"
    by (auto simp: swap_legs_def res_simps)
  note tok = decode_transfers_ok [OF ok(1) t]
  show ?thesis
  proof (cases "attribute_user E visit ts protocol")
    case (Inl e)
    then have e: "e = E_attribution" "\<forall>u. \<not> attributed E ts protocol u"
      using attribute_user_error [OF ok tok] by simp_all
    from Inl legs t have c: "complete_unattributed_fill E visit (s\<lparr>f_warning := Some e\<rparr>)
        (vtx_logs tx) pool protocol delta = Inr fill"
      by (auto simp: swap_legs_def split: sum.splits)
    obtain qs q where "count_swaps (vtx_logs tx) = 1" "pr_quote pool \<noteq> zero_address" "delta \<noteq> 0"
      "decode_transfers E (vtx_logs tx) (pr_quote pool) = Inr qs" "attributed E qs protocol q"
      "fill = s\<lparr>f_warning := Some e, f_meme_amount_raw := dec_of_int \<bar>delta\<bar>,
                  f_quote_amount_raw := dec_of_int \<bar>flow qs q\<bar>\<rparr>"
      using complete_unattributed [OF ok c] by auto
    then show ?thesis using t e start by (auto simp: price_only_fill_def same_origin_def)
  next
    case (Inr r)
    obtain u side m where r: "r = (u, side, m)" by (cases r)
    have a: "attributed E ts protocol u" "side = (if 0 < flow ts u then ''buy'' else ''sell'')"
      "m = \<bar>flow ts u\<bar>"
      using Inr r attribute_user_eq [OF ok tok] by simp_all
    have u: "u \<noteq> []" using attributed_canonical [OF tok a(1)] by auto
    let ?f1 = "s\<lparr>f_user := u, f_side := side, f_meme_amount_raw := dec_of_int m\<rparr>"
    from legs t Inr r have l: "user_legs E tx pool delta ?f1 = Inr fill"
      by (simp add: swap_legs_def)
    have s1: "f_warning ?f1 = None" "f_quote_amount_raw ?f1 = []" using start by simp_all
    have fu: "f_user ?f1 = u" by simp
    obtain q where q: "if pr_quote pool = zero_address then q = []
        else \<exists>qs. decode_transfers E (vtx_logs tx) (pr_quote pool) = Inr qs \<and>
          q = (if flow qs u = 0 then [] else dec_of_int \<bar>flow qs u\<bar>)"
      and fill: "fill = ?f1\<lparr>f_quote_amount_raw := q, f_warning := direction_warning delta ?f1\<rparr>"
      using user_legs_E [OF l s1, unfolded fu] by blast
    have f: "f_user fill = u" "f_side fill = side" "f_meme_amount_raw fill = dec_of_int m"
      "f_quote_amount_raw fill = q" "f_warning fill = direction_warning delta fill" "same_origin fill s"
      by (simp_all add: fill direction_warning_def same_origin_def)
    have "attributed_fill E tx pool protocol fill"
      unfolding attributed_fill_def f(1-4) using t a q by blast
    with f u show ?thesis by simp
  qed
qed

lemma decoded_swap_cases:
  assumes "eth_ok E" and "go_range visit" and "decode_swap E visit lg tx pool protocol = Inr fill"
  shows "swap_identity lg tx pool fill \<and>
    (\<exists>delta. signed_int128 (swap_word pool lg) = Inr delta \<and>
      (if f_user fill = [] then price_only_fill E tx pool protocol delta fill
       else attributed_fill E tx pool protocol fill \<and> f_warning fill = direction_warning delta fill))"
proof -
  obtain delta where d: "signed_int128 (swap_word pool lg) = Inr delta"
    "swap_legs E visit tx pool protocol delta (swap_start lg tx pool protocol) = Inr fill"
    using decode_swap_legs [OF assms(3)] by blast
  have s: "f_user (swap_start lg tx pool protocol) = []" "f_side (swap_start lg tx pool protocol) = []"
    "f_quote_amount_raw (swap_start lg tx pool protocol) = []"
    "f_warning (swap_start lg tx pool protocol) = None"
    by (simp_all add: swap_start_def)
  from swap_legs_cases [OF assms(1,2) d(2) s] d(1) show ?thesis
    by (auto simp: swap_identity_def same_origin_def swap_start_def)
qed

lemma decoded_swap_attributed:
  assumes "eth_ok E" and "go_range visit" and "decode_swap E visit lg tx pool protocol = Inr fill"
    and "f_user fill \<noteq> []"
  shows "attributed_fill E tx pool protocol fill"
  using decoded_swap_cases [OF assms(1-3)] assms(4) by auto

section \<open>Properties\<close>

text \<open>C24. \<open>AttributeUser\<close> names the one address outside the protocol's own that the transfers
  move strictly more to or from than any other, with that net amount and its direction, and
  fails exactly when there is none; the result does not depend on the order in which Go's
  \<open>range\<close> visits the map of net amounts.\<close>

theorem attribution_is_unique_maximum:
  assumes "eth_ok E" and "go_range visit" and "decode_transfers E logs token = Inr ts"
  shows "attribute_user E visit ts protocol = r \<longleftrightarrow>
    (case r of
       Inr (u, side, amount) \<Rightarrow> attributed E ts protocol u \<and> amount = \<bar>flow ts u\<bar> \<and>
         side = (if 0 < flow ts u then ''buy'' else ''sell'')
     | Inl e \<Rightarrow> e = E_attribution \<and> (\<forall>u. \<not> attributed E ts protocol u))"
proof -
  note ok = assms(1,2) decode_transfers_ok [OF assms(1,3)]
  show ?thesis
    by (cases r) (auto simp: attribute_user_eq [OF ok] attribute_user_error [OF ok] split: prod.splits)
qed

text \<open>C25. A fill that \<open>DecodeSwap\<close> returns carries either a user that the net transfers of the
  traded token single out, with amounts equal to the net transfers of both legs and a warning
  exactly when the sign of the Swap contradicts the direction, or no user at all; then its two
  amounts come from the only Swap of the transaction and from a unique quote flow.\<close>

theorem decoded_swap_is_attributed:
  assumes "eth_ok E" and "go_range visit" and "decode_swap E visit lg tx pool protocol = Inr fill"
  shows "swap_identity lg tx pool fill \<and>
    (\<exists>delta. signed_int128 (swap_word pool lg) = Inr delta \<and>
      (if f_user fill = [] then price_only_fill E tx pool protocol delta fill
       else attributed_fill E tx pool protocol fill \<and> f_warning fill = direction_warning delta fill))"
  using assms by (rule decoded_swap_cases)

text \<open>Two Swap logs of one transaction in pools of the same token that are both attributed
  carry the same user and the same token amount: the net amount of the whole transaction, once
  per log. A transaction that reaches the pools of one token twice is counted twice.\<close>

theorem swaps_of_one_transaction_share_the_amount:
  assumes "eth_ok E" and "go_range visit"
    and "decode_swap E visit lg1 tx pool1 protocol = Inr fill1"
    and "decode_swap E visit lg2 tx pool2 protocol = Inr fill2"
    and "pr_token pool1 = pr_token pool2" and "f_user fill1 \<noteq> []" and "f_user fill2 \<noteq> []"
  shows "f_user fill1 = f_user fill2 \<and> f_side fill1 = f_side fill2 \<and>
    f_meme_amount_raw fill1 = f_meme_amount_raw fill2"
proof -
  have a: "attributed_fill E tx pool1 protocol fill1" "attributed_fill E tx pool2 protocol fill2"
    using decoded_swap_attributed [OF assms(1,2)] assms(3,4,6,7) by blast+
  then obtain ts where "attributed E ts protocol (f_user fill1)" "attributed E ts protocol (f_user fill2)"
    "f_side fill1 = (if 0 < flow ts (f_user fill1) then ''buy'' else ''sell'')"
    "f_side fill2 = (if 0 < flow ts (f_user fill2) then ''buy'' else ''sell'')"
    "f_meme_amount_raw fill1 = dec_of_int \<bar>flow ts (f_user fill1)\<bar>"
    "f_meme_amount_raw fill2 = dec_of_int \<bar>flow ts (f_user fill2)\<bar>"
    using assms(5) unfolding attributed_fill_def by (metis sum.inject(2))
  moreover from this(1,2) have "f_user fill1 = f_user fill2"
    unfolding attributed_def by (metis less_asym)
  ultimately show ?thesis by simp
qed

section \<open>Evaluated examples\<close>

definition ex_token :: string where "ex_token = ''0x1111111111111111111111111111111111111111''"
definition ex_pool_key :: string where "ex_pool_key = ''0x'' @ replicate 64 CHR ''7''"
definition ex_buyer :: string where "ex_buyer = ''0x2222222222222222222222222222222222222222''"

definition ex_topic :: "string \<Rightarrow> string" where
  "ex_topic a = ''0x'' @ replicate 24 CHR ''0'' @ drop 2 a"

definition ex_transfer_log :: "string \<Rightarrow> string \<Rightarrow> string \<Rightarrow> byte list \<Rightarrow> event_log" where
  "ex_transfer_log token a b n = \<lparr>el_address = token,
     el_topics = [topic_erc20_transfer, ex_topic a, ex_topic b], el_data = replicate 30 0 @ n,
     el_log_index = 0\<rparr>"

definition ex_swap_log :: "byte list \<Rightarrow> byte list \<Rightarrow> u64 \<Rightarrow> event_log" where
  "ex_swap_log a b i = \<lparr>el_address = pool_manager,
     el_topics = [topic_pool_swap, ex_pool_key, ex_topic universal_router],
     el_data = replicate 30 255 @ a @ replicate 30 0 @ b @ replicate 128 0, el_log_index = i\<rparr>"

definition ex_pool :: pool_registration where
  "ex_pool = \<lparr>pr_pool_id = ex_pool_key, pr_token = ex_token, pr_category = ''o1_crypto'',
     pr_quote = usdg_address, pr_token_decimals = 18, pr_quote_decimals = 6\<rparr>"

definition ex_swap_tx :: v4_tx where
  "ex_swap_tx = \<lparr>vtx_to = universal_router, vtx_hash = ''0xAB'', vtx_block_number = 7,
     vtx_tx_index = 0, vtx_chain_time = 0,
     vtx_logs = [ex_transfer_log usdg_address ex_buyer pool_manager [0, 50],
       ex_transfer_log ex_token pool_manager ex_buyer [3, 132], ex_swap_log [253, 168] [0, 30] 3, ex_swap_log [254, 212] [0, 20] 4]\<rparr>"

definition ex_fill :: "u64 \<Rightarrow> fill" where
  "ex_fill i = \<lparr>f_token = ex_token, f_category = ''o1_crypto'', f_quote = usdg_address,
     f_user = ex_buyer, f_side = ''buy'', f_router = ''universal_router'', f_tx_hash = ''0xab'',
     f_warning = None, f_meme_amount_raw = ''900'', f_quote_amount_raw = ''50'',
     f_token_decimals = 18, f_quote_decimals = 6, f_block_number = 7, f_tx_index = 0,
     f_log_index = i, f_chain_time = 0, f_protocol_contracts = [pool_manager]\<rparr>"

lemma go_range_rev: "go_range rev"
  by (simp add: go_range_def)

lemma ex_swap1: "decode_swap eth_plain rev (ex_swap_log [253, 168] [0, 30] 3) ex_swap_tx ex_pool [pool_manager]
   = Inr (ex_fill 3)"
  by code_simp

lemma ex_swap2: "decode_swap eth_plain rev (ex_swap_log [254, 212] [0, 20] 4) ex_swap_tx ex_pool [pool_manager]
   = Inr (ex_fill 4)"
  by code_simp

lemma ex_meme_transfers: "decode_transfers eth_plain (vtx_logs ex_swap_tx) ex_token =
    Inr [\<lparr>tr_token = ex_token, tr_from = pool_manager, tr_to = ex_buyer, tr_amount = 900\<rparr>]"
  by code_simp

lemma ex_attribute: "attribute_user eth_plain rev
    [\<lparr>tr_token = ex_token, tr_from = pool_manager, tr_to = ex_buyer, tr_amount = 900\<rparr>] [pool_manager]
   = Inr (ex_buyer, ''buy'', 900)"
  by code_simp

theorem attribution_is_unique_maximum_witness:
  "attributed eth_plain [\<lparr>tr_token = ex_token, tr_from = pool_manager, tr_to = ex_buyer, tr_amount = 900\<rparr>]
     [pool_manager] ex_buyer"
  using attribution_is_unique_maximum [OF eth_plain_ok go_range_rev ex_meme_transfers,
      of "[pool_manager]" "Inr (ex_buyer, ''buy'', 900)"] ex_attribute
  by simp

theorem decoded_swap_is_attributed_witness:
  "swap_identity (ex_swap_log [253, 168] [0, 30] 3) ex_swap_tx ex_pool (ex_fill 3) \<and>
   attributed_fill eth_plain ex_swap_tx ex_pool [pool_manager] (ex_fill 3)"
  using decoded_swap_is_attributed [OF eth_plain_ok go_range_rev ex_swap1]
  by (auto simp: ex_fill_def ex_buyer_def)

theorem swaps_of_one_transaction_share_the_amount_witness:
  "f_user (ex_fill 3) \<noteq> [] \<and> f_meme_amount_raw (ex_fill 3) = f_meme_amount_raw (ex_fill 4)"
  using swaps_of_one_transaction_share_the_amount [OF eth_plain_ok go_range_rev ex_swap1 ex_swap2]
  by (auto simp: ex_fill_def ex_buyer_def)

end
