(* ===== verification/Chain_Trace.thy ===== *)
theory Chain_Trace
  imports Domain_Address
begin

text \<open>
  \<open>internal/chain/trace.go\<close>: the net native amount a transaction moves to or from a user, from
  the call tree of \<open>debug_traceTransaction\<close>. The remote call is the parameter \<open>trace\<close>: it maps
  a transaction hash to the decoded call tree or an error.
\<close>

section \<open>Data\<close>

definition max_trace_depth :: nat where "max_trace_depth = 128"
definition max_trace_nodes :: nat where "max_trace_nodes = 10000"

datatype call_frame = Frame (fr_type: string) (fr_from: string) (fr_to: string) (fr_value: string)
  (fr_error: string) (fr_calls: "call_frame list")

section \<open>Fields\<close>

definition normalize_trace_address :: "eth_common \<Rightarrow> string \<Rightarrow> bool \<Rightarrow> string res" where
  "normalize_trace_address E value allow_empty =
     (if allow_empty \<and> trim_space value = [] then Inr []
      else case normalize_address E value of
        Inl _ \<Rightarrow> Inl E_trace
      | Inr normalized \<Rightarrow>
          guardE (length (trim_space value) \<noteq> 42 \<or> \<not> has_prefix (to_lower (trim_space value)) ''0x'')
            E_trace (Inr normalized))"

text \<open>An omitted value is zero; any other is a minimal hexadecimal quantity below \<open>2 ^ 256\<close>.\<close>

definition parse_trace_value :: "string \<Rightarrow> int res" where
  "parse_trace_value raw =
     (let value = trim_space raw
      in if value = [] then Inr 0
         else guardE (length value < 3 \<or> \<not> has_prefix value ''0x'') E_trace
           (let digits = drop 2 value
            in guardE (1 < length digits \<and> digits ! 0 = CHR ''0'') E_trace
              (case parse_big 16 digits of
                 None \<Rightarrow> Inl E_trace
               | Some n \<Rightarrow> guardE (n < 0 \<or> 2 ^ 256 \<le> n) E_trace (Inr n))))"

definition call_kinds :: "string list" where
  "call_kinds = [''CALL'', ''STATICCALL'', ''DELEGATECALL'', ''CALLCODE'', ''CREATE'', ''CREATE2'', ''SELFDESTRUCT'']"

section \<open>The walk\<close>

text \<open>
  \<open>nodes\<close> and \<open>net\<close> are the counters the code passes by pointer. What one frame adds is
  \<open>frame_effect\<close>; the checks come in the order of the code.
\<close>

definition frame_effect ::
  "eth_common \<Rightarrow> call_frame \<Rightarrow> string \<Rightarrow> bool \<Rightarrow> (bool \<times> int) res" where
  "frame_effect E fr target reverted =
     (let kind = to_upper (trim_space (fr_type fr))
      in guardE (kind \<notin> set call_kinds) E_trace
        (bindE (normalize_trace_address E (fr_from fr) False) (\<lambda>from.
         let allow_empty_to = (trim_space (fr_error fr) \<noteq> [] \<and> (kind = ''CREATE'' \<or> kind = ''CREATE2''))
         in bindE (normalize_trace_address E (fr_to fr) allow_empty_to) (\<lambda>to.
            bindE (parse_trace_value (fr_value fr)) (\<lambda>value.
              let reverted' = (reverted \<or> trim_space (fr_error fr) \<noteq> []);
                  counts = (\<not> reverted' \<and> 0 < value \<and> (kind = ''CALL'' \<or> kind = ''CREATE'' \<or> kind = ''CREATE2''))
              in Inr (reverted',
                   if counts then (if to = target then value else 0) - (if from = target then value else 0)
                   else 0))))))"

fun accumulate :: "eth_common \<Rightarrow> call_frame \<Rightarrow> nat \<Rightarrow> string \<Rightarrow> bool \<Rightarrow> nat \<times> int \<Rightarrow> (nat \<times> int) res"
and accumulate_calls :: "eth_common \<Rightarrow> call_frame list \<Rightarrow> nat \<Rightarrow> string \<Rightarrow> bool \<Rightarrow> nat \<times> int \<Rightarrow> (nat \<times> int) res" where
  "accumulate E (Frame ty from to v err calls) depth target reverted (nodes, net) =
     guardE (max_trace_nodes < nodes + 1) E_trace
       (guardE (max_trace_depth < depth) E_trace
         (bindE (frame_effect E (Frame ty from to v err calls) target reverted) (\<lambda>(reverted', d).
            accumulate_calls E calls (depth + 1) target reverted' (nodes + 1, net + d))))"
| "accumulate_calls E [] depth target reverted st = Inr st"
| "accumulate_calls E (c # cs) depth target reverted st =
     bindE (accumulate E c depth target reverted st) (accumulate_calls E cs depth target reverted)"

definition trace_native_amount ::
  "eth_common \<Rightarrow> (string \<Rightarrow> call_frame res) \<Rightarrow> string \<Rightarrow> string \<Rightarrow> string \<Rightarrow> string res" where
  "trace_native_amount E trace tx_hash user side =
     bindE (normalize_hash tx_hash 32) (\<lambda>hash.
     bindE (normalize_address E user) (\<lambda>target.
     guardE (side \<noteq> ''buy'' \<and> side \<noteq> ''sell'') E_trace
    (bindE (trace hash) (\<lambda>tree.
     bindE (accumulate E tree 1 target False (0, 0)) (\<lambda>(nodes, net).
     guardE ((side = ''buy'' \<and> 0 \<le> net) \<or> (side = ''sell'' \<and> net \<le> 0)) E_trace
       (Inr (dec_of_int \<bar>net\<bar>)))))))"

section \<open>The declarative net flow\<close>

text \<open>
  What the trace says, without counters: the frames of the tree with whether they took effect
  (no error on the path from the root), and the value each moved.
\<close>

definition failed :: "call_frame \<Rightarrow> bool" where
  "failed fr \<longleftrightarrow> trim_space (fr_error fr) \<noteq> []"

fun frames :: "bool \<Rightarrow> call_frame \<Rightarrow> (call_frame \<times> bool) list"
and frames_of :: "bool \<Rightarrow> call_frame list \<Rightarrow> (call_frame \<times> bool) list" where
  "frames r (Frame ty from to v err calls) =
     (Frame ty from to v err calls, r \<or> trim_space err \<noteq> []) #
       frames_of (r \<or> trim_space err \<noteq> []) calls"
| "frames_of r [] = []"
| "frames_of r (c # cs) = frames r c @ frames_of r cs"

fun height :: "call_frame \<Rightarrow> nat"
and heights :: "call_frame list \<Rightarrow> nat" where
  "height (Frame ty from to v err calls) = Suc (heights calls)"
| "heights [] = 0"
| "heights (c # cs) = max (height c) (heights cs)"

definition moved :: "eth_common \<Rightarrow> string \<Rightarrow> call_frame \<times> bool \<Rightarrow> int" where
  "moved E target p = (case p of (fr, reverted) \<Rightarrow>
     let kind = to_upper (trim_space (fr_type fr))
     in if reverted \<or> kind \<notin> {''CALL'', ''CREATE'', ''CREATE2''} then 0
        else case parse_trace_value (fr_value fr) of
          Inl _ \<Rightarrow> 0
        | Inr v \<Rightarrow> (if normalize_address E (fr_to fr) = Inr target then v else 0)
                 - (if normalize_address E (fr_from fr) = Inr target then v else 0))"

definition native_flow :: "eth_common \<Rightarrow> string \<Rightarrow> call_frame \<Rightarrow> int" where
  "native_flow E target tree = sum_list (map (moved E target) (frames False tree))"

lemma trace_value_range: "parse_trace_value raw = Inr v \<Longrightarrow> 0 \<le> v \<and> v < 2 ^ 256"
  by (auto simp: parse_trace_value_def Let_def res_simps split: if_splits option.splits)

lemma trace_address: "normalize_trace_address E a False = Inr t \<Longrightarrow> normalize_address E a = Inr t"
  by (auto simp: normalize_trace_address_def res_simps split: sum.splits)

lemma trace_address_nonempty:
  "\<lbrakk>normalize_trace_address E a b = Inr t; t \<noteq> []\<rbrakk> \<Longrightarrow> normalize_address E a = Inr t"
  by (auto simp: normalize_trace_address_def res_simps split: sum.splits if_splits)

lemma frame_effect_moved:
  assumes "frame_effect E fr target reverted = Inr (r, d)" and "target \<noteq> []"
  shows "r = (reverted \<or> failed fr) \<and> d = moved E target (fr, r)"
proof -
  from assms(1) obtain fa ta v where
    f: "normalize_trace_address E (fr_from fr) False = Inr fa" and
    t: "normalize_trace_address E (fr_to fr) (trim_space (fr_error fr) \<noteq> [] \<and>
      (to_upper (trim_space (fr_type fr)) = ''CREATE'' \<or> to_upper (trim_space (fr_type fr)) = ''CREATE2'')) = Inr ta" and
    v: "parse_trace_value (fr_value fr) = Inr v" and
    r: "r = (reverted \<or> trim_space (fr_error fr) \<noteq> [])" and
    d: "d = (if \<not> r \<and> 0 < v \<and> to_upper (trim_space (fr_type fr)) \<in> {''CALL'', ''CREATE'', ''CREATE2''}
       then (if ta = target then v else 0) - (if fa = target then v else 0) else 0)"
    unfolding frame_effect_def Let_def guardE_eq_Inr bindE_eq_Inr sum.inject prod.inject by auto
  have e: "normalize_address E (fr_from fr) = Inr target \<longleftrightarrow> fa = target"
    using trace_address [OF f] by auto
  have "v = 0 \<or> 0 < v" using trace_value_range [OF v] by linarith
  moreover have "normalize_address E (fr_to fr) = Inr target \<longleftrightarrow> ta = target" if "\<not> r"
    using that t r trace_address [of E "fr_to fr" ta] by auto
  ultimately show ?thesis
    using r d v e by (auto simp: failed_def moved_def Let_def)
qed

text \<open>The walk refines the declarative flow and stays within its bounds.\<close>

lemma accumulate_spec:
  "\<lbrakk>accumulate E fr depth target reverted (nodes, net) = Inr (nodes', net'); target \<noteq> []\<rbrakk> \<Longrightarrow>
     nodes' = nodes + length (frames reverted fr) \<and> nodes' \<le> max_trace_nodes \<and>
     net' = net + sum_list (map (moved E target) (frames reverted fr)) \<and>
     depth + height fr \<le> Suc max_trace_depth"
  "\<lbrakk>accumulate_calls E frs depth target reverted (nodes, net) = Inr (nodes', net'); target \<noteq> []\<rbrakk> \<Longrightarrow>
     nodes' = nodes + length (frames_of reverted frs) \<and> (nodes \<le> max_trace_nodes \<longrightarrow> nodes' \<le> max_trace_nodes) \<and>
     net' = net + sum_list (map (moved E target) (frames_of reverted frs)) \<and>
     (depth \<le> Suc max_trace_depth \<longrightarrow> depth + heights frs \<le> Suc max_trace_depth)"
proof (induction E fr depth target reverted "(nodes, net)" and E frs depth target reverted "(nodes, net)"
    arbitrary: nodes net nodes' net' and nodes net nodes' net' rule: accumulate_accumulate_calls.induct)
  case (1 E ty fa ta v err calls depth target reverted nodes net)
  let ?fr = "Frame ty fa ta v err calls"
  from 1(2) obtain r d where n: "nodes + 1 \<le> max_trace_nodes" "depth \<le> max_trace_depth"
    and fe: "frame_effect E ?fr target reverted = Inr (r, d)"
    and rest: "accumulate_calls E calls (depth + 1) target r (nodes + 1, net + d) = Inr (nodes', net')"
    by (auto simp: res_simps)
  from frame_effect_moved [OF fe 1(3)] have r: "r = (reverted \<or> trim_space err \<noteq> [])"
    "d = moved E target (?fr, r)" by (auto simp: failed_def)
  from 1(1) [OF _ _ fe refl rest 1(3)] n r show ?case by auto
next
  case (2 E depth target reverted)
  then show ?case by simp
next
  case (3 E c cs depth target reverted)
  from 3(3) obtain n1 t1 where a: "accumulate E c depth target reverted (nodes, net) = Inr (n1, t1)"
    "accumulate_calls E cs depth target reverted (n1, t1) = Inr (nodes', net')"
    by (auto simp: res_simps)
  from 3(1) [OF a(1) 3(4)] 3(2) [OF a 3(4)] show ?case by auto
qed

text \<open>Conversely a tree within the bounds whose frames are all well-formed is walked to its end.\<close>

definition frame_valid :: "eth_common \<Rightarrow> call_frame \<Rightarrow> bool" where
  "frame_valid E fr \<longleftrightarrow> is_ok (frame_effect E fr [] False)"

lemma frame_effect_ok: "is_ok (frame_effect E fr target r) \<longleftrightarrow> frame_valid E fr"
  unfolding frame_valid_def
  by (cases "parse_trace_value (fr_value fr)"; cases "normalize_trace_address E (fr_from fr) False")
    (auto simp: frame_effect_def Let_def bindE_def guardE_def split: sum.splits)

lemma accumulate_total:
  "\<lbrakk>nodes + length (frames reverted fr) \<le> max_trace_nodes; depth + height fr \<le> Suc max_trace_depth;
    \<forall>(f, r)\<in>set (frames reverted fr). frame_valid E f; target \<noteq> []\<rbrakk> \<Longrightarrow>
   is_ok (accumulate E fr depth target reverted (nodes, net))"
  "\<lbrakk>nodes + length (frames_of reverted frs) \<le> max_trace_nodes; depth + heights frs \<le> Suc max_trace_depth;
    \<forall>(f, r)\<in>set (frames_of reverted frs). frame_valid E f; target \<noteq> []\<rbrakk> \<Longrightarrow>
   is_ok (accumulate_calls E frs depth target reverted (nodes, net))"
proof (induction E fr depth target reverted "(nodes, net)" and E frs depth target reverted "(nodes, net)"
    arbitrary: nodes net and nodes net rule: accumulate_accumulate_calls.induct)
  case (1 E ty fa ta v err calls depth target reverted nodes net)
  let ?fr = "Frame ty fa ta v err calls"
  have "is_ok (frame_effect E ?fr target reverted)" using 1(4) by (simp add: frame_effect_ok)
  then obtain r d where fe: "frame_effect E ?fr target reverted = Inr (r, d)"
    by (cases "frame_effect E ?fr target reverted") auto
  from frame_effect_moved [OF fe 1(5)] have r: "r = (reverted \<or> trim_space err \<noteq> [])"
    by (simp add: failed_def)
  have n: "\<not> max_trace_nodes < nodes + 1" "\<not> max_trace_depth < depth" using 1(2,3) by auto
  have "is_ok (accumulate_calls E calls (depth + 1) target r (nodes + 1, net + d))"
    by (rule 1(1) [OF n fe refl _ _ _ 1(5)]) (use 1(2-4) r in auto)
  then show ?case using fe n by simp
next
  case (2 E depth target reverted)
  then show ?case by simp
next
  case (3 E c cs depth target reverted)
  have "is_ok (accumulate E c depth target reverted (nodes, net))"
    by (rule 3(1)) (use 3(3-6) in auto)
  then obtain n1 t1 where a: "accumulate E c depth target reverted (nodes, net) = Inr (n1, t1)"
    by (cases "accumulate E c depth target reverted (nodes, net)") auto
  have "n1 = nodes + length (frames reverted c)" using accumulate_spec(1) [OF a 3(6)] by blast
  then have "is_ok (accumulate_calls E cs depth target reverted (n1, t1))"
    by (intro 3(2) [OF a]) (use 3(3-6) in auto)
  then show ?case using a by simp
qed

section \<open>Properties\<close>

text \<open>C33. The amount returned for a user is the absolute net of the values that the calls and creations
  which took effect move to and from that address, in the direction of the trade; frames below a
  failed frame and delegate or static calls count nothing. The call tree then has at most 10,000
  frames and depth 128.\<close>

theorem traced_amount_is_net_flow:
  assumes "eth_ok E" and "trace_native_amount E trace tx user side = Inr amount"
  shows "\<exists>hash target tree. normalize_hash tx 32 = Inr hash \<and> normalize_address E user = Inr target \<and>
    trace hash = Inr tree \<and> amount = dec_of_int \<bar>native_flow E target tree\<bar> \<and>
    (if side = ''buy'' then native_flow E target tree < 0 else side = ''sell'' \<and> 0 < native_flow E target tree) \<and>
    length (frames False tree) \<le> 10000 \<and> height tree \<le> 128"
proof -
  from assms(2) obtain hash target tree st where
    h: "normalize_hash tx 32 = Inr hash" "normalize_address E user = Inr target" "trace hash = Inr tree"
    and a: "accumulate E tree 1 target False (0, 0) = Inr st"
    and r: "\<not> (side \<noteq> ''buy'' \<and> side \<noteq> ''sell'')"
      "\<not> ((side = ''buy'' \<and> 0 \<le> snd st) \<or> (side = ''sell'' \<and> snd st \<le> 0))"
      "dec_of_int \<bar>snd st\<bar> = amount"
    unfolding trace_native_amount_def guardE_eq_Inr bindE_eq_Inr case_prod_unfold sum.inject
    by (elim exE conjE) (rule that)
  have t: "target \<noteq> []" using normalize_address_canonical [OF assms(1) h(2)] by simp
  obtain nodes net where st: "st = (nodes, net)" by (cases st)
  have sp: "nodes = length (frames False tree)" "nodes \<le> max_trace_nodes"
    "net = native_flow E target tree" "height tree \<le> max_trace_depth"
    using accumulate_spec(1) [OF a [unfolded st] t] by (auto simp: native_flow_def)
  have "if side = ''buy'' then net < 0 else side = ''sell'' \<and> 0 < net"
    using r(1,2) unfolding st by auto
  then show ?thesis
    using h r(3) sp unfolding st max_trace_nodes_def max_trace_depth_def
    by (rule_tac x = hash in exI, rule_tac x = target in exI, rule_tac x = tree in exI) auto
qed

text \<open>A call tree of at most 10,000 well-formed frames and depth 128 whose net flow has the
  direction of the trade always yields an amount.\<close>

theorem trace_succeeds_within_bounds:
  assumes "eth_ok E" and "normalize_hash tx 32 = Inr hash" and "normalize_address E user = Inr target"
    and "trace hash = Inr tree" and "length (frames False tree) \<le> 10000" and "height tree \<le> 128"
    and "\<forall>(f, r)\<in>set (frames False tree). frame_valid E f"
    and "side = ''buy'' \<and> native_flow E target tree < 0 \<or> side = ''sell'' \<and> 0 < native_flow E target tree"
  shows "trace_native_amount E trace tx user side = Inr (dec_of_int \<bar>native_flow E target tree\<bar>)"
proof -
  have t: "target \<noteq> []" using normalize_address_canonical [OF assms(1,3)] by simp
  have "is_ok (accumulate E tree 1 target False (0, 0))"
    by (rule accumulate_total(1)) (use assms t in \<open>auto simp: max_trace_nodes_def max_trace_depth_def\<close>)
  then obtain nodes net where a: "accumulate E tree 1 target False (0, 0) = Inr (nodes, net)"
    by (cases "accumulate E tree 1 target False (0, 0)") auto
  have "net = native_flow E target tree"
    using accumulate_spec(1) [OF a t] by (simp add: native_flow_def)
  with a assms show ?thesis by (auto simp: trace_native_amount_def)
qed

definition ex_sender :: string where "ex_sender = ''0x1111111111111111111111111111111111111111''"
definition ex_router :: string where "ex_router = ''0x2222222222222222222222222222222222222222''"
definition ex_tree :: call_frame where
  "ex_tree = Frame ''CALL'' ex_sender ex_router ''0x64'' []
     [Frame ''CALL'' ex_router ex_sender ''0xa'' [] [], Frame ''CALL'' ex_router ex_sender ''0x32'' ''reverted'' []]"
definition ex_tx :: string where "ex_tx = ''0x'' @ replicate 64 CHR ''7''"

lemma ex_trace: "trace_native_amount eth_plain (\<lambda>h. Inr ex_tree) ex_tx ex_sender ''buy'' = Inr ''90''"
  by code_simp

theorem traced_amount_is_net_flow_witness:
  "\<exists>target. ''90'' = dec_of_int \<bar>native_flow eth_plain target ex_tree\<bar>"
  using traced_amount_is_net_flow [OF eth_plain_ok ex_trace] by auto

theorem trace_succeeds_within_bounds_witness:
  "is_ok (trace_native_amount eth_plain (\<lambda>h. Inr ex_tree) ex_tx ex_sender ''buy'')"
proof -
  have h: "normalize_hash ex_tx 32 = Inr ex_tx" by code_simp
  have u: "normalize_address eth_plain ex_sender = Inr ex_sender" by code_simp
  have b: "length (frames False ex_tree) \<le> 10000" "height ex_tree \<le> 128"
    "\<forall>(f, r)\<in>set (frames False ex_tree). frame_valid eth_plain f"
    "native_flow eth_plain ex_sender ex_tree < 0" by code_simp+
  from trace_succeeds_within_bounds [OF eth_plain_ok h u refl b(1-3), of "''buy''"] b(4) show ?thesis
    by simp
qed

end
