(* ===== verification/Chain_Receipts.thy ===== *)
theory Chain_Receipts
  imports Domain_Address Domain_Launch
begin

text \<open>
  \<open>internal/chain/receipts.go\<close>: a complete block from the RPC. The values that \<open>encoding/json\<close>
  yields are the raw records; the node behind \<open>Client.Call\<close> is the record \<open>node\<close> of partial
  answers. The worker goroutines of the single-receipt mode finish in any order; the model
  returns the error of the lowest index when several fail.
\<close>

section \<open>Data\<close>

record transaction =
  tx_hash :: string
  tx_from :: string
  tx_to :: string
  tx_value :: string
  tx_input :: "byte list"
  tx_index :: u64

record chain_log =
  lg_address :: string
  lg_topics :: "string list"
  lg_data :: "byte list"
  lg_index :: u64
  lg_receipt_log_index :: u64
  lg_removed :: bool

record receipt =
  rc_tx_hash :: string
  rc_block_hash :: string
  rc_tx_index :: u64
  rc_status :: u64
  rc_logs :: "chain_log list"

record block_batch =
  bb_number :: u64
  bb_timestamp :: u64
  bb_hash :: string
  bb_parent_hash :: string
  bb_chain_time :: time
  bb_transactions :: "transaction list"
  bb_receipts :: "receipt list"

record raw_transaction =
  rt_hash :: string
  rt_from :: string
  rt_to :: string
  rt_value :: string
  rt_input :: string
  rt_transaction_index :: string

record raw_block =
  rb_number :: string
  rb_hash :: string
  rb_parent_hash :: string
  rb_timestamp :: string
  rb_transactions :: "raw_transaction list"

record raw_log =
  rl_address :: string
  rl_data :: string
  rl_log_index :: string
  rl_topics :: "string list"
  rl_removed :: bool

record raw_receipt =
  rr_transaction_hash :: string
  rr_block_hash :: string
  rr_transaction_index :: string
  rr_status :: string
  rr_logs :: "raw_log list"

section \<open>Scalars\<close>

definition normalize_fixed_hex :: "string \<Rightarrow> nat \<Rightarrow> string res" where
  "normalize_fixed_hex value bytes =
     (let v = to_lower (trim_space value)
      in guardE (\<not> has_prefix v ''0x'' \<or> length v \<noteq> 2 + bytes * 2) E_hex_length
           (bindE (hex_decode (drop 2 v)) (\<lambda>_. Inr v)))"

definition decode_hex_bytes :: "string \<Rightarrow> byte list res" where
  "decode_hex_bytes value =
     (let v = trim_prefix (to_lower (trim_space value)) ''0x''
      in guardE (odd (length v)) E_hex_length (hex_decode v))"

definition hex_quantity :: "u64 \<Rightarrow> string" where
  "hex_quantity value = ''0x'' @ hex_of_nat (unat value)"

text \<open>\<open>strconv.ParseUint(s, 16, 64)\<close>: digits only, and the value fits 64 bits.\<close>

definition parse_uint_16 :: "string \<Rightarrow> u64 res" where
  "parse_uint_16 s =
     guardE (s = [] \<or> \<not> list_all is_hex_char s) E_number
       (let n = nat_of_digits 16 0 s in guardE (2 ^ 64 \<le> n) E_number (Inr (of_nat n)))"

definition parse_hex_uint64 :: "string \<Rightarrow> u64 res" where
  "parse_hex_uint64 value =
     (let v = trim_prefix (to_lower (trim_space value)) ''0x''
      in guardE (v = []) E_number (parse_uint_16 v))"

section \<open>Blocks\<close>

text \<open>The body of the loop over the transactions; \<open>i\<close> is the position in the block.\<close>

definition decode_transaction :: "nat \<Rightarrow> raw_transaction \<Rightarrow> transaction res" where
  "decode_transaction i tx =
     (case parse_big 16 (trim_prefix (rt_value tx) ''0x'') of
        None \<Rightarrow> Inl E_number
      | Some value \<Rightarrow>
     bindE (decode_hex_bytes (rt_input tx)) (\<lambda>input.
     bindE (normalize_fixed_hex (rt_hash tx) 32) (\<lambda>hash.
     bindE (normalize_fixed_hex (rt_from tx) 20) (\<lambda>from.
     bindE (if rt_to tx \<noteq> [] then normalize_fixed_hex (rt_to tx) 20 else Inr []) (\<lambda>to.
     guardE (rt_transaction_index tx \<noteq> [] \<and>
             parse_hex_uint64 (rt_transaction_index tx) \<noteq> Inr (of_nat i)) E_number
       (Inr \<lparr>tx_hash = hash, tx_from = from, tx_to = to, tx_value = dec_of_int value,
             tx_input = input, tx_index = of_nat i\<rparr>))))))"

fun decode_transactions :: "nat \<Rightarrow> raw_transaction list \<Rightarrow> transaction list res" where
  "decode_transactions i [] = Inr []"
| "decode_transactions i (tx # txs) =
     bindE (decode_transaction i tx) (\<lambda>t.
     bindE (decode_transactions (i + 1) txs) (\<lambda>ts. Inr (t # ts)))"

definition decode_block :: "raw_block \<Rightarrow> block_batch res" where
  "decode_block raw =
     bindE (parse_hex_uint64 (rb_number raw)) (\<lambda>number.
     bindE (parse_hex_uint64 (rb_timestamp raw)) (\<lambda>timestamp.
     bindE (normalize_fixed_hex (rb_hash raw) 32) (\<lambda>hash.
     bindE (normalize_fixed_hex (rb_parent_hash raw) 32) (\<lambda>parent.
     bindE (decode_transactions 0 (rb_transactions raw)) (\<lambda>txs.
       Inr \<lparr>bb_number = number, bb_timestamp = timestamp, bb_hash = hash, bb_parent_hash = parent,
            bb_chain_time = unix_time timestamp, bb_transactions = txs, bb_receipts = []\<rparr>)))))"

section \<open>Receipts\<close>

definition decode_log :: "nat \<Rightarrow> raw_log \<Rightarrow> chain_log res" where
  "decode_log i item =
     bindE (normalize_fixed_hex (rl_address item) 20) (\<lambda>address.
     bindE (decode_hex_bytes (rl_data item)) (\<lambda>data.
     bindE (parse_hex_uint64 (rl_log_index item)) (\<lambda>index.
     bindE (mapE (\<lambda>t. normalize_fixed_hex t 32) (rl_topics item)) (\<lambda>topics.
       Inr \<lparr>lg_address = address, lg_topics = topics, lg_data = data, lg_index = index,
            lg_receipt_log_index = of_nat i, lg_removed = rl_removed item\<rparr>))))"

fun decode_logs :: "nat \<Rightarrow> raw_log list \<Rightarrow> chain_log list res" where
  "decode_logs i [] = Inr []"
| "decode_logs i (l # ls) =
     bindE (decode_log i l) (\<lambda>x. bindE (decode_logs (i + 1) ls) (\<lambda>xs. Inr (x # xs)))"

definition decode_receipt :: "raw_receipt \<Rightarrow> nat \<Rightarrow> string \<Rightarrow> receipt res" where
  "decode_receipt raw i expected_block_hash =
     bindE (normalize_fixed_hex (rr_transaction_hash raw) 32) (\<lambda>hash.
     guardE (normalize_fixed_hex (rr_block_hash raw) 32 \<noteq> Inr expected_block_hash) E_receipts
    (case parse_hex_uint64 (rr_status raw) of
       Inl _ \<Rightarrow> Inl E_receipts
     | Inr status \<Rightarrow>
     guardE (1 < status) E_receipts
    (guardE (rr_transaction_index raw \<noteq> [] \<and>
             parse_hex_uint64 (rr_transaction_index raw) \<noteq> Inr (of_nat i)) E_receipts
    (bindE (decode_logs 0 (rr_logs raw)) (\<lambda>logs.
       Inr \<lparr>rc_tx_hash = hash, rc_block_hash = expected_block_hash, rc_tx_index = of_nat i,
            rc_status = status, rc_logs = logs\<rparr>)))))"

text \<open>\<open>byHash\<close>: a later row replaces an earlier one of the same hash.\<close>

fun align_rows :: "(string \<rightharpoonup> raw_receipt) \<Rightarrow> nat \<Rightarrow> transaction list \<Rightarrow> string \<Rightarrow> receipt list res" where
  "align_rows by_hash i [] block_hash = Inr []"
| "align_rows by_hash i (tx # txs) block_hash =
     (case by_hash (tx_hash tx) of
        None \<Rightarrow> Inl E_receipts
      | Some row \<Rightarrow>
          bindE (decode_receipt row i block_hash) (\<lambda>r.
          bindE (align_rows by_hash (i + 1) txs block_hash) (\<lambda>rs. Inr (r # rs))))"

definition align_receipts :: "raw_receipt list \<Rightarrow> transaction list \<Rightarrow> string \<Rightarrow> receipt list res" where
  "align_receipts rows txs block_hash =
     guardE (length rows \<noteq> length txs) E_receipts
       (align_rows (map_of (rev (map (\<lambda>row. (to_lower (rr_transaction_hash row), row)) rows)))
          0 txs block_hash)"

text \<open>
  The shapes of a receipts answer that \<open>unmarshalReceiptRows\<close> tells apart: nothing or
  \<open>null\<close>, an array, or an object whose \<open>receipts\<close> may be missing; a decoding error of the
  array or the object is the \<open>Inl\<close>.
\<close>

datatype receipts_json = J_empty | J_array "raw_receipt list res" | J_object "raw_receipt list option res"

fun unmarshal_receipt_rows :: "receipts_json \<Rightarrow> raw_receipt list res" where
  "unmarshal_receipt_rows J_empty = Inl E_receipts"
| "unmarshal_receipt_rows (J_array rows) = rows"
| "unmarshal_receipt_rows (J_object wrapped) =
     bindE wrapped (\<lambda>w. case w of None \<Rightarrow> Inl E_receipts | Some rows \<Rightarrow> Inr rows)"

section \<open>The fetcher\<close>

datatype receipt_params = P_quantity string | P_block_number string

record fetcher =
  fx_method :: string
  fx_batch :: bool
  fx_probed :: bool
  fx_block_method :: bool

text \<open>
  What the node answers: a block by number, all receipts of a block by method and parameters,
  both in one batch, and one receipt by transaction hash.
\<close>

record node =
  nd_block :: "string \<Rightarrow> raw_block res"
  nd_receipts :: "string \<Rightarrow> receipt_params \<Rightarrow> receipts_json res"
  nd_batch :: "string \<Rightarrow> string \<Rightarrow> receipt_params \<Rightarrow> (raw_block \<times> receipts_json) res"
  nd_receipt :: "string \<Rightarrow> raw_receipt res"

definition receipt_method_eth_block :: string where
  "receipt_method_eth_block = ''eth_getBlockReceipts''"
definition receipt_method_alchemy :: string where
  "receipt_method_alchemy = ''alchemy_getTransactionReceipts''"

definition new_receipt_fetcher_mode :: "string \<Rightarrow> bool \<Rightarrow> fetcher" where
  "new_receipt_fetcher_mode method batch =
     \<lparr>fx_method = (if method = [] then receipt_method_eth_block else method), fx_batch = batch,
      fx_probed = False, fx_block_method = False\<rparr>"

definition receipt_method :: "fetcher \<Rightarrow> string" where
  "receipt_method f = (if fx_method f = [] then receipt_method_eth_block else fx_method f)"

definition receipt_params_for :: "fetcher \<Rightarrow> u64 \<Rightarrow> receipt_params" where
  "receipt_params_for f number =
     (if receipt_method f = receipt_method_alchemy then P_block_number (hex_quantity number)
      else P_quantity (hex_quantity number))"

definition load_receipts :: "node \<Rightarrow> fetcher \<Rightarrow> u64 \<Rightarrow> raw_receipt list res" where
  "load_receipts nd f number =
     bindE (nd_receipts nd (receipt_method f) (receipt_params_for f number)) unmarshal_receipt_rows"

definition probe :: "node \<Rightarrow> u64 \<Rightarrow> fetcher \<Rightarrow> bool \<times> fetcher" where
  "probe nd number f =
     (if fx_probed f then (fx_block_method f, f)
      else let ok = is_ok (load_receipts nd f number)
           in (ok, f\<lparr>fx_probed := True, fx_block_method := ok\<rparr>))"

definition assemble_block :: "u64 \<Rightarrow> raw_block \<Rightarrow> receipts_json \<Rightarrow> block_batch res" where
  "assemble_block number raw receipt_raw =
     bindE (decode_block raw) (\<lambda>block.
     guardE (bb_number block \<noteq> number) E_block
    (bindE (unmarshal_receipt_rows receipt_raw) (\<lambda>rows.
     bindE (align_receipts rows (bb_transactions block) (bb_hash block)) (\<lambda>receipts.
       Inr (block\<lparr>bb_receipts := receipts\<rparr>)))))"

definition fetch_with_batch :: "node \<Rightarrow> fetcher \<Rightarrow> u64 \<Rightarrow> block_batch res" where
  "fetch_with_batch nd f number =
     bindE (nd_batch nd (hex_quantity number) (receipt_method f) (receipt_params_for f number))
       (\<lambda>(raw, receipt_raw). assemble_block number raw receipt_raw)"

definition fetch_with_pair :: "node \<Rightarrow> fetcher \<Rightarrow> u64 \<Rightarrow> block_batch res" where
  "fetch_with_pair nd f number =
     bindE (nd_block nd (hex_quantity number)) (\<lambda>raw.
     bindE (nd_receipts nd (receipt_method f) (receipt_params_for f number)) (\<lambda>receipt_raw.
       assemble_block number raw receipt_raw))"

fun fetch_individually :: "node \<Rightarrow> nat \<Rightarrow> transaction list \<Rightarrow> string \<Rightarrow> receipt list res" where
  "fetch_individually nd i [] block_hash = Inr []"
| "fetch_individually nd i (tx # txs) block_hash =
     bindE (nd_receipt nd (tx_hash tx)) (\<lambda>row.
     bindE (decode_receipt row i block_hash) (\<lambda>r.
     guardE (rc_tx_hash r \<noteq> tx_hash tx) E_receipts
       (bindE (fetch_individually nd (i + 1) txs block_hash) (\<lambda>rs. Inr (r # rs)))))"

definition fetch_block :: "node \<Rightarrow> fetcher \<Rightarrow> u64 \<Rightarrow> block_batch res" where
  "fetch_block nd f number =
     guardE (\<not> fx_probed f) E_probe
       (if fx_block_method f
        then (if fx_batch f then fetch_with_batch nd f number else fetch_with_pair nd f number)
        else bindE (nd_block nd (hex_quantity number)) (\<lambda>raw.
             bindE (decode_block raw) (\<lambda>block.
             guardE (bb_number block \<noteq> number) E_block
               (bindE (fetch_individually nd 0 (bb_transactions block) (bb_hash block)) (\<lambda>receipts.
                  Inr (block\<lparr>bb_receipts := receipts\<rparr>))))))"

section \<open>Facts about the scalars\<close>

lemma normalize_fixed_hex_canonical:
  assumes "normalize_fixed_hex v n = Inr h"
  shows "canonical_hex n h" and "h = to_lower (trim_space v)"
proof -
  from assms have h: "h = to_lower (trim_space v)" "has_prefix h ''0x''" "length h = 2 + n * 2"
    "is_ok (hex_decode (drop 2 h))"
    by (auto simp: normalize_fixed_hex_def Let_def res_simps)
  show "h = to_lower (trim_space v)" by (rule h(1))
  have d: "h = ''0x'' @ drop 2 h" using has_prefix_drop [OF h(2)] by (simp add: numeral_2_eq_2)
  have "list_all is_hex_char (drop 2 h)" using h(4) by (simp add: hex_decode_iff)
  then have "all_lower_hex (to_lower (drop 2 h))" by (rule hex_to_lower)
  moreover have "to_lower (drop 2 h) = drop 2 h" using h(1) by (simp add: to_lower_drop [symmetric])
  ultimately have "all_lower_hex (drop 2 h)" by simp
  moreover have "length (drop 2 h) = 2 * n" using h(3) by simp
  ultimately show "canonical_hex n h" unfolding canonical_hex_def using d by blast
qed

lemma plain_lower:
  assumes "plain_text (to_lower s)"
  shows "plain_text s"
proof -
  have b: "CHR 0x21 \<le> CHR ''A''" "CHR ''Z'' \<le> CHR 0x7E" by code_simp+
  have c: "CHR 0x21 \<le> c \<and> c \<le> CHR 0x7E" if "CHR 0x21 \<le> lower_char c \<and> lower_char c \<le> CHR 0x7E" for c
  proof (cases "CHR ''A'' \<le> c \<and> c \<le> CHR ''Z''")
    case True
    from order_trans [OF b(1) conjunct1 [OF this]] order_trans [OF conjunct2 [OF this] b(2)]
    show ?thesis by (rule conjI)
  next
    case False
    have "lower_char c = c" unfolding lower_char_def by (rule if_not_P [OF False])
    from that [unfolded this] show ?thesis .
  qed
  show ?thesis
    unfolding plain_text_def
  proof
    fix x assume "x \<in> set s"
    then have "lower_char x \<in> set (to_lower s)" by (simp add: to_lower_def)
    then show "CHR 0x21 \<le> x \<and> x \<le> CHR 0x7E"
      using assms c [of x] unfolding plain_text_def by blast
  qed
qed

lemma decode_receipt_Inr:
  assumes "decode_receipt row i bh = Inr r"
  shows "normalize_fixed_hex (rr_transaction_hash row) 32 = Inr (rc_tx_hash r)"
    and "rc_block_hash r = bh" "rc_tx_index r = of_nat i" "\<not> 1 < rc_status r"
    and "decode_logs 0 (rr_logs row) = Inr (rc_logs r)"
  using assms by (cases "parse_hex_uint64 (rr_status row)"; auto simp: decode_receipt_def res_simps)+

lemma row_hash_found:
  assumes "to_lower (rr_transaction_hash row) = h" and "canonical_hash h"
    and "decode_receipt row i b = Inr r"
  shows "rc_tx_hash r = h"
proof -
  note n = decode_receipt_Inr(1) [OF assms(3)]
  have "plain_text (rr_transaction_hash row)"
    using canonical_plain [OF assms(2)] assms(1) plain_lower by blast
  then show ?thesis using normalize_fixed_hex_canonical(2) [OF n] assms(1) by simp
qed

lemma nat_of_digits_snoc: "nat_of_digits b a (s @ [c]) = b * nat_of_digits b a s + hex_val c"
  by (induction s arbitrary: a) simp_all

lemma hex_of_nat_digits: "list_all is_hex_char (hex_of_nat n) \<and> hex_of_nat n \<noteq> [] \<and>
    all_lower_hex (hex_of_nat n) \<and> nat_of_digits 16 0 (hex_of_nat n) = n"
proof (induction n rule: hex_of_nat.induct)
  case (1 n)
  have d: "lower_hex_char (hex_digit m)" "is_hex_char (hex_digit m)" "hex_val (hex_digit m) = m" if "m < 16" for m
    using that hex_digit_lower_hex [of m] lower_hex_char_hex [of "hex_digit m"] hex_val_digit [of m] by simp_all
  show ?case
  proof (cases "n < 16")
    case True
    then have "hex_of_nat n = [hex_digit n]" by (subst hex_of_nat.simps) simp
    with True d [of n] show ?thesis by simp
  next
    case False
    with 1 d [of "n mod 16"] show ?thesis by (simp add: hex_of_nat.simps [of n] nat_of_digits_snoc)
  qed
qed

lemma parse_hex_quantity: "parse_hex_uint64 (hex_quantity v) = Inr v"
proof -
  have p: "plain_text (hex_quantity v)"
    using all_lower_hex_plain [of "hex_of_nat (unat v)"] hex_of_nat_digits [of "unat v"]
    by (auto simp: hex_quantity_def plain_text_def)
  have b: "unat v < 2 ^ 64" using unsigned_less [of v, where 'a = nat] by simp
  show ?thesis
    using p b hex_of_nat_digits [of "unat v"]
    by (simp add: parse_hex_uint64_def hex_quantity_def trim_prefix_def has_prefix_def parse_uint_16_def Let_def)
qed

section \<open>Well-formed blocks\<close>

text \<open>
  A block as the rest of the program may assume it: canonical hashes, and for every
  transaction the receipt at its position, with its hash, its index and the block's hash.
\<close>

definition receipt_for :: "string \<Rightarrow> nat \<Rightarrow> transaction \<Rightarrow> receipt \<Rightarrow> bool" where
  "receipt_for block_hash i tx r \<longleftrightarrow> canonical_hash (tx_hash tx) \<and> tx_index tx = of_nat i \<and>
     rc_tx_hash r = tx_hash tx \<and> rc_tx_index r = of_nat i \<and> rc_block_hash r = block_hash \<and>
     (rc_status r = 0 \<or> rc_status r = 1) \<and>
     (\<forall>j<length (rc_logs r). canonical_address (lg_address (rc_logs r ! j)) \<and>
        lg_receipt_log_index (rc_logs r ! j) = of_nat j \<and>
        (\<forall>t\<in>set (lg_topics (rc_logs r ! j)). canonical_hash t))"

definition block_ok :: "block_batch \<Rightarrow> bool" where
  "block_ok b \<longleftrightarrow> canonical_hash (bb_hash b) \<and> canonical_hash (bb_parent_hash b) \<and>
     length (bb_receipts b) = length (bb_transactions b) \<and>
     (\<forall>i<length (bb_transactions b). receipt_for (bb_hash b) i (bb_transactions b ! i) (bb_receipts b ! i))"

definition txs_ok :: "nat \<Rightarrow> transaction list \<Rightarrow> bool" where
  "txs_ok i txs \<longleftrightarrow> (\<forall>k<length txs. canonical_hash (tx_hash (txs ! k)) \<and> tx_index (txs ! k) = of_nat (i + k))"

definition receipts_ok :: "string \<Rightarrow> nat \<Rightarrow> transaction list \<Rightarrow> receipt list \<Rightarrow> bool" where
  "receipts_ok bh i txs rs \<longleftrightarrow> length rs = length txs \<and>
     (\<forall>k<length txs. receipt_for bh (i + k) (txs ! k) (rs ! k))"

lemma all_nth_Cons: "(\<forall>k<Suc n. P k) \<longleftrightarrow> P 0 \<and> (\<forall>k<n. P (Suc k))"
  using less_Suc_eq_0_disj by auto

lemma txs_ok_Cons [simp]:
  "txs_ok i (tx # txs) \<longleftrightarrow> canonical_hash (tx_hash tx) \<and> tx_index tx = of_nat i \<and> txs_ok (i + 1) txs"
  by (simp add: txs_ok_def all_nth_Cons ac_simps)

lemma receipts_ok_Cons [simp]:
  "receipts_ok bh i (tx # txs) (r # rs) \<longleftrightarrow> receipt_for bh i tx r \<and> receipts_ok bh (i + 1) txs rs"
  by (auto simp: receipts_ok_def all_nth_Cons)

lemma decode_transactions_ok: "decode_transactions i raws = Inr txs \<Longrightarrow> txs_ok i txs"
proof (induction raws arbitrary: i txs)
  case Nil
  then show ?case by (simp add: txs_ok_def)
next
  case (Cons raw raws)
  then obtain t ts where t: "decode_transaction i raw = Inr t" "decode_transactions (i + 1) raws = Inr ts"
    "txs = t # ts" by (auto simp: res_simps)
  from t(1) have "tx_index t = of_nat i \<and> (\<exists>v. normalize_fixed_hex v 32 = Inr (tx_hash t))"
    by (auto simp: decode_transaction_def res_simps split: option.splits)
  with Cons.IH [OF t(2)] t(3) show ?case by (auto dest: normalize_fixed_hex_canonical(1))
qed

lemma decode_block_ok:
  "decode_block raw = Inr b \<Longrightarrow> canonical_hash (bb_hash b) \<and> canonical_hash (bb_parent_hash b) \<and>
     txs_ok 0 (bb_transactions b)"
  by (auto simp: decode_block_def res_simps dest: normalize_fixed_hex_canonical(1) decode_transactions_ok)

lemma decode_logs_ok:
  "decode_logs i raws = Inr ls \<Longrightarrow> \<forall>j<length ls. canonical_address (lg_address (ls ! j)) \<and>
     lg_receipt_log_index (ls ! j) = of_nat (i + j) \<and> (\<forall>t\<in>set (lg_topics (ls ! j)). canonical_hash t)"
proof (induction raws arbitrary: i ls)
  case (Cons raw raws)
  then obtain x xs where x: "decode_log i raw = Inr x" "decode_logs (i + 1) raws = Inr xs" "ls = x # xs"
    by (auto simp: res_simps)
  from x(1) obtain v ts where v: "normalize_fixed_hex v 20 = Inr (lg_address x)"
    "lg_receipt_log_index x = of_nat i" "mapE (\<lambda>t. normalize_fixed_hex t 32) ts = Inr (lg_topics x)"
    by (auto simp: decode_log_def res_simps)
  have "\<forall>t\<in>set (lg_topics x). canonical_hash t"
    using v(3) by (auto simp: mapE_eq_Inr list_all2_conv_all_nth in_set_conv_nth
        dest!: normalize_fixed_hex_canonical(1))
  with v(1,2) Cons.IH [OF x(2)] x(3) normalize_fixed_hex_canonical(1) show ?case
    by (auto simp: all_nth_Cons ac_simps)
qed simp

lemma decode_receipt_for:
  assumes "decode_receipt row i bh = Inr r" and "rc_tx_hash r = tx_hash tx"
    and "canonical_hash (tx_hash tx)" and "tx_index tx = of_nat i"
  shows "receipt_for bh i tx r"
proof -
  note d = decode_receipt_Inr(2-) [OF assms(1)]
  have "rc_status r = 0 \<or> rc_status r = 1"
    using d(3) by (auto simp: not_less word_le_nat_alt word_unat_eq_iff le_Suc_eq)
  with d decode_logs_ok [OF d(4)] assms(2-4) show ?thesis by (simp add: receipt_for_def)
qed

lemma align_rows_ok:
  "\<lbrakk>align_rows by_hash i txs bh = Inr rs; txs_ok i txs;
    \<And>h row. by_hash h = Some row \<Longrightarrow> to_lower (rr_transaction_hash row) = h\<rbrakk> \<Longrightarrow> receipts_ok bh i txs rs"
proof (induction txs arbitrary: i rs)
  case Nil
  then show ?case by (simp add: receipts_ok_def)
next
  case (Cons tx txs)
  then obtain row r rest where r: "by_hash (tx_hash tx) = Some row" "decode_receipt row i bh = Inr r"
    "align_rows by_hash (i + 1) txs bh = Inr rest" "rs = r # rest"
    by (auto simp: res_simps split: option.splits)
  have "rc_tx_hash r = tx_hash tx"
    using row_hash_found [OF Cons.prems(3) [OF r(1)] _ r(2)] Cons.prems(2) by simp
  then have "receipt_for bh i tx r" using decode_receipt_for [OF r(2)] Cons.prems(2) by simp
  with Cons.IH [OF r(3)] Cons.prems r(4) show ?case by simp
qed

lemma fetch_individually_ok:
  "\<lbrakk>fetch_individually nd i txs bh = Inr rs; txs_ok i txs\<rbrakk> \<Longrightarrow> receipts_ok bh i txs rs"
proof (induction txs arbitrary: i rs)
  case Nil
  then show ?case by (simp add: receipts_ok_def)
next
  case (Cons tx txs)
  then obtain row r rest where r: "decode_receipt row i bh = Inr r" "rc_tx_hash r = tx_hash tx"
    "fetch_individually nd (i + 1) txs bh = Inr rest" "rs = r # rest"
    by (auto simp: res_simps)
  then have "receipt_for bh i tx r" using decode_receipt_for [OF r(1,2)] Cons.prems(2) by simp
  with Cons.IH [OF r(3)] Cons.prems r(4) show ?case by simp
qed

lemma rows_by_hash:
  "map_of (rev (map (\<lambda>row. (to_lower (rr_transaction_hash row), row)) rows)) h = Some row \<Longrightarrow>
   to_lower (rr_transaction_hash row) = h"
  by (auto dest!: map_of_SomeD)

lemma block_okI:
  "\<lbrakk>decode_block raw = Inr b; receipts_ok (bb_hash b) 0 (bb_transactions b) rs\<rbrakk> \<Longrightarrow>
   block_ok (b\<lparr>bb_receipts := rs\<rparr>)"
  using decode_block_ok by (simp add: block_ok_def receipts_ok_def)

lemma assemble_block_ok:
  assumes "assemble_block number raw j = Inr b"
  shows "bb_number b = number \<and> block_ok b"
proof -
  from assms obtain b0 rows rs where d: "decode_block raw = Inr b0" "bb_number b0 = number"
    "align_receipts rows (bb_transactions b0) (bb_hash b0) = Inr rs" "b = b0\<lparr>bb_receipts := rs\<rparr>"
    by (auto simp: assemble_block_def res_simps)
  have "receipts_ok (bb_hash b0) 0 (bb_transactions b0) rs"
    using d(3) decode_block_ok [OF d(1)] rows_by_hash
    by (auto simp: align_receipts_def res_simps intro: align_rows_ok)
  with d block_okI [OF d(1)] show ?thesis by simp
qed

lemma fetch_block_ok:
  assumes "fetch_block nd f number = Inr b"
  shows "bb_number b = number \<and> block_ok b"
proof (cases "fx_block_method f")
  case True
  with assms obtain raw j where "assemble_block number raw j = Inr b"
    by (auto simp: fetch_block_def fetch_with_batch_def fetch_with_pair_def res_simps split: if_splits)
  then show ?thesis by (rule assemble_block_ok)
next
  case False
  with assms obtain raw b0 rs where d: "decode_block raw = Inr b0" "bb_number b0 = number"
    "fetch_individually nd 0 (bb_transactions b0) (bb_hash b0) = Inr rs" "b = b0\<lparr>bb_receipts := rs\<rparr>"
    by (auto simp: fetch_block_def res_simps)
  with block_okI [OF d(1)] fetch_individually_ok [OF d(3)] decode_block_ok [OF d(1)] show ?thesis by simp
qed

section \<open>The receipt modes agree\<close>

lemma align_individually:
  "\<lbrakk>txs_ok i txs; \<And>tx. tx \<in> set txs \<Longrightarrow> \<exists>row. by_hash (tx_hash tx) = Some row \<and>
      nd_receipt nd (tx_hash tx) = Inr row \<and> to_lower (rr_transaction_hash row) = tx_hash tx\<rbrakk> \<Longrightarrow>
   align_rows by_hash i txs bh = fetch_individually nd i txs bh"
proof (induction txs arbitrary: i)
  case (Cons tx txs)
  from Cons.prems(2) [of tx] obtain row where row: "by_hash (tx_hash tx) = Some row"
    "nd_receipt nd (tx_hash tx) = Inr row" "to_lower (rr_transaction_hash row) = tx_hash tx" by auto
  have IH: "align_rows by_hash (i + 1) txs bh = fetch_individually nd (i + 1) txs bh"
    using Cons by simp
  have "rc_tx_hash r = tx_hash tx" if "decode_receipt row i bh = Inr r" for r
    using row_hash_found [OF row(3) _ that] Cons.prems(1) by simp
  with row IH show ?case by (cases "decode_receipt row i bh") simp_all
qed simp

section \<open>Properties\<close>

text \<open>C34. A block that \<open>FetchBlock\<close> returns, in any of its modes, is the requested one, its hashes
  are canonical, and the receipt at every position belongs to the transaction at that position:
  same hash, same index, this block, status 0 or 1, logs numbered from 0 within the receipt.\<close>

theorem fetched_block_is_complete:
  assumes "fetch_block nd f number = Inr b"
  shows "bb_number b = number \<and> block_ok b"
  using assms by (rule fetch_block_ok)

text \<open>C35. When the node's single receipts are those of its block answer, reading the receipts one by
  one, in one batch or in two parallel calls gives the same block or the same error.\<close>

theorem receipt_modes_agree:
  assumes "nd_block nd (hex_quantity number) = Inr raw" and "decode_block raw = Inr b"
    and "nd_receipts nd (receipt_method f) (receipt_params_for f number) = Inr j"
    and "nd_batch nd (hex_quantity number) (receipt_method f) (receipt_params_for f number) = Inr (raw, j)"
    and "unmarshal_receipt_rows j = Inr rows" and "length rows = length (bb_transactions b)"
    and "\<And>tx. tx \<in> set (bb_transactions b) \<Longrightarrow> \<exists>row\<in>set rows. nd_receipt nd (tx_hash tx) = Inr row \<and>
      map_of (rev (map (\<lambda>row. (to_lower (rr_transaction_hash row), row)) rows)) (tx_hash tx) = Some row"
  shows "fetch_block nd (f\<lparr>fx_probed := True, fx_block_method := True\<rparr>) number =
    fetch_block nd (f\<lparr>fx_probed := True, fx_block_method := False\<rparr>) number"
proof -
  let ?m = "map_of (rev (map (\<lambda>row. (to_lower (rr_transaction_hash row), row)) rows))"
  have "txs_ok 0 (bb_transactions b)" using decode_block_ok [OF assms(2)] by simp
  then have a: "align_rows ?m 0 (bb_transactions b) (bb_hash b) =
      fetch_individually nd 0 (bb_transactions b) (bb_hash b)"
    by (rule align_individually) (use assms(7) rows_by_hash in blast)
  have m: "receipt_method (f\<lparr>fx_probed := True, fx_block_method := True\<rparr>) = receipt_method f"
    "receipt_params_for (f\<lparr>fx_probed := True, fx_block_method := True\<rparr>) number = receipt_params_for f number"
    by (simp_all add: receipt_method_def receipt_params_for_def)
  show ?thesis
    using assms(1-6) a
    by (cases "fx_batch f")
      (simp_all add: fetch_block_def fetch_with_batch_def fetch_with_pair_def m assemble_block_def
        align_receipts_def)
qed

text \<open>The first probe decides the mode for good: later probes of any block return the same answer
  and change nothing.\<close>

theorem probe_is_sticky:
  "probe nd' n' (snd (probe nd n f)) = (fst (probe nd n f), snd (probe nd n f)) \<and>
   fx_probed (snd (probe nd n f)) \<and> fx_block_method (snd (probe nd n f)) = fst (probe nd n f)"
  by (simp add: probe_def Let_def)

text \<open>The hexadecimal quantity of a 64-bit number parses back to that number.\<close>

theorem hex_quantity_roundtrip: "parse_hex_uint64 (hex_quantity v) = Inr v"
  by (rule parse_hex_quantity)

definition ex_hash :: "char \<Rightarrow> string" where "ex_hash c = ''0x'' @ replicate 64 c"

definition ex_raw_block :: raw_block where
  "ex_raw_block = \<lparr>rb_number = ''0x7'', rb_hash = ex_hash CHR ''a'', rb_parent_hash = ex_hash CHR ''b'',
     rb_timestamp = ''0x64'', rb_transactions = [\<lparr>rt_hash = ex_hash CHR ''C'',
       rt_from = ''0x'' @ replicate 40 CHR ''1'', rt_to = [], rt_value = ''0x5'', rt_input = ''0x'',
       rt_transaction_index = ''0x0''\<rparr>]\<rparr>"

definition ex_raw_receipt :: raw_receipt where
  "ex_raw_receipt = \<lparr>rr_transaction_hash = ex_hash CHR ''C'', rr_block_hash = ex_hash CHR ''A'',
     rr_transaction_index = [], rr_status = ''0x1'', rr_logs = []\<rparr>"

definition ex_node :: node where
  "ex_node = \<lparr>nd_block = (\<lambda>q. Inr ex_raw_block), nd_receipts = (\<lambda>m p. Inr (J_array (Inr [ex_raw_receipt]))),
     nd_batch = (\<lambda>q m p. Inr (ex_raw_block, J_array (Inr [ex_raw_receipt]))),
     nd_receipt = (\<lambda>h. Inr ex_raw_receipt)\<rparr>"

definition ex_fetcher :: fetcher where
  "ex_fetcher = \<lparr>fx_method = [], fx_batch = True, fx_probed = True, fx_block_method = True\<rparr>"

definition ex_block :: block_batch where
  "ex_block = \<lparr>bb_number = 7, bb_timestamp = 100, bb_hash = ex_hash CHR ''a'',
     bb_parent_hash = ex_hash CHR ''b'', bb_chain_time = 100000000000,
     bb_transactions = [\<lparr>tx_hash = ex_hash CHR ''c'', tx_from = ''0x'' @ replicate 40 CHR ''1'', tx_to = [],
       tx_value = ''5'', tx_input = [], tx_index = 0\<rparr>],
     bb_receipts = [\<lparr>rc_tx_hash = ex_hash CHR ''c'', rc_block_hash = ex_hash CHR ''a'', rc_tx_index = 0,
       rc_status = 1, rc_logs = []\<rparr>]\<rparr>"

lemma ex_fetch: "fetch_block ex_node ex_fetcher 7 = Inr ex_block"
  by code_simp

theorem fetched_block_is_complete_witness: "block_ok ex_block"
  using fetched_block_is_complete [OF ex_fetch] by blast

theorem receipt_modes_agree_witness:
  "fetch_block ex_node (ex_fetcher\<lparr>fx_block_method := False\<rparr>) 7 = Inr ex_block"
proof -
  have n: "nd_block ex_node (hex_quantity 7) = Inr ex_raw_block"
    "nd_receipts ex_node (receipt_method ex_fetcher) (receipt_params_for ex_fetcher 7) = Inr (J_array (Inr [ex_raw_receipt]))"
    "nd_batch ex_node (hex_quantity 7) (receipt_method ex_fetcher) (receipt_params_for ex_fetcher 7) =
      Inr (ex_raw_block, J_array (Inr [ex_raw_receipt]))"
    by (simp_all add: ex_node_def)
  have d: "decode_block ex_raw_block = Inr (ex_block\<lparr>bb_receipts := []\<rparr>)" by code_simp
  have u: "unmarshal_receipt_rows (J_array (Inr [ex_raw_receipt])) = Inr [ex_raw_receipt]" by simp
  have h: "to_lower (rr_transaction_hash ex_raw_receipt) = ex_hash CHR ''c''" by code_simp
  have "fetch_block ex_node (ex_fetcher\<lparr>fx_probed := True, fx_block_method := True\<rparr>) 7 =
      fetch_block ex_node (ex_fetcher\<lparr>fx_probed := True, fx_block_method := False\<rparr>) 7"
    by (rule receipt_modes_agree [OF n(1) d n(2,3) u]) (use h in \<open>auto simp: ex_block_def ex_node_def\<close>)
  moreover have "ex_fetcher\<lparr>fx_probed := True, fx_block_method := True\<rparr> = ex_fetcher"
    "ex_fetcher\<lparr>fx_probed := True, fx_block_method := False\<rparr> = ex_fetcher\<lparr>fx_block_method := False\<rparr>"
    by (simp_all add: ex_fetcher_def)
  ultimately show ?thesis using ex_fetch by simp
qed

end
