(* ===== verification/Chain_Poller.thy ===== *)
theory Chain_Poller
  imports Chain_Receipts
begin

text \<open>
  \<open>internal/chain/poller.go\<close> and \<open>reorg.go\<close>: one tick of the scanner, and the loop around it.

  The remote side during a tick is a \<open>world\<close>: the answers the tick would get. The goroutines
  that prefetch the range fetch every number once and hand the results over in order, so the
  prefetch is \<open>fetch_block\<close> on the world's node; a cancelled context is one more fetch error. The store
  and the block handler are the record \<open>backend\<close> over an arbitrary state type; what the handler
  asks the outside during the tick is the environment \<open>wd_env\<close>. A failed save leaves the state as it is.
  \<open>time.Now\<close> is one reading per tick. The blocks a tick processed are returned as a list, of which the
  code returns the number. The channels of the prefetch are taken to fit into memory, and a head at the
  very top of 64 bits, where the counter of a range would wrap around, is left out (\<open>head_bounded\<close>).
\<close>

section \<open>Data\<close>

definition watermark_name :: string where "watermark_name = ''rh_4663''"
definition default_recent_block_offset :: u64 where "default_recent_block_offset = 10"

record watermark =
  wm_name :: string
  wm_last_block :: u64
  wm_last_hash :: string
  wm_updated_at :: time

record poller_config =
  pc_from_block :: u64
  pc_max_blocks_per_tick :: u64
  pc_lag_warn :: u64
  pc_skip_history_lag :: u64
  pc_poll_interval :: duration
  pc_fetch_mode :: string
  pc_receipt_method :: string

record 'e world =
  wd_head :: "string res"
  wd_node :: node
  wd_hash_at :: "string \<Rightarrow> string res"
  wd_load_error :: "err option"
  wd_save_error :: "watermark \<Rightarrow> err option"
  wd_now :: time
  wd_env :: 'e

record ('e, 's) backend =
  be_load :: "string \<Rightarrow> 's \<Rightarrow> (u64 \<times> string) option"
  be_save :: "watermark \<Rightarrow> 's \<Rightarrow> 's res"
  be_process :: "'e \<Rightarrow> block_batch \<Rightarrow> watermark \<Rightarrow> 's \<Rightarrow> 's \<times> err option"

section \<open>Construction\<close>

definition fetch_mode_batch :: string where "fetch_mode_batch = ''batch''"
definition fetch_mode_pair :: string where "fetch_mode_pair = ''pair''"

text \<open>\<open>NewPoller\<close>: the checked configuration with its defaults, and the fetcher of its mode.\<close>

definition new_poller :: "poller_config \<Rightarrow> (poller_config \<times> fetcher) res" where
  "new_poller cfg =
     guardE (pc_max_blocks_per_tick cfg = 0 \<or> pc_poll_interval cfg \<le> 0) E_config
       (let c = cfg\<lparr>pc_lag_warn := (if pc_lag_warn cfg = 0 then 50 else pc_lag_warn cfg),
                    pc_fetch_mode := (if pc_fetch_mode cfg = [] then fetch_mode_batch else pc_fetch_mode cfg),
                    pc_receipt_method := (if pc_receipt_method cfg = [] then receipt_method_eth_block
                                          else pc_receipt_method cfg)\<rparr>
        in guardE (pc_fetch_mode c \<noteq> fetch_mode_batch \<and> pc_fetch_mode c \<noteq> fetch_mode_pair) E_config
          (guardE (pc_receipt_method c \<noteq> receipt_method_eth_block \<and>
                   pc_receipt_method c \<noteq> receipt_method_alchemy) E_config
             (Inr (c, new_receipt_fetcher_mode (pc_receipt_method c) (pc_fetch_mode c = fetch_mode_batch)))))"

section \<open>Start block\<close>

definition resolve_start_block :: "u64 \<Rightarrow> u64 \<Rightarrow> u64" where
  "resolve_start_block head configured =
     (if configured \<noteq> 0 then configured
      else if head \<le> default_recent_block_offset then 0
      else head - default_recent_block_offset)"

definition skip_history_start :: "u64 \<Rightarrow> u64 \<Rightarrow> u64 \<Rightarrow> u64 option" where
  "skip_history_start head last_block threshold =
     (if threshold = 0 \<or> head \<le> last_block then None
      else if head - last_block \<le> threshold then None
      else let start = resolve_start_block head 0
           in if start \<le> last_block then None else Some start)"

section \<open>Reorganisations (reorg.go)\<close>

definition resolve_canonical_parent :: "'e world \<Rightarrow> block_batch \<Rightarrow> watermark res" where
  "resolve_canonical_parent w block =
     (if bb_number block = 0
      then Inr \<lparr>wm_name = watermark_name, wm_last_block = 0, wm_last_hash = bb_parent_hash block,
                wm_updated_at = zero_time\<rparr>
      else bindE (wd_hash_at w (hex_quantity (bb_number block - 1))) (\<lambda>raw.
           bindE (normalize_fixed_hex raw 32) (\<lambda>hash.
           guardE (hash \<noteq> bb_parent_hash block) E_reorg
             (Inr \<lparr>wm_name = watermark_name, wm_last_block = bb_number block - 1, wm_last_hash = hash,
                   wm_updated_at = zero_time\<rparr>))))"

section \<open>One tick\<close>

definition save_watermark :: "('e, 's) backend \<Rightarrow> 'e world \<Rightarrow> watermark \<Rightarrow> 's \<Rightarrow> 's res" where
  "save_watermark be w wm s =
     (case wd_save_error w wm of Some e \<Rightarrow> Inl e | None \<Rightarrow> be_save be wm s)"

text \<open>What happens before a fetched block is processed: a parent hash that differs is resolved.\<close>

definition check_parent ::
  "('e, 's) backend \<Rightarrow> 'e world \<Rightarrow> watermark \<Rightarrow> u64 \<Rightarrow> block_batch \<Rightarrow> 's \<Rightarrow> 's res" where
  "check_parent be w state number block s =
     (if wm_last_hash state \<noteq> [] \<and> number = wm_last_block state + 1 \<and>
         bb_parent_hash block \<noteq> wm_last_hash state
      then bindE (resolve_canonical_parent w block) (\<lambda>reorg_state.
             save_watermark be w (reorg_state\<lparr>wm_updated_at := wd_now w\<rparr>) s)
      else Inr s)"

fun process_range ::
  "('e, 's) backend \<Rightarrow> fetcher \<Rightarrow> 'e world \<Rightarrow> watermark \<Rightarrow> u64 \<Rightarrow> nat \<Rightarrow> 's \<Rightarrow> 's \<times> block_batch list \<times> err option" where
  "process_range be f w state number 0 s = (s, [], None)"
| "process_range be f w state number (Suc k) s =
     (case fetch_block (wd_node w) f number of
        Inl e \<Rightarrow> (s, [], Some e)
      | Inr block \<Rightarrow>
        (case check_parent be w state number block s of
           Inl e \<Rightarrow> (s, [], Some e)
         | Inr s1 \<Rightarrow>
           (let next_state = \<lparr>wm_name = watermark_name, wm_last_block = bb_number block,
                  wm_last_hash = bb_hash block, wm_updated_at = wd_now w\<rparr>
            in case be_process be (wd_env w) block next_state s1 of
                 (s2, Some e) \<Rightarrow> (s2, [], Some e)
               | (s2, None) \<Rightarrow>
                   (case process_range be f w next_state (number + 1) k s2 of
                      (s3, blocks, e) \<Rightarrow> (s3, block # blocks, e)))))"

text \<open>The part of \<open>PollOnce\<close> after the watermark is known.\<close>

definition poll_from ::
  "poller_config \<Rightarrow> ('e, 's) backend \<Rightarrow> fetcher \<Rightarrow> 'e world \<Rightarrow> u64 \<Rightarrow> watermark \<Rightarrow> 's \<Rightarrow> 's \<times> block_batch list \<times> err option" where
  "poll_from cfg be f w head state s =
     (let next = (if wm_last_hash state = [] then wm_last_block state else wm_last_block state + 1)
      in if head < next then (s, [], None)
         else let last = min head (next + pc_max_blocks_per_tick cfg - 1)
              in if last < next then (s, [], None)
                 else process_range be f w state next (Suc (unat (last - next))) s)"

definition poll_once ::
  "poller_config \<Rightarrow> ('e, 's) backend \<Rightarrow> fetcher \<Rightarrow> 'e world \<Rightarrow> 's \<Rightarrow> 's \<times> block_batch list \<times> err option" where
  "poll_once cfg be f w s =
     (case wd_load_error w of Some e \<Rightarrow> (s, [], Some e) | None \<Rightarrow>
     (case bindE (wd_head w) parse_hex_uint64 of Inl e \<Rightarrow> (s, [], Some e) | Inr head \<Rightarrow>
     (case be_load be watermark_name s of
        None \<Rightarrow>
          (let state = \<lparr>wm_name = watermark_name, wm_last_block = resolve_start_block head (pc_from_block cfg),
                 wm_last_hash = [], wm_updated_at = wd_now w\<rparr>
           in case save_watermark be w state s of
                Inl e \<Rightarrow> (s, [], Some e)
              | Inr s1 \<Rightarrow> poll_from cfg be f w head state s1)
      | Some (last_block, last_hash) \<Rightarrow>
          (case skip_history_start head last_block (pc_skip_history_lag cfg) of
             Some start \<Rightarrow>
               (let state = \<lparr>wm_name = watermark_name, wm_last_block = start, wm_last_hash = [],
                      wm_updated_at = wd_now w\<rparr>
                in case save_watermark be w state s of
                     Inl e \<Rightarrow> (s, [], Some e)
                   | Inr s1 \<Rightarrow> poll_from cfg be f w head state s1)
           | None \<Rightarrow>
               poll_from cfg be f w head
                 \<lparr>wm_name = watermark_name, wm_last_block = last_block, wm_last_hash = last_hash,
                  wm_updated_at = zero_time\<rparr> s))))"

section \<open>The loop\<close>

text \<open>
  The worlds are those of successive ticks; the result lists the processed blocks and the
  pauses between the ticks. The loop ends when the context is cancelled: here, when the worlds
  are used up. It is not left with an error, but a panic of the block handler ends the process.
\<close>

definition first_backoff :: duration where "first_backoff = 200 * millisecond"
definition max_backoff :: duration where "max_backoff = 5 * second"

fun run_loop ::
  "poller_config \<Rightarrow> ('e, 's) backend \<Rightarrow> fetcher \<Rightarrow> 'e world list \<Rightarrow> duration \<Rightarrow> 's \<Rightarrow>
   's \<times> block_batch list \<times> duration list" where
  "run_loop cfg be f [] backoff s = (s, [], [])"
| "run_loop cfg be f (w # ws) backoff s =
     (case poll_once cfg be f w s of
        (s1, blocks, Some e) \<Rightarrow>
          if e = E_panic then (s1, blocks, [])
          else (case run_loop cfg be f ws (min (backoff * 2) max_backoff) s1 of
             (s2, later, pauses) \<Rightarrow> (s2, blocks @ later, backoff # pauses))
      | (s1, blocks, None) \<Rightarrow>
          (case run_loop cfg be f ws first_backoff s1 of
             (s2, later, pauses) \<Rightarrow>
               (s2, blocks @ later, if blocks = [] then pc_poll_interval cfg # pauses else pauses)))"

text \<open>\<open>Run\<close>: the first world answers the chain head and the receipts probe, the others the ticks.\<close>

definition run ::
  "poller_config \<Rightarrow> ('e, 's) backend \<Rightarrow> fetcher \<Rightarrow> 'e world \<Rightarrow> 'e world list \<Rightarrow> 's \<Rightarrow>
   ('s \<times> block_batch list \<times> duration list) res" where
  "run cfg be f w ws s =
     bindE (bindE (wd_head w) parse_hex_uint64) (\<lambda>head.
       Inr (run_loop cfg be (snd (probe (wd_node w) head f)) ws first_backoff s))"


section \<open>Processing a range\<close>

definition numbered_from :: "nat \<Rightarrow> block_batch list \<Rightarrow> bool" where
  "numbered_from n bs \<longleftrightarrow> map (\<lambda>b. unat (bb_number b)) bs = [n..<n + length bs]"

lemma numbered_from_Nil [simp]: "numbered_from n []"
  by (simp add: numbered_from_def)

lemma numbered_from_Cons [simp]:
  "numbered_from n (b # bs) \<longleftrightarrow> unat (bb_number b) = n \<and> numbered_from (Suc n) bs"
proof -
  have "[n..<n + length (b # bs)] = n # [Suc n..<Suc n + length bs]"
    by (simp add: upt_conv_Cons del: upt_Suc)
  then show ?thesis by (auto simp: numbered_from_def simp del: upt_Suc)
qed

lemma numbered_from_append:
  "numbered_from n (bs @ cs) \<longleftrightarrow> numbered_from n bs \<and> numbered_from (n + length bs) cs"
  by (induction bs arbitrary: n) auto

lemma unat_Suc_word: "unat (n :: u64) + 1 < 2 ^ 64 \<Longrightarrow> unat (n + 1) = Suc (unat n)"
  by (simp add: unat_word_ariths)

text \<open>The successful start of a range: its first block is fetched, its parent checked, and processed.\<close>

lemma process_range_Cons:
  assumes "process_range be f w st n k s = (s', b # bs, e)"
  obtains k1 s1 s2 where "k = Suc k1" "fetch_block (wd_node w) f n = Inr b"
    "check_parent be w st n b s = Inr s1"
    "be_process be (wd_env w) b \<lparr>wm_name = watermark_name, wm_last_block = bb_number b,
       wm_last_hash = bb_hash b, wm_updated_at = wd_now w\<rparr> s1 = (s2, None)"
    "process_range be f w \<lparr>wm_name = watermark_name, wm_last_block = bb_number b,
       wm_last_hash = bb_hash b, wm_updated_at = wd_now w\<rparr> (n + 1) k1 s2 = (s', bs, e)"
  using assms
  by (cases k) (auto simp: Let_def split: sum.splits prod.splits option.splits)

lemma process_range_blocks:
  "\<lbrakk>process_range be f w st n k s = (s', bs, e); unat n + k < 2 ^ 64\<rbrakk> \<Longrightarrow>
   numbered_from (unat n) bs \<and> length bs \<le> k \<and> (\<forall>b\<in>set bs. block_ok b) \<and>
   (e = None \<longleftrightarrow> length bs = k)"
proof (induction bs arbitrary: st n k s)
  case Nil
  then show ?case
    by (cases k) (auto simp: Let_def split: sum.splits prod.splits option.splits)
next
  case (Cons b bs)
  from Cons.prems(1) obtain k1 s1 s2 st1 where k: "k = Suc k1" and b: "fetch_block (wd_node w) f n = Inr b"
    and r: "process_range be f w st1 (n + 1) k1 s2 = (s', bs, e)"
    by (rule process_range_Cons)
  have n: "unat (n + 1) = Suc (unat n)" using Cons.prems(2) k by (intro unat_Suc_word) simp
  from Cons.IH [OF r] n Cons.prems(2) k fetch_block_ok [OF b] show ?case by auto
qed

section \<open>The watermark\<close>

text \<open>The number of the next block that a saved watermark asks for, without wrap-around.\<close>

fun next_block :: "u64 \<times> string \<Rightarrow> nat" where
  "next_block (l, h) = (if h = [] then unat l else Suc (unat l))"

text \<open>A run in which no tick fails.\<close>

fun quiet :: "poller_config \<Rightarrow> ('e, 's) backend \<Rightarrow> fetcher \<Rightarrow> 'e world list \<Rightarrow> 's \<Rightarrow> bool" where
  "quiet cfg be f [] s = True"
| "quiet cfg be f (w # ws) s = (case poll_once cfg be f w s of (s1, bs, e) \<Rightarrow> e = None \<and> quiet cfg be f ws s1)"

text \<open>The words of a tick stay clear of the top of the range.\<close>

definition head_bounded :: "poller_config \<Rightarrow> 'x world \<Rightarrow> bool" where
  "head_bounded cfg w \<longleftrightarrow> (case bindE (wd_head w) parse_hex_uint64 of Inl _ \<Rightarrow> True
     | Inr head \<Rightarrow> unat head + unat (pc_max_blocks_per_tick cfg) < 2 ^ 64)"

text \<open>
  The documented skip: when the head is more than the configured number of blocks ahead of the last
  processed block \<open>l\<close>, scanning goes on ten blocks behind the head, if that is ahead of \<open>l\<close>.
\<close>

definition skip_target :: "poller_config \<Rightarrow> 'e world \<Rightarrow> nat \<Rightarrow> nat option" where
  "skip_target cfg w l =
     (case bindE (wd_head w) parse_hex_uint64 of
        Inl _ \<Rightarrow> None
      | Inr head \<Rightarrow>
          if pc_skip_history_lag cfg \<noteq> 0 \<and> l + unat (pc_skip_history_lag cfg) < unat head \<and> l + 10 < unat head
          then Some (unat head - 10) else None)"

lemma skip_history_start_Some:
  assumes "skip_history_start head l thr = Some start"
  shows "thr \<noteq> 0" "l < start" "unat start = unat head - 10" "unat l + unat thr < unat head" "unat l + 10 < unat head"
proof -
  have a: "thr \<noteq> 0" "\<not> head \<le> l" "\<not> head - l \<le> thr" "start = resolve_start_block head 0" "l < start"
    using assms by (auto simp: skip_history_start_def Let_def not_le split: if_splits)
  then show "thr \<noteq> 0" "l < start" by simp_all
  have "unat (head - l) = unat head - unat l" using a(2) by (simp add: unat_sub word_le_nat_alt)
  then show "unat l + unat thr < unat head" using a(2,3) by (simp add: word_le_nat_alt)
  have h: "\<not> head \<le> 10" "start = head - 10" using a(4,5)
    by (auto simp: resolve_start_block_def default_recent_block_offset_def split: if_splits)
  then show s: "unat start = unat head - 10" by (simp add: unat_sub word_le_nat_alt)
  show "unat l + 10 < unat head" using a(5) s h(1) by (simp add: word_less_nat_alt word_le_nat_alt)
qed

lemma skip_history_start_None:
  assumes "skip_history_start head l thr = None" and "thr \<noteq> 0"
  shows "unat head \<le> unat l + max (unat thr) 10"
proof (cases "head \<le> l \<or> head - l \<le> thr")
  case True
  then show ?thesis by (cases "head \<le> l") (auto simp: word_le_nat_alt unat_sub)
next
  case False
  then have "resolve_start_block head 0 \<le> l" using assms by (simp add: skip_history_start_def Let_def split: if_splits)
  then show ?thesis
    by (auto simp: resolve_start_block_def default_recent_block_offset_def word_le_nat_alt unat_sub split: if_splits)
qed

text \<open>
  Which block numbers a run may leave out: those between a block \<open>l\<close> and the target of a skip from
  \<open>l\<close> at some tick, and only if no other block between the two was processed either. \<open>covered\<close> says
  that \<open>ns\<close> are the numbers from \<open>a\<close> up to \<open>b\<close>, each once and in order, except for these.
\<close>

definition left_out :: "poller_config \<Rightarrow> 'e world list \<Rightarrow> nat \<Rightarrow> nat list \<Rightarrow> nat \<Rightarrow> bool" where
  "left_out cfg ws a ns n \<longleftrightarrow> (\<exists>w\<in>set ws. \<exists>l\<in>{..n}. a \<le> Suc l \<and>
     (case skip_target cfg w l of None \<Rightarrow> False | Some start \<Rightarrow> n < start \<and> (\<forall>m\<in>set ns. m \<le> l \<or> start \<le> m)))"

definition covered :: "poller_config \<Rightarrow> 'e world list \<Rightarrow> nat \<Rightarrow> nat \<Rightarrow> nat list \<Rightarrow> bool" where
  "covered cfg ws a b ns \<longleftrightarrow> a \<le> b \<and> sorted_wrt (<) ns \<and> set ns \<subseteq> {a..<b} \<and>
     (\<forall>n\<in>{a..<b}. n \<in> set ns \<or> left_out cfg ws a ns n)"

lemma numbered_facts:
  assumes "numbered_from n bs"
  shows "sorted_wrt (<) (map (\<lambda>b. unat (bb_number b)) bs)"
    and "set (map (\<lambda>b. unat (bb_number b)) bs) = {n..<n + length bs}"
  using assms by (simp_all add: numbered_from_def)

text \<open>A tick in front of a run: it starts where the watermark says, or at the target of its skip.\<close>

lemma covered_step:
  assumes "covered cfg ws c b ns" and "numbered_from n as" and "c = n + length as" and "a \<le> n"
    and "n = a \<or> a \<le> Suc l \<and> l \<le> a \<and> skip_target cfg w l = Some n"
  shows "covered cfg (w # ws) a b (map (\<lambda>b. unat (bb_number b)) as @ ns)"
proof -
  note as = numbered_facts [OF assms(2)]
  have ns: "c \<le> b" "sorted_wrt (<) ns" "set ns \<subseteq> {c..<b}" "\<And>m. m \<in> {c..<b} \<Longrightarrow> m \<in> set ns \<or> left_out cfg ws c ns m"
    using assms(1) by (auto simp: covered_def)
  let ?all = "map (\<lambda>b. unat (bb_number b)) as @ ns"
  have "m \<in> set ?all \<or> left_out cfg (w # ws) a ?all m" if m: "m \<in> {a..<b}" for m
  proof -
    consider (skipped) "m < n" | (ticked) "n \<le> m" "m < c" | (later) "c \<le> m" by linarith
    then show ?thesis
    proof cases
      case skipped
      with m assms(5) have t: "a \<le> Suc l" "l \<le> m" "skip_target cfg w l = Some n" by auto
      have "n \<le> k" if "k \<in> set ?all" for k using that as(2) ns(3) assms(3) by auto
      with t skipped show ?thesis unfolding left_out_def by (intro disjI2 bexI [of _ w] bexI [of _ l]) auto
    next
      case ticked
      with as(2) assms(3) show ?thesis by auto
    next
      case later
      with m ns(4) consider "m \<in> set ns" | "left_out cfg ws c ns m" by auto
      then show ?thesis
      proof cases
        case 2
        then obtain v k start where v: "v \<in> set ws" "k \<le> m" "c \<le> Suc k" "skip_target cfg v k = Some start" "m < start"
          "\<And>j. j \<in> set ns \<Longrightarrow> j \<le> k \<or> start \<le> j" by (auto simp: left_out_def split: option.splits)
        have "j \<le> k \<or> start \<le> j" if "j \<in> set ?all" for j using that v(3,6) as(2) assms(3) by auto
        with v assms(3,4) show ?thesis unfolding left_out_def by (intro disjI2 bexI [of _ v] bexI [of _ k]) auto
      qed simp
    qed
  qed
  moreover have "sorted_wrt (<) ?all" using as ns(2,3) assms(3) by (fastforce simp: sorted_wrt_append)
  moreover have "set ?all \<subseteq> {a..<b}" using as(2) ns(1,3) assms(3,4) by fastforce
  ultimately show ?thesis using ns(1) assms(3,4) by (simp add: covered_def)
qed

text \<open>Without the skip nothing is left out.\<close>

lemma covered_without_skip:
  assumes "covered cfg ws a b ns" and "pc_skip_history_lag cfg = 0"
  shows "ns = [a..<b]"
proof -
  have "skip_target cfg w l = None" for w :: "'a world" and l
    using assms(2) by (simp add: skip_target_def split: sum.splits)
  then have "set ns = {a..<b}" using assms(1) by (auto simp: covered_def left_out_def)
  moreover have "sorted ns" "distinct ns" using assms(1) by (simp_all add: covered_def strict_sorted_iff)
  ultimately show ?thesis by (metis set_upt sorted_distinct_set_unique sorted_upt distinct_upt)
qed

text \<open>
  What the scanner relies on: a saved watermark is what is loaded next; a successful handler
  has stored the watermark it was given, and a failed one has left the watermark alone.
\<close>

locale watermark_store =
  fixes be :: "('e, 's) backend"
  assumes load_save: "be_save be wm s = Inr s' \<Longrightarrow>
      be_load be (wm_name wm) s' = Some (wm_last_block wm, wm_last_hash wm)"
    and load_processed: "be_process be env b wm s = (s', None) \<Longrightarrow>
      be_load be (wm_name wm) s' = Some (wm_last_block wm, wm_last_hash wm)"
    and load_failed: "be_process be env b wm s = (s', Some e) \<Longrightarrow> be_load be name s' = be_load be name s"
begin

abbreviation loaded :: "'s \<Rightarrow> (u64 \<times> string) option" where
  "loaded s \<equiv> be_load be watermark_name s"

lemma saved: "\<lbrakk>save_watermark be w wm s = Inr s'; wm_name wm = watermark_name\<rbrakk> \<Longrightarrow>
    loaded s' = Some (wm_last_block wm, wm_last_hash wm)"
  using load_save [of wm s s'] by (auto simp: save_watermark_def split: option.splits)

lemma parent_checked:
  assumes "check_parent be w st n b s = Inr s1" and "bb_number b = n" and "canonical_hash (bb_parent_hash b)"
    and "loaded s = Some (wm_last_block st, wm_last_hash st)"
    and "unat n = next_block (wm_last_block st, wm_last_hash st)"
  shows "\<exists>p. loaded s1 = Some p \<and> next_block p = unat n"
proof (cases "wm_last_hash st \<noteq> [] \<and> n = wm_last_block st + 1 \<and> bb_parent_hash b \<noteq> wm_last_hash st")
  case True
  have h: "wm_last_hash st \<noteq> []" "n \<noteq> 0" using True assms(5) by auto
  with True assms(1,2) obtain wm hash where wm: "save_watermark be w wm s = Inr s1" "wm_name wm = watermark_name"
    "wm_last_block wm = n - 1" "wm_last_hash wm = hash" "hash = bb_parent_hash b"
    by (auto simp: check_parent_def resolve_canonical_parent_def res_simps)
  have "n - 1 = wm_last_block st" using True by simp
  moreover have "hash \<noteq> []" using wm(5) assms(3) by (auto simp: canonical_hex_def)
  ultimately show ?thesis using saved [OF wm(1,2)] wm(3,4) assms(5) h by simp
next
  case False
  then have "check_parent be w st n b s = Inr s" by (auto simp: check_parent_def)
  with assms(1,4,5) show ?thesis by simp
qed

lemma range_watermark:
  "\<lbrakk>process_range be f w st n k s = (s', bs, e); unat n + k < 2 ^ 64;
    loaded s = Some (wm_last_block st, wm_last_hash st);
    unat n = next_block (wm_last_block st, wm_last_hash st)\<rbrakk> \<Longrightarrow>
   \<exists>p. loaded s' = Some p \<and> next_block p = unat n + length bs"
proof (induction k arbitrary: st n s bs)
  case 0
  then show ?case by simp
next
  case (Suc k)
  show ?case
  proof (cases "fetch_block (wd_node w) f n")
    case (Inl x)
    with Suc.prems show ?thesis by simp
  next
    case b: (Inr b)
    note ok = fetch_block_ok [OF b]
    show ?thesis
    proof (cases "check_parent be w st n b s")
      case (Inl x)
      with b Suc.prems show ?thesis by simp
    next
      case s1: (Inr s1)
      have "canonical_hash (bb_parent_hash b)" "canonical_hash (bb_hash b)"
        using ok by (simp_all add: block_ok_def)
      with parent_checked [OF s1] ok Suc.prems(3,4)
      obtain p where p: "loaded s1 = Some p" "next_block p = unat n" by blast
      let ?st = "\<lparr>wm_name = watermark_name, wm_last_block = bb_number b, wm_last_hash = bb_hash b,
        wm_updated_at = wd_now w\<rparr>"
      obtain s2 o2 where q: "be_process be (wd_env w) b ?st s1 = (s2, o2)" by fastforce
      show ?thesis
      proof (cases o2)
        case (Some x)
        with b s1 q Suc.prems(1) have "s' = s2" "bs = []" by (simp_all add: Let_def)
        with load_failed [OF q [unfolded Some]] p show ?thesis by simp
      next
        case None
        obtain cs where r: "process_range be f w ?st (n + 1) k s2 = (s', cs, e)" "bs = b # cs"
          using b s1 q None Suc.prems(1) by (auto simp: Let_def split: prod.splits)
        have n1: "unat (n + 1) = Suc (unat n)" using Suc.prems(2) by (intro unat_Suc_word) simp
        have "bb_hash b \<noteq> []" using ok by (auto simp: block_ok_def canonical_hex_def)
        then have "\<exists>p. loaded s' = Some p \<and> next_block p = unat (n + 1) + length cs"
          by (intro Suc.IH [OF r(1)])
            (use load_processed [OF q [unfolded None]] ok n1 Suc.prems(2) in simp_all)
        with r(2) n1 show ?thesis by simp
      qed
    qed
  qed
qed

lemma poll_from_tick:
  assumes "poll_from cfg be f w head st s = (s', bs, e)"
    and "pc_max_blocks_per_tick cfg \<noteq> 0" and "unat head + unat (pc_max_blocks_per_tick cfg) < 2 ^ 64"
    and "loaded s = Some (wm_last_block st, wm_last_hash st)"
    and "next_block (wm_last_block st, wm_last_hash st) = n" and "n < 2 ^ 64"
  shows "numbered_from n bs \<and> length bs \<le> unat (pc_max_blocks_per_tick cfg) \<and>
    (\<exists>p. loaded s' = Some p \<and> next_block p = n + length bs) \<and> n + length bs < 2 ^ 64 \<and>
    (e = None \<longrightarrow> n + length bs = max n (min (unat head + 1) (n + unat (pc_max_blocks_per_tick cfg))))"
proof -
  define nx where "nx = (if wm_last_hash st = [] then wm_last_block st else wm_last_block st + 1)"
  define m where "m = pc_max_blocks_per_tick cfg"
  have n: "unat nx = n" using assms(5,6) unat_Suc_word [of "wm_last_block st"]
    by (auto simp: nx_def split: if_splits)
  have m: "0 < unat m" using assms(2) by (simp add: m_def word_neq_0_conv unat_gt_0)
  show ?thesis
  proof (cases "head < nx")
    case True
    then have "s' = s" "bs = []" using assms(1) by (simp_all add: poll_from_def nx_def [symmetric] Let_def)
    with True assms(4-6) n show ?thesis by (simp add: word_less_nat_alt)
  next
    case False
    define last where "last = min head (nx + m - 1)"
    have le: "n \<le> unat head" using False n by (simp add: word_less_nat_alt)
    have "unat (nx + m) = n + unat m"
      using le assms(3) n by (intro unat_add_lem [THEN iffD1, THEN trans]) (simp_all add: m_def)
    then have "unat (nx + m - 1) = n + unat m - 1" using m by (subst unat_minus_one) auto
    then have last: "unat last = min (unat head) (n + unat m - 1)"
      by (simp add: last_def min_def word_le_nat_alt)
    have nn: "n \<le> unat last" using last le m by simp
    then have nl: "\<not> last < nx" using n by (simp add: word_less_nat_alt)
    have k: "Suc (unat (last - nx)) = unat last + 1 - n"
      using nn n by (subst unat_sub) (simp_all add: word_le_nat_alt Suc_diff_le)
    have r: "process_range be f w st nx (Suc (unat (last - nx))) s = (s', bs, e)"
      using assms(1) False nl
      by (simp add: poll_from_def nx_def [symmetric] Let_def last_def m_def)
    have b: "unat nx + Suc (unat (last - nx)) < 2 ^ 64"
      using last le assms(3) m nn unfolding k n m_def [symmetric] by simp
    note bl = process_range_blocks [OF r b, unfolded n k]
    obtain p where p: "loaded s' = Some p" "next_block p = n + length bs"
      using range_watermark [OF r b assms(4)] assms(5) n by auto
    have kk: "unat last + 1 - n \<le> unat m" "n + (unat last + 1 - n) < 2 ^ 64"
      using last m nn b unfolding k n by simp_all
    have f: "n + (unat last + 1 - n) = max n (min (unat head + 1) (n + unat m))"
    proof -
      have "n + (unat last + 1 - n) = unat last + 1" using nn by simp
      also have "\<dots> = max n (min (unat head + 1) (n + unat m))"
        using last le m by (auto simp: min_def max_def)
      finally show ?thesis .
    qed
    show ?thesis
      unfolding m_def [symmetric]
    proof (intro conjI exI impI)
      show "numbered_from n bs" using bl by blast
      show "length bs \<le> unat m" using bl kk(1) by linarith
      show "loaded s' = Some p" "next_block p = n + length bs" by (rule p)+
      show "n + length bs < 2 ^ 64" using bl kk(2) by linarith
      show "n + length bs = max n (min (unat head + 1) (n + unat m))" if "e = None"
        using bl that f by simp
    qed
  qed
qed

lemma tick:
  assumes "poll_once cfg be f w s = (s', bs, e)"
    and "pc_max_blocks_per_tick cfg \<noteq> 0" and "head_bounded cfg w"
    and "\<And>p. loaded s = Some p \<Longrightarrow> next_block p < 2 ^ 64"
  shows "\<exists>n. numbered_from n bs \<and> length bs \<le> unat (pc_max_blocks_per_tick cfg) \<and>
    (loaded s' = None \<and> loaded s = None \<and> bs = [] \<or>
     (\<exists>p. loaded s' = Some p \<and> next_block p = n + length bs \<and> n + length bs < 2 ^ 64)) \<and>
    (\<forall>l h. loaded s = Some (l, h) \<longrightarrow> next_block (l, h) \<le> n \<and>
       (n = next_block (l, h) \<or> skip_target cfg w (unat l) = Some n)) \<and>
    (e = None \<longrightarrow> (\<forall>head. bindE (wd_head w) parse_hex_uint64 = Inr head \<longrightarrow>
       n + length bs = max n (min (unat head + 1) (n + unat (pc_max_blocks_per_tick cfg))) \<and>
       (loaded s \<noteq> None \<longrightarrow> pc_skip_history_lag cfg \<noteq> 0 \<longrightarrow>
          unat head \<le> n + max (unat (pc_skip_history_lag cfg)) 10)))"
proof -
  consider (early) e' where "s' = s" "bs = []" "e = Some e'"
    | (poll) head st s1 where "bindE (wd_head w) parse_hex_uint64 = Inr head"
        "poll_from cfg be f w head st s1 = (s', bs, e)"
        "loaded s1 = Some (wm_last_block st, wm_last_hash st)"
        "loaded s = Some (wm_last_block st, wm_last_hash st) \<and>
           skip_history_start head (wm_last_block st) (pc_skip_history_lag cfg) = None \<or>
         wm_last_hash st = [] \<and> (loaded s = None \<or>
           (\<exists>l h. loaded s = Some (l, h) \<and> skip_history_start head l (pc_skip_history_lag cfg) = Some (wm_last_block st)))"
  proof (cases "wd_load_error w")
    case (Some x)
    show ?thesis by (rule early [of x]) (use Some assms(1) in \<open>simp_all add: poll_once_def\<close>)
  next
    case le: None
    show ?thesis
    proof (cases "bindE (wd_head w) parse_hex_uint64")
      case (Inl x)
      show ?thesis by (rule early [of x]) (use Inl le assms(1) in \<open>simp_all add: poll_once_def\<close>)
    next
      case hd: (Inr head)
      show ?thesis
      proof (cases "loaded s")
        case None
        let ?st = "\<lparr>wm_name = watermark_name, wm_last_block = resolve_start_block head (pc_from_block cfg),
          wm_last_hash = [], wm_updated_at = wd_now w\<rparr>"
        show ?thesis
        proof (cases "save_watermark be w ?st s")
          case (Inl x)
          show ?thesis by (rule early [of x]) (use Inl le hd None assms(1) in \<open>simp_all add: poll_once_def\<close>)
        next
          case (Inr s1)
          show ?thesis by (rule poll [of head ?st s1])
            (use le hd None assms(1) saved [OF Inr] Inr in \<open>simp_all add: poll_once_def\<close>)
        qed
      next
        case (Some p)
        obtain l h where p: "p = (l, h)" by (cases p)
        show ?thesis
        proof (cases "skip_history_start head l (pc_skip_history_lag cfg)")
          case None
          let ?st = "\<lparr>wm_name = watermark_name, wm_last_block = l, wm_last_hash = h, wm_updated_at = zero_time\<rparr>"
          show ?thesis by (rule poll [of head ?st s])
            (use le hd Some p None assms(1) in \<open>simp_all add: poll_once_def\<close>)
        next
          case st: (Some start)
          let ?st = "\<lparr>wm_name = watermark_name, wm_last_block = start, wm_last_hash = [],
            wm_updated_at = wd_now w\<rparr>"
          show ?thesis
          proof (cases "save_watermark be w ?st s")
            case (Inl x)
            show ?thesis by (rule early [of x]) (use Inl le hd Some p st assms(1) in \<open>simp_all add: poll_once_def\<close>)
          next
            case (Inr s1)
            show ?thesis by (rule poll [of head ?st s1])
              (use le hd Some p st assms(1) saved [OF Inr] Inr in \<open>simp_all add: poll_once_def\<close>)
          qed
        qed
      qed
    qed
  qed
  then show ?thesis
  proof cases
    case early
    show ?thesis
    proof (cases "loaded s")
      case None
      with early show ?thesis by auto
    next
      case (Some p)
      with early assms(4) [OF Some] show ?thesis by (intro exI [of _ "next_block p"]) auto
    qed
  next
    case poll
    define n where "n = next_block (wm_last_block st, wm_last_hash st)"
    have hd: "unat head + unat (pc_max_blocks_per_tick cfg) < 2 ^ 64"
      using assms(3) poll(1) by (simp add: head_bounded_def)
    have "n < 2 ^ 64"
      using poll(4) assms(4) unsigned_less [of "wm_last_block st", where 'a = nat]
      by (auto simp: n_def)
    note t = poll_from_tick [OF poll(2) assms(2) hd poll(3) n_def [symmetric] this]
    have skip: "next_block (l, h) \<le> n \<and> (n = next_block (l, h) \<or> skip_target cfg w (unat l) = Some n)"
      if "loaded s = Some (l, h)" for l h
      using poll(4) that skip_history_start_Some [of head l "pc_skip_history_lag cfg" "wm_last_block st"]
      by (auto simp: n_def skip_target_def poll(1))
    have near: "unat head \<le> n + max (unat (pc_skip_history_lag cfg)) 10"
      if "loaded s \<noteq> None" "pc_skip_history_lag cfg \<noteq> 0"
      using poll(4) that skip_history_start_None [of head "wm_last_block st" "pc_skip_history_lag cfg"]
        skip_history_start_Some [of head _ "pc_skip_history_lag cfg" "wm_last_block st"]
      by (fastforce simp: n_def)
    from t poll(1) skip near show ?thesis by (intro exI [of _ n]) auto
  qed
qed

lemma tick_watermark_bound:
  assumes "poll_once cfg be f w s = (s', bs, e)" and "pc_max_blocks_per_tick cfg \<noteq> 0"
    and "head_bounded cfg w" and "\<And>p. loaded s = Some p \<Longrightarrow> next_block p < 2 ^ 64"
  shows "\<And>p. loaded s' = Some p \<Longrightarrow> next_block p < 2 ^ 64"
  using tick [OF assms] by auto

text \<open>One round of the loop: its tick, then the rest, unless the tick panics.\<close>

lemma run_loop_Cons:
  assumes "run_loop cfg be f (w # ws) d s = (s', bs, ps)" and "poll_once cfg be f w s = (s1, as, e)"
  obtains (panic) "s' = s1" "bs = as" "e = Some E_panic"
    | (more) d' ds cs where "run_loop cfg be f ws d' s1 = (s', cs, ds)" "bs = as @ cs"
  using assms by (auto split: option.splits prod.splits if_splits)

text \<open>From a saved watermark on, a run leaves out nothing but what it skips.\<close>

abbreviation numbers :: "block_batch list \<Rightarrow> nat list" where
  "numbers bs \<equiv> map (\<lambda>b. unat (bb_number b)) bs"

lemma loop_covered:
  "\<lbrakk>run_loop cfg be f ws d s = (s', bs, ps); pc_max_blocks_per_tick cfg \<noteq> 0; \<forall>w\<in>set ws. head_bounded cfg w;
    loaded s = Some p; next_block p < 2 ^ 64\<rbrakk> \<Longrightarrow>
   \<exists>q. loaded s' = Some q \<and> covered cfg ws (next_block p) (next_block q) (numbers bs)"
proof (induction ws arbitrary: d s bs ps p)
  case Nil
  then show ?case by (simp add: covered_def)
next
  case (Cons w ws)
  obtain s1 as e where p1: "poll_once cfg be f w s = (s1, as, e)" by (cases "poll_once cfg be f w s")
  obtain l h where p: "p = (l, h)" by (cases p)
  have hb: "head_bounded cfg w" using Cons.prems(3) by simp
  have b: "\<And>q. loaded s = Some q \<Longrightarrow> next_block q < 2 ^ 64" using Cons.prems(4,5) by simp
  from tick [OF p1 Cons.prems(2) hb b] Cons.prems(4) p obtain n p' where n: "numbered_from n as"
    "loaded s1 = Some p'" "next_block p' = n + length as" "next_block p \<le> n"
    "n = next_block p \<or> skip_target cfg w (unat l) = Some n" by auto
  have rest: "\<exists>q cs. loaded s' = Some q \<and> bs = as @ cs \<and> covered cfg ws (next_block p') (next_block q) (numbers cs)"
    using Cons.prems(1) p1
  proof (cases rule: run_loop_Cons)
    case panic
    with n(2) show ?thesis by (simp add: covered_def)
  next
    case (more d' ds cs)
    from Cons.IH [OF more(1) Cons.prems(2) _ n(2) tick_watermark_bound [OF p1 Cons.prems(2) hb b n(2)]]
      Cons.prems(3) more(2) show ?thesis by auto
  qed
  then obtain q cs where q: "loaded s' = Some q" "bs = as @ cs"
    "covered cfg ws (next_block p') (next_block q) (numbers cs)" by blast
  have "n = next_block p \<or> next_block p \<le> Suc (unat l) \<and> unat l \<le> next_block p \<and> skip_target cfg w (unat l) = Some n"
    using n(5) p by auto
  from covered_step [OF q(3) n(1,3,4) this]
  have "covered cfg (w # ws) (next_block p) (next_block q) (numbers as @ numbers cs)" .
  with q(1,2) show ?case by auto
qed

text \<open>
  Every successful tick advances by its whole allowance, or up to the head; and with the skip switched on,
  one tick is enough to come near the head.
\<close>

lemma loop_catches_up:
  "\<lbrakk>quiet cfg be f ws s; run_loop cfg be f ws d s = (s', bs, ps); pc_max_blocks_per_tick cfg \<noteq> 0;
    \<forall>w\<in>set ws. head_bounded cfg w \<and> (\<exists>head. bindE (wd_head w) parse_hex_uint64 = Inr head \<and> h \<le> unat head);
    loaded s = Some p; next_block p < 2 ^ 64\<rbrakk> \<Longrightarrow>
   \<exists>q. loaded s' = Some q \<and> next_block p \<le> next_block q \<and>
     min (h + 1) (next_block p + length ws * unat (pc_max_blocks_per_tick cfg)) \<le> next_block q \<and>
     (pc_skip_history_lag cfg \<noteq> 0 \<longrightarrow> ws \<noteq> [] \<longrightarrow> h \<le> next_block q + max (unat (pc_skip_history_lag cfg)) 10)"
proof (induction ws arbitrary: d s bs ps p)
  case Nil
  then show ?case by simp
next
  case (Cons w ws)
  obtain s1 as where p1: "poll_once cfg be f w s = (s1, as, None)" and q: "quiet cfg be f ws s1"
    using Cons.prems(1) by (auto split: prod.splits)
  obtain d' ds cs where l: "run_loop cfg be f ws d' s1 = (s', cs, ds)"
    using Cons.prems(2) p1 by (cases rule: run_loop_Cons) auto
  obtain head where hd: "head_bounded cfg w" "bindE (wd_head w) parse_hex_uint64 = Inr head" "h \<le> unat head"
    using Cons.prems(4) by auto
  have b: "\<And>q. loaded s = Some q \<Longrightarrow> next_block q < 2 ^ 64" using Cons.prems(5,6) by simp
  let ?m = "unat (pc_max_blocks_per_tick cfg)"
  obtain l0 h0 where p: "p = (l0, h0)" by (cases p)
  from tick [OF p1 Cons.prems(3) hd(1) b] obtain n where
    t: "loaded s1 = None \<and> loaded s = None \<and> as = [] \<or>
      (\<exists>p. loaded s1 = Some p \<and> next_block p = n + length as \<and> n + length as < 2 ^ 64)"
    "\<forall>l h. loaded s = Some (l, h) \<longrightarrow> next_block (l, h) \<le> n \<and>
      (n = next_block (l, h) \<or> skip_target cfg w (unat l) = Some n)"
    "\<forall>head. bindE (wd_head w) parse_hex_uint64 = Inr head \<longrightarrow>
      n + length as = max n (min (unat head + 1) (n + ?m)) \<and> (loaded s \<noteq> None \<longrightarrow> pc_skip_history_lag cfg \<noteq> 0 \<longrightarrow>
        unat head \<le> n + max (unat (pc_skip_history_lag cfg)) 10)" by blast
  from t(1) Cons.prems(5) obtain p' where p'1: "loaded s1 = Some p'" "next_block p' = n + length as"
    by (auto simp del: next_block.simps)
  note p' = p'1 t(2) [rule_format, OF Cons.prems(5) [unfolded p], THEN conjunct1, folded p]
  have a: "n + length as = max n (min (unat head + 1) (n + ?m))" using t(3) hd(2) by blast
  have k: "pc_skip_history_lag cfg \<noteq> 0 \<longrightarrow> unat head \<le> n + max (unat (pc_skip_history_lag cfg)) 10"
    using t(3) hd(2) Cons.prems(5) by blast
  from Cons.IH [OF q l Cons.prems(3) _ p'(1) tick_watermark_bound [OF p1 Cons.prems(3) hd(1) b p'(1)]] Cons.prems(4)
  obtain q' where q': "loaded s' = Some q'" "n + length as \<le> next_block q'"
    "min (h + 1) (n + length as + length ws * ?m) \<le> next_block q'" by (auto simp: p'(2))
  have "min (h + 1) (next_block p + length (w # ws) * ?m) \<le> next_block q'"
    using a q'(2,3) p'(3) hd(3) by (auto simp: min_def max_def split: if_splits)
  moreover have "pc_skip_history_lag cfg \<noteq> 0 \<longrightarrow> h \<le> next_block q' + max (unat (pc_skip_history_lag cfg)) 10"
    using k q'(2) hd(3) by linarith
  ultimately show ?case using q'(1,2) p'(3) by auto
qed

end

section \<open>Properties\<close>

lemma run_loop_pauses:
  "\<lbrakk>0 < d; d \<le> max_backoff\<rbrakk> \<Longrightarrow> snd (snd (run_loop cfg be f ws d s)) = ps \<Longrightarrow>
   \<forall>p\<in>set ps. p = pc_poll_interval cfg \<or> 0 < p \<and> p \<le> max_backoff"
proof (induction ws arbitrary: d s ps)
  case (Cons w ws)
  have m: "0 < min (d * 2) max_backoff \<and> min (d * 2) max_backoff \<le> max_backoff"
    "0 < first_backoff \<and> first_backoff \<le> max_backoff"
    using Cons.prems(1) by (simp_all add: first_backoff_def max_backoff_def millisecond_def second_def)
  obtain s1 as e where p1: "poll_once cfg be f w s = (s1, as, e)" by (cases "poll_once cfg be f w s")
  show ?case
    using Cons.prems p1 Cons.IH [of "min (d * 2) max_backoff" s1] Cons.IH [of first_backoff s1] m
    by (cases e) (auto split: prod.splits if_splits)
qed simp

lemma run_loop_failing:
  assumes "\<And>w s. w \<in> set ws \<Longrightarrow> \<exists>e. snd (snd (poll_once cfg be f w s)) = Some e \<and> e \<noteq> E_panic"
  shows "snd (snd (run_loop cfg be f ws (min (first_backoff * 2 ^ i) max_backoff) s)) =
    map (\<lambda>k. min (first_backoff * 2 ^ (i + k)) max_backoff) [0..<length ws]"
  using assms
proof (induction ws arbitrary: i s)
  case (Cons w ws)
  obtain s1 as e where p1: "poll_once cfg be f w s = (s1, as, Some e)" "e \<noteq> E_panic"
    using Cons.prems [of w s] by (cases "poll_once cfg be f w s") auto
  have m: "min (min (first_backoff * 2 ^ i) max_backoff * 2) max_backoff = min (first_backoff * 2 ^ (i + 1)) max_backoff"
    by (simp add: min_def max_backoff_def second_def)
  have "[0..<length (w # ws)] = 0 # map Suc [0..<length ws]"
    by (simp add: upt_conv_Cons map_Suc_upt del: upt_Suc)
  with p1 m Cons.IH [of "i + 1" s1] Cons.prems show ?case
    by (auto simp: comp_def split: prod.splits simp del: upt_Suc)
qed simp

text \<open>The parent of every block is the block before it, or the node names it as the canonical parent.\<close>

definition vouched :: "'e world \<Rightarrow> block_batch \<Rightarrow> bool" where
  "vouched w b \<longleftrightarrow> bindE (wd_hash_at w (hex_quantity (bb_number b - 1))) (\<lambda>raw. normalize_fixed_hex raw 32) =
     Inr (bb_parent_hash b)"

fun linked :: "'e world \<Rightarrow> block_batch list \<Rightarrow> bool" where
  "linked w (a # b # bs) \<longleftrightarrow> (bb_parent_hash b = bb_hash a \<or> vouched w b) \<and> linked w (b # bs)"
| "linked w bs \<longleftrightarrow> True"

lemma check_parent_vouched:
  assumes "check_parent be w st n b s = Inr s1" and "wm_last_hash st \<noteq> []" and "n = wm_last_block st + 1"
    and "bb_number b = n" and "n \<noteq> 0"
  shows "bb_parent_hash b = wm_last_hash st \<or> vouched w b"
proof (rule disjCI)
  assume nv: "\<not> vouched w b"
  have "resolve_canonical_parent w b \<noteq> Inr wm" for wm
    using nv assms(4,5) by (auto simp: resolve_canonical_parent_def vouched_def res_simps)
  with assms show "bb_parent_hash b = wm_last_hash st"
    by (auto simp: check_parent_def res_simps split: if_splits)
qed

lemma process_range_linked:
  "\<lbrakk>process_range be f w st n k s = (s', bs, e); n = 0 \<longrightarrow> wm_last_hash st = []; wm_last_hash st \<noteq> [] \<longrightarrow>
    n = wm_last_block st + 1; unat n + k \<le> 2 ^ 64\<rbrakk> \<Longrightarrow>
   linked w bs \<and> (wm_last_hash st \<noteq> [] \<longrightarrow> bs \<noteq> [] \<longrightarrow>
     bb_parent_hash (hd bs) = wm_last_hash st \<or> vouched w (hd bs))"
proof (induction bs arbitrary: st n k s)
  case Nil
  show ?case by simp
next
  case (Cons b bs)
  from Cons.prems(1) obtain k1 s1 s2 where k: "k = Suc k1" "fetch_block (wd_node w) f n = Inr b"
    "check_parent be w st n b s = Inr s1" and
    r: "process_range be f w \<lparr>wm_name = watermark_name, wm_last_block = bb_number b,
       wm_last_hash = bb_hash b, wm_updated_at = wd_now w\<rparr> (n + 1) k1 s2 = (s', bs, e)"
    by (rule process_range_Cons)
  let ?st = "\<lparr>wm_name = watermark_name, wm_last_block = bb_number b, wm_last_hash = bb_hash b,
    wm_updated_at = wd_now w\<rparr>"
  note ok = fetch_block_ok [OF k(2)]
  have h: "bb_hash b \<noteq> []" using ok by (auto simp: block_ok_def canonical_hex_def)
  have v: "bb_parent_hash b = wm_last_hash st \<or> vouched w b" if "wm_last_hash st \<noteq> []"
    by (rule check_parent_vouched [OF k(3) that]) (use that ok Cons.prems(2,3) in blast)+
  show ?case
  proof (cases "bs = []")
    case True
    with v show ?thesis by simp
  next
    case False
    then obtain k2 where k2: "k1 = Suc k2" using r by (cases k1) auto
    have n1: "unat (n + 1) = Suc (unat n)" using Cons.prems(4) k(1) k2 by (intro unat_Suc_word) simp
    then have n0: "n + 1 \<noteq> 0" by (metis nat.distinct(1) unat_0)
    have "linked w bs \<and> (bb_hash b \<noteq> [] \<longrightarrow> bs \<noteq> [] \<longrightarrow> bb_parent_hash (hd bs) = bb_hash b \<or> vouched w (hd bs))"
    proof -
      have "unat (n + 1) + k1 \<le> 2 ^ 64" using n1 k(1) Cons.prems(4) by linarith
      moreover have "n + 1 = 0 \<longrightarrow> wm_last_hash ?st = []" using n0 by simp
      moreover have "wm_last_hash ?st \<noteq> [] \<longrightarrow> n + 1 = wm_last_block ?st + 1" using ok by simp
      ultimately have "linked w bs \<and> (wm_last_hash ?st \<noteq> [] \<longrightarrow> bs \<noteq> [] \<longrightarrow>
          bb_parent_hash (hd bs) = wm_last_hash ?st \<or> vouched w (hd bs))"
        by (intro Cons.IH [OF r])
      then show ?thesis by simp
    qed
    with h False have "linked w bs \<and> (bb_parent_hash (hd bs) = bb_hash b \<or> vouched w (hd bs))"
      by simp
    with False v show ?thesis by (cases bs) auto
  qed
qed

text \<open>C36. Blocks that one range processes behind a watermark with a hash form a chain: each block's parent is the block processed
  just before it, unless the node itself vouches, when asked again for the block before, that its
  hash is that parent. A block of another fork never goes through.\<close>

theorem processed_range_is_a_chain:
  assumes "process_range be f w st n k s = (s', bs, e)" and "unat n + k \<le> 2 ^ 64" and "n \<noteq> 0"
    and "wm_last_hash st \<noteq> []" and "n = wm_last_block st + 1"
  shows "linked w bs \<and> (bs = [] \<or> bb_parent_hash (hd bs) = wm_last_hash st \<or> vouched w (hd bs))"
  using process_range_linked [OF assms(1)] assms(2-5) by blast

text \<open>While every tick fails, the pauses double from 200 ms up to the five-second bound.\<close>

theorem failed_ticks_back_off:
  assumes "\<And>w s. w \<in> set ws \<Longrightarrow> \<exists>e. snd (snd (poll_once cfg be f w s)) = Some e \<and> e \<noteq> E_panic"
  shows "snd (snd (run_loop cfg be f ws first_backoff s)) =
    map (\<lambda>k. min (200 * millisecond * 2 ^ k) (5 * second)) [0..<length ws]"
proof -
  have "min (first_backoff * 2 ^ 0) max_backoff = first_backoff"
    by (simp add: first_backoff_def max_backoff_def millisecond_def second_def)
  with run_loop_failing [of ws cfg be f 0 s, OF assms] show ?thesis
    by (simp add: first_backoff_def max_backoff_def)
qed

text \<open>A backend that keeps only the watermark, and worlds for it.\<close>

definition ex_backend :: "(unit, watermark option) backend" where
  "ex_backend = \<lparr>be_load = (\<lambda>name s. case s of None \<Rightarrow> None | Some wm \<Rightarrow> Some (wm_last_block wm, wm_last_hash wm)),
     be_save = (\<lambda>wm s. Inr (Some wm)), be_process = (\<lambda>env b wm s. (Some wm, None))\<rparr>"

definition ex_world :: "unit world" where
  "ex_world = \<lparr>wd_head = Inr ''0x7'', wd_node = ex_node, wd_hash_at = (\<lambda>q. Inr (ex_hash CHR ''B'')),
     wd_load_error = None, wd_save_error = (\<lambda>wm. None), wd_now = 0, wd_env = ()\<rparr>"

definition ex_config :: poller_config where
  "ex_config = \<lparr>pc_from_block = 0, pc_max_blocks_per_tick = 5, pc_lag_warn = 0, pc_skip_history_lag = 0,
     pc_poll_interval = second, pc_fetch_mode = [], pc_receipt_method = []\<rparr>"

definition ex_watermark :: watermark where
  "ex_watermark = \<lparr>wm_name = watermark_name, wm_last_block = 6, wm_last_hash = ex_hash CHR ''d'', wm_updated_at = 0\<rparr>"

lemma ex_parent: "normalize_fixed_hex (ex_hash CHR ''B'') 32 = Inr (ex_hash CHR ''b'')"
  by code_simp

lemma ex_hash_eq: "ex_hash c = ex_hash d \<longleftrightarrow> c = d" "ex_hash c \<noteq> []"
  by (simp_all add: ex_hash_def)

text \<open>The witness processes a block whose parent is not the stored hash, on the node's word.\<close>

theorem processed_range_is_a_chain_witness:
  "snd (process_range ex_backend ex_fetcher ex_world ex_watermark 7 (Suc 0) (Some ex_watermark)) = ([ex_block], None) \<and>
   vouched ex_world ex_block"
proof -
  have p: "process_range ex_backend ex_fetcher ex_world ex_watermark 7 (Suc 0) (Some ex_watermark) =
    (Some \<lparr>wm_name = watermark_name, wm_last_block = 7, wm_last_hash = ex_hash CHR ''a'', wm_updated_at = 0\<rparr>,
     [ex_block], None)"
  proof -
    have f: "fetch_block (wd_node ex_world) ex_fetcher 7 = Inr ex_block"
      using ex_fetch by (simp add: ex_world_def)
    have c: "check_parent ex_backend ex_world ex_watermark 7 ex_block (Some ex_watermark) =
      Inr (Some \<lparr>wm_name = watermark_name, wm_last_block = 6, wm_last_hash = ex_hash CHR ''b'', wm_updated_at = 0\<rparr>)"
      using ex_parent
      by (simp add: ex_world_def check_parent_def resolve_canonical_parent_def save_watermark_def
          ex_backend_def ex_watermark_def ex_block_def ex_hash_eq)
    show ?thesis
      by (simp add: f c) (simp add: Let_def ex_backend_def ex_block_def ex_world_def)
  qed
  have h: "wm_last_hash ex_watermark \<noteq> []" "bb_parent_hash ex_block \<noteq> wm_last_hash ex_watermark"
    by (simp_all add: ex_watermark_def ex_block_def ex_hash_eq)
  have n: "unat (7 :: u64) + Suc 0 \<le> 2 ^ 64" "(7 :: u64) \<noteq> 0" "(7 :: u64) = wm_last_block ex_watermark + 1"
    by (simp_all add: ex_watermark_def)
  from processed_range_is_a_chain [OF p n(1,2) h(1) n(3)] h(2) have "vouched ex_world ex_block"
    by simp
  with p show ?thesis by simp
qed

theorem failed_ticks_back_off_witness:
  "snd (snd (run_loop ex_config ex_backend ex_fetcher
      (replicate 6 (ex_world\<lparr>wd_load_error := Some (E_store 0)\<rparr>)) first_backoff None)) =
    [200000000, 400000000, 800000000, 1600000000, 3200000000, 5000000000]"
proof -
  have "snd (snd (run_loop ex_config ex_backend ex_fetcher
      (replicate 6 (ex_world\<lparr>wd_load_error := Some (E_store 0)\<rparr>)) first_backoff None)) =
    map (\<lambda>k. min (200 * millisecond * 2 ^ k) (5 * second)) [0..<length (replicate 6 (ex_world\<lparr>wd_load_error := Some (E_store 0)\<rparr>))]"
    by (rule failed_ticks_back_off) (auto simp: poll_once_def)
  then show ?thesis by (simp add: millisecond_def second_def upt_rec)
qed

end
