(* ===== verification/Chain_Pool.thy ===== *)
theory Chain_Pool
  imports Domain_Launch "HOL-Library.Signed_Division"
begin

text \<open>
  \<open>internal/chain/pool.go\<close>: the pool of RPC endpoints, a smooth weighted round robin over
  token buckets. A member of the pool is an index into the list; the pointer the code hands out
  is that index. \<open>int\<close> values stay far below 64 bits (at most 32 members). A \<open>float64\<close> is a
  rational number, and every floating-point operation ends with \<open>rnd\<close>, the rounding to the
  nearest float, a parameter of the model. \<open>url.Parse\<close> is the parameter \<open>url_parse\<close>.
\<close>

section \<open>Data\<close>

definition rpc_rate_limit_penalty :: duration where "rpc_rate_limit_penalty = second"
definition max_rpc_pool_size :: nat where "max_rpc_pool_size = 32"

record rpc_endpoint =
  re_url :: string
  re_qps :: int

record rpc_member =
  rm_url :: string
  rm_label :: string
  rm_qps :: int
  rm_current :: int
  rm_tokens :: rat
  rm_last :: time
  rm_cool_until :: time

type_synonym rounding = "rat \<Rightarrow> rat"

text \<open>The parts of a \<open>url.URL\<close> the program reads; \<open>pu_text\<close> is its \<open>String()\<close>.\<close>

record parsed_url =
  pu_text :: string
  pu_scheme :: string
  pu_host :: string
  pu_path :: string
  pu_has_user :: bool
  pu_query :: string
  pu_fragment :: string

section \<open>Token buckets\<close>

text \<open>\<open>Duration.Seconds\<close>: whole seconds and the rest are converted separately.\<close>

definition seconds_of :: "rounding \<Rightarrow> duration \<Rightarrow> rat" where
  "seconds_of rnd d = rnd (rnd (of_int (d sdiv second)) + rnd (rnd (of_int (d smod second)) / of_int second))"

definition refill :: "rounding \<Rightarrow> time \<Rightarrow> rpc_member \<Rightarrow> rpc_member" where
  "refill rnd now m =
     (if rm_last m = zero_time then m\<lparr>rm_last := now\<rparr>
      else let elapsed = seconds_of rnd (now - rm_last m)
           in if elapsed \<le> 0 then m
              else m\<lparr>rm_tokens := min (of_int (rm_qps m)) (rnd (rm_tokens m + rnd (elapsed * of_int (rm_qps m)))),
                     rm_last := now\<rparr>)"

definition wait_duration :: "rounding \<Rightarrow> time \<Rightarrow> rpc_member \<Rightarrow> duration \<times> rpc_member" where
  "wait_duration rnd now m =
     (if now < rm_cool_until m then (rm_cool_until m - now, m)
      else let m1 = refill rnd now m
           in if 1 \<le> rm_tokens m1 then (0, m1)
              else let need = rnd (rnd (1 - rm_tokens m1) / of_int (rm_qps m1))
                   in if need \<le> 0 then (0, m1) else (\<lfloor>rnd (need * of_int second)\<rfloor>, m1))"

definition take_token :: "rounding \<Rightarrow> time \<Rightarrow> rpc_member \<Rightarrow> rpc_member" where
  "take_token rnd now m =
     (let m1 = refill rnd now m
      in if 1 \<le> rm_tokens m1 then m1\<lparr>rm_tokens := rnd (rm_tokens m1 - 1)\<rparr> else m1)"

definition penalize_member :: "time \<Rightarrow> rpc_member \<Rightarrow> rpc_member" where
  "penalize_member now m = m\<lparr>rm_tokens := 0, rm_last := now, rm_cool_until := now + rpc_rate_limit_penalty\<rparr>"

definition penalize :: "time \<Rightarrow> nat \<Rightarrow> rpc_member list \<Rightarrow> rpc_member list" where
  "penalize now i ms = (if i < length ms then ms[i := penalize_member now (ms ! i)] else ms)"

section \<open>Weighted round robin\<close>

text \<open>The loop of \<open>weightedPick\<close> over the ready members: the running total and the best so far.\<close>

fun weigh :: "nat list \<Rightarrow> rpc_member list \<Rightarrow> int \<Rightarrow> nat option \<Rightarrow> rpc_member list \<times> int \<times> nat option" where
  "weigh [] ms tot best = (ms, tot, best)"
| "weigh (i # is) ms tot best =
     (let m = ms ! i; m1 = m\<lparr>rm_current := rm_current m + rm_qps m\<rparr>; ms1 = ms[i := m1]
      in weigh is ms1 (tot + rm_qps m)
           (case best of None \<Rightarrow> Some i
            | Some b \<Rightarrow> if rm_current (ms1 ! b) < rm_current m1 then Some i else Some b))"

definition weighted_pick :: "nat list \<Rightarrow> rpc_member list \<Rightarrow> (nat \<times> rpc_member list) option" where
  "weighted_pick ready ms =
     (case weigh ready ms 0 None of
        (ms1, tot, None) \<Rightarrow> None
      | (ms1, tot, Some b) \<Rightarrow>
          Some (b, ms1[b := (ms1 ! b)\<lparr>rm_current := rm_current (ms1 ! b) - tot\<rparr>]))"

text \<open>
  One round of the loop in \<open>rpcPool.acquire\<close>: the picked member, or the pause before the next
  round. The goroutine holds the lock for the whole round.
\<close>

definition acquire_round :: "rounding \<Rightarrow> time \<Rightarrow> rpc_member list \<Rightarrow> (duration + nat) \<times> rpc_member list" where
  "acquire_round rnd now ms =
     (let waits = map (wait_duration rnd now) ms;
          ms1 = map snd waits;
          ready = filter (\<lambda>i. fst (waits ! i) = 0) [0..<length ms]
      in case weighted_pick ready ms1 of
           None \<Rightarrow>
             (let min_wait = foldl (\<lambda>a w. if a = 0 \<or> w < a then w else a) 0 (map fst waits)
              in (Inl (if min_wait \<le> 0 then 50 * millisecond else min_wait), ms1))
         | Some (b, ms2) \<Rightarrow> (Inr b, ms2[b := take_token rnd now (ms2 ! b)]))"

text \<open>The clock readings of the rounds; when they are used up the context is cancelled.\<close>

fun acquire :: "rounding \<Rightarrow> time list \<Rightarrow> rpc_member list \<Rightarrow> nat res \<times> rpc_member list" where
  "acquire rnd [] ms = (Inl E_cancelled, ms)"
| "acquire rnd (now # nows) ms =
     (case acquire_round rnd now ms of
        (Inr b, ms1) \<Rightarrow> (Inr b, ms1)
      | (Inl _, ms1) \<Rightarrow> acquire rnd nows ms1)"

section \<open>Rate limits and labels\<close>

definition is_rate_limited_text :: "string \<Rightarrow> bool" where
  "is_rate_limited_text text =
     (let lower = to_lower text
      in contains_sub lower ''too many requests'' \<or> contains_sub lower ''rate limit'' \<or>
         contains_sub lower ''rate_limited'' \<or> contains_sub lower ''compute units'')"

definition rpc_error_rate_limited :: "int \<Rightarrow> string \<Rightarrow> bool" where
  "rpc_error_rate_limited code message = (code = 429 \<or> code = -32029 \<or> is_rate_limited_text message)"

definition wrap_endpoint_error :: "rpc_member option \<Rightarrow> nat \<Rightarrow> err \<Rightarrow> err" where
  "wrap_endpoint_error m status e =
     E_endpoint (case m of None \<Rightarrow> ''<unknown>'' | Some m \<Rightarrow> if rm_label m \<noteq> [] then rm_label m else ''<unknown>'')
       status e"

definition as_endpoint_error :: "err \<Rightarrow> (string \<times> nat \<times> err) option" where
  "as_endpoint_error e = (case e of E_endpoint rpc status cause \<Rightarrow> Some (rpc, status, cause) | _ \<Rightarrow> None)"

definition redacted :: string where "redacted = ''<redacted>''"

fun redact_parts :: "string \<Rightarrow> string list \<Rightarrow> string list" where
  "redact_parts prev [] = []"
| "redact_parts prev (p # ps) =
     (let q = (if (prev = ''v1'' \<or> prev = ''v2'') \<and> 8 \<le> length p then redacted else p)
      in q # redact_parts q ps)"

definition redact_rpc_url :: "(string \<Rightarrow> parsed_url option) \<Rightarrow> string \<Rightarrow> string" where
  "redact_rpc_url url_parse raw =
     (case url_parse (trim_space raw) of
        None \<Rightarrow> redacted
      | Some u \<Rightarrow>
          if pu_host u = [] then redacted
          else let parts = split_on CHR ''/'' (trim_char CHR ''/'' (pu_path u));
                   parts = hd parts # redact_parts (hd parts) (tl parts)
               in if parts = [[]] then pu_scheme u @ ''://'' @ pu_host u
                  else pu_scheme u @ ''://'' @ pu_host u @ ''/'' @ join_with ''/'' parts)"

section \<open>Construction\<close>

text \<open>
  \<open>chain_id\<close> is the answer of one endpoint to \<open>eth_chainId\<close>, and \<open>nows\<close> gives the clock
  reading at each accepted endpoint.
\<close>

definition new_member :: "(string \<Rightarrow> parsed_url option) \<Rightarrow> time \<Rightarrow> rpc_endpoint \<Rightarrow> rpc_member" where
  "new_member url_parse now item =
     \<lparr>rm_url = re_url item, rm_label = redact_rpc_url url_parse (re_url item), rm_qps = re_qps item,
      rm_current = 0, rm_tokens = of_int (re_qps item), rm_last = now, rm_cool_until = zero_time\<rparr>"

fun check_endpoints ::
  "(string \<Rightarrow> parsed_url option) \<Rightarrow> (string \<Rightarrow> u64 res) \<Rightarrow> (nat \<Rightarrow> time) \<Rightarrow> u64 \<Rightarrow> rpc_endpoint list \<Rightarrow>
   rpc_member list \<Rightarrow> string list \<Rightarrow> (rpc_member list \<times> string list) res" where
  "check_endpoints url_parse chain_id nows expected [] ms skipped = Inr (ms, skipped)"
| "check_endpoints url_parse chain_id nows expected (item # items) ms skipped =
     guardE (re_qps item < 1) E_config
       (if chain_id (re_url item) = Inr expected
        then check_endpoints url_parse chain_id nows expected items
               (ms @ [new_member url_parse (nows (length ms)) item]) skipped
        else check_endpoints url_parse chain_id nows expected items ms
               (skipped @ [redact_rpc_url url_parse (re_url item)]))"

definition new_pool_client ::
  "(string \<Rightarrow> parsed_url option) \<Rightarrow> (string \<Rightarrow> u64 res) \<Rightarrow> (nat \<Rightarrow> time) \<Rightarrow> rpc_endpoint list \<Rightarrow> string \<Rightarrow>
   duration \<Rightarrow> u64 \<Rightarrow> (rpc_member list \<times> string list) res" where
  "new_pool_client url_parse chain_id nows endpoints user_agent timeout expected =
     guardE (endpoints = []) E_config
    (guardE (max_rpc_pool_size < length endpoints) E_config
    (guardE (trim_space user_agent = []) E_config
    (guardE (timeout \<le> 0) E_config
    (bindE (check_endpoints url_parse chain_id nows expected endpoints [] [])
       (\<lambda>(ms, skipped). guardE (ms = []) E_config (Inr (ms, skipped)))))))"

section \<open>What a pick does\<close>

definition weighed :: "nat list \<Rightarrow> rpc_member list \<Rightarrow> nat \<Rightarrow> int" where
  "weighed ready ms i = rm_current (ms ! i) + (if i \<in> set ready then rm_qps (ms ! i) else 0)"

definition total_qps :: "nat list \<Rightarrow> rpc_member list \<Rightarrow> int" where
  "total_qps ready ms = (\<Sum>i\<leftarrow>ready. rm_qps (ms ! i))"

lemma current_update: "r = s\<lparr>rm_current := c\<rparr> \<Longrightarrow> r\<lparr>rm_current := x\<rparr> = s\<lparr>rm_current := x\<rparr>"
  by simp

lemma weigh_spec:
  "\<lbrakk>weigh is ms t b = (ms', t', b'); distinct is; \<forall>i\<in>set is. i < length ms;
    \<forall>k\<in>set_option b. k < length ms \<and> k \<notin> set is\<rbrakk> \<Longrightarrow>
   length ms' = length ms \<and> t' = t + total_qps is ms \<and>
   (\<forall>j<length ms. ms' ! j = (ms ! j)\<lparr>rm_current := weighed is ms j\<rparr>) \<and>
   (is = [] \<longrightarrow> b' = b) \<and>
   (is \<noteq> [] \<longrightarrow> (\<exists>k\<in>set is \<union> set_option b. b' = Some k \<and>
      (\<forall>j\<in>set is \<union> set_option b. rm_current (ms' ! j) \<le> rm_current (ms' ! k))))"
proof (induction "is" arbitrary: ms t b)
  case Nil
  then show ?case by (simp add: weighed_def total_qps_def)
next
  case (Cons i "is")
  let ?m1 = "(ms ! i)\<lparr>rm_current := rm_current (ms ! i) + rm_qps (ms ! i)\<rparr>"
  let ?ms1 = "ms[i := ?m1]"
  obtain b1 where b1: "weigh is ?ms1 (t + rm_qps (ms ! i)) (Some b1) = (ms', t', b')"
    "b1 \<in> set_option b \<union> {i}" "\<forall>k\<in>set_option b \<union> {i}. rm_current (?ms1 ! k) \<le> rm_current (?ms1 ! b1)"
    using Cons.prems by (auto simp: Let_def split: option.splits if_splits)
  have i: "i < length ms" "i \<notin> set is" "distinct is" using Cons.prems by auto
  have pre: "\<forall>j\<in>set is. j < length ?ms1" "\<forall>k\<in>set_option (Some b1). k < length ?ms1 \<and> k \<notin> set is"
    using Cons.prems b1(2) by auto
  note IH = Cons.IH [OF b1(1) i(3) pre]
  have w: "weighed is ?ms1 j = weighed (i # is) ms j" "?ms1 ! j = (ms ! j)\<lparr>rm_current := rm_current (?ms1 ! j)\<rparr>"
    if "j < length ms" for j
    using that i by (auto simp: weighed_def nth_list_update)
  have tq: "total_qps is ?ms1 = total_qps is ms"
    unfolding total_qps_def by (rule arg_cong [of _ _ sum_list], rule map_cong [OF refl])
      (use i in \<open>auto simp: nth_list_update\<close>)
  have keep: "ms' ! j = (ms ! j)\<lparr>rm_current := weighed (i # is) ms j\<rparr>" if "j < length ms" for j
  proof -
    have "ms' ! j = (?ms1 ! j)\<lparr>rm_current := weighed is ?ms1 j\<rparr>" using IH that by simp
    also have "\<dots> = (ms ! j)\<lparr>rm_current := weighed (i # is) ms j\<rparr>"
      unfolding w(1) [OF that] by (rule current_update [OF w(2) [OF that]])
    finally show ?thesis .
  qed
  have same: "rm_current (ms' ! k) = rm_current (?ms1 ! k)" if "k \<in> set_option b \<union> {i}" for k
  proof -
    have "k < length ms" "k \<notin> set is" using that Cons.prems i by auto
    then show ?thesis using IH by (simp add: weighed_def)
  qed
  have best: "\<exists>k\<in>set (i # is) \<union> set_option b. b' = Some k \<and>
      (\<forall>j\<in>set (i # is) \<union> set_option b. rm_current (ms' ! j) \<le> rm_current (ms' ! k))"
  proof (cases "is = []")
    case True
    then have "b' = Some b1" using IH by simp
    with True b1(2,3) same show ?thesis by auto
  next
    case False
    with IH obtain k where k: "k \<in> set is \<union> {b1}" "b' = Some k"
      "\<forall>j\<in>set is \<union> {b1}. rm_current (ms' ! j) \<le> rm_current (ms' ! k)" by auto
    have "rm_current (ms' ! j) \<le> rm_current (ms' ! k)" if "j \<in> set_option b \<union> {i}" for j
      using b1(2,3) same [OF that] same [OF b1(2)] that k(3) by fastforce
    with k b1(2) show ?thesis by auto
  qed
  show ?case
    using IH keep best tq by (simp add: total_qps_def)
qed

lemma weighted_pick_spec:
  assumes "distinct ready" "\<forall>i\<in>set ready. i < length ms" "ready \<noteq> []"
  shows "\<exists>k ms2. weighted_pick ready ms = Some (k, ms2) \<and> k \<in> set ready \<and> length ms2 = length ms \<and>
    (\<forall>j\<in>set ready. weighed ready ms j \<le> weighed ready ms k) \<and>
    (\<forall>j<length ms. ms2 ! j = (ms ! j)\<lparr>rm_current := weighed ready ms j - (if j = k then total_qps ready ms else 0)\<rparr>)"
proof -
  obtain ms1 t b where w: "weigh ready ms 0 None = (ms1, t, b)" by (cases "weigh ready ms 0 None")
  from weigh_spec [OF w assms(1,2)] assms(3) obtain k where k: "length ms1 = length ms" "t = total_qps ready ms"
    "\<forall>j<length ms. ms1 ! j = (ms ! j)\<lparr>rm_current := weighed ready ms j\<rparr>" "k \<in> set ready" "b = Some k"
    "\<forall>j\<in>set ready. rm_current (ms1 ! j) \<le> rm_current (ms1 ! k)" by auto
  have kl: "k < length ms" using assms(2) k(4) by blast
  show ?thesis
    using w k kl assms(2) by (auto simp: weighted_pick_def nth_list_update)
qed

lemma weighted_pick_None: "weighted_pick [] ms = None"
  by (simp add: weighted_pick_def)

lemma weighted_pick_sum:
  assumes "distinct ready" "\<forall>i\<in>set ready. i < length ms" "weighted_pick ready ms = Some (k, ms2)"
  shows "(\<Sum>j<length ms. rm_current (ms2 ! j)) = (\<Sum>j<length ms. rm_current (ms ! j))"
proof -
  have ne: "ready \<noteq> []" using assms(3) by (auto simp: weighted_pick_None)
  from weighted_pick_spec [OF assms(1,2) ne] assms(3) have k: "k \<in> set ready"
    "\<forall>j<length ms. ms2 ! j = (ms ! j)\<lparr>rm_current := weighed ready ms j - (if j = k then total_qps ready ms else 0)\<rparr>"
    by auto
  have kl: "k < length ms" using k(1) assms(2) by blast
  have sub: "set ready \<subseteq> {..<length ms}" using assms(2) by auto
  have "total_qps ready ms = (\<Sum>j\<in>set ready. rm_qps (ms ! j))"
    using assms(1) by (simp add: total_qps_def sum_list_distinct_conv_sum_set)
  also have "\<dots> = (\<Sum>j<length ms. if j \<in> set ready then rm_qps (ms ! j) else 0)"
    using sub by (simp add: sum.inter_restrict [symmetric] Int_absorb2 Int_commute)
  finally have t: "total_qps ready ms = (\<Sum>j<length ms. if j \<in> set ready then rm_qps (ms ! j) else 0)" .
  have "(\<Sum>j<length ms. rm_current (ms2 ! j)) =
      (\<Sum>j<length ms. rm_current (ms ! j) + (if j \<in> set ready then rm_qps (ms ! j) else 0) -
         (if j = k then total_qps ready ms else 0))"
    using k(2) by (intro sum.cong) (auto simp: weighed_def)
  also have "\<dots> = (\<Sum>j<length ms. rm_current (ms ! j)) + total_qps ready ms - total_qps ready ms"
    using kl by (simp add: sum.distrib sum_subtractf t [symmetric])
  finally show ?thesis by simp
qed

section \<open>Fairness\<close>

text \<open>A run of picks while every member is ready.\<close>

fun picks :: "nat \<Rightarrow> rpc_member list \<Rightarrow> nat list \<times> rpc_member list" where
  "picks 0 ms = ([], ms)"
| "picks (Suc n) ms =
     (case picks n ms of (is, ms1) \<Rightarrow>
        (case weighted_pick [0..<length ms1] ms1 of
           None \<Rightarrow> (is, ms1)
         | Some (k, ms2) \<Rightarrow> (is @ [k], ms2)))"

definition fresh_pool :: "rpc_member list \<Rightarrow> bool" where
  "fresh_pool ms \<longleftrightarrow> ms \<noteq> [] \<and> (\<forall>m\<in>set ms. 0 < rm_qps m \<and> rm_current m = 0)"

lemma count_list_snoc: "count_list (xs @ [y]) x = count_list xs x + (if x = y then 1 else 0)"
  by (induction xs) auto

lemma picks_invariant:
  assumes "fresh_pool ms" and T: "T = total_qps [0..<length ms] ms"
  shows "picks n ms = (is, ms1) \<Longrightarrow> length is = n \<and> set is \<subseteq> {..<length ms} \<and> length ms1 = length ms \<and>
    (\<forall>i<length ms. rm_qps (ms1 ! i) = rm_qps (ms ! i) \<and>
       rm_current (ms1 ! i) = int n * rm_qps (ms ! i) - T * int (count_list is i) \<and> - T < rm_current (ms1 ! i)) \<and>
    (\<Sum>i<length ms. rm_current (ms1 ! i)) = 0"
proof (induction n arbitrary: "is" ms1)
  case 0
  have q: "\<forall>i<length ms. 0 < rm_qps (ms ! i) \<and> rm_current (ms ! i) = 0" "0 < length ms"
    using assms(1) by (auto simp: fresh_pool_def)
  have "T = (\<Sum>i<length ms. rm_qps (ms ! i))"
    by (simp add: T total_qps_def sum_list_distinct_conv_sum_set atLeast0LessThan)
  also have "0 < \<dots>" using q by (intro sum_pos) auto
  finally have "0 < T" .
  with 0 q show ?case by auto
next
  case (Suc n)
  obtain js ms0 where p: "picks n ms = (js, ms0)" by (cases "picks n ms")
  note IH = Suc.IH [OF p]
  let ?L = "length ms"
  have ne: "0 < ?L" using assms(1) by (simp add: fresh_pool_def)
  have dist: "distinct [0..<length ms0]" "\<forall>i\<in>set [0..<length ms0]. i < length ms0" "[0..<length ms0] \<noteq> []"
    using IH ne by auto
  obtain k ms2 where w: "weighted_pick [0..<length ms0] ms0 = Some (k, ms2)" "k \<in> set [0..<length ms0]"
    "length ms2 = length ms0"
    "\<forall>j\<in>set [0..<length ms0]. weighed [0..<length ms0] ms0 j \<le> weighed [0..<length ms0] ms0 k"
    "\<forall>j<length ms0. ms2 ! j = (ms0 ! j)\<lparr>rm_current := weighed [0..<length ms0] ms0 j -
       (if j = k then total_qps [0..<length ms0] ms0 else 0)\<rparr>"
    using weighted_pick_spec [OF dist] by blast
  have res: "is = js @ [k]" "ms1 = ms2" using Suc.prems p w(1) by simp_all
  have L: "length ms0 = ?L" using IH by simp
  have TT: "total_qps [0..<length ms0] ms0 = T"
    unfolding T total_qps_def L using IH by (intro arg_cong [of _ _ sum_list] map_cong) auto
  have wj: "weighed [0..<length ms0] ms0 j = rm_current (ms0 ! j) + rm_qps (ms ! j)" if "j < ?L" for j
    using that IH L by (simp add: weighed_def)
  have kl: "k < ?L" using w(2) L by simp
  have sumT: "(\<Sum>j<?L. rm_qps (ms ! j)) = T"
    by (simp add: T total_qps_def sum_list_distinct_conv_sum_set atLeast0LessThan)
  have Tpos: "0 < T"
  proof -
    have "0 < (\<Sum>j<?L. rm_qps (ms ! j))"
      using assms(1) ne by (intro sum_pos) (auto simp: fresh_pool_def)
    with sumT show ?thesis by simp
  qed
  have M: "0 < rm_current (ms0 ! k) + rm_qps (ms ! k)"
  proof (rule ccontr)
    assume "\<not> ?thesis"
    moreover have "rm_current (ms0 ! j) + rm_qps (ms ! j) \<le> rm_current (ms0 ! k) + rm_qps (ms ! k)" if "j < ?L" for j
    proof -
      have "j \<in> set [0..<length ms0]" using that L by simp
      then have "weighed [0..<length ms0] ms0 j \<le> weighed [0..<length ms0] ms0 k" using w(4) by blast
      then show ?thesis by (simp only: wj [OF that] wj [OF kl])
    qed
    ultimately have "\<forall>j<?L. rm_current (ms0 ! j) + rm_qps (ms ! j) \<le> 0"
      by (meson dual_order.trans linorder_not_less)
    then have "(\<Sum>j<?L. rm_current (ms0 ! j) + rm_qps (ms ! j)) \<le> 0" by (intro sum_nonpos) auto
    moreover have "(\<Sum>j<?L. rm_current (ms0 ! j)) = 0" using IH by blast
    ultimately show False using Tpos unfolding sum.distrib sumT by simp
  qed
  have cur: "rm_current (ms1 ! i) = rm_current (ms0 ! i) + rm_qps (ms ! i) - (if i = k then T else 0)"
    "rm_qps (ms1 ! i) = rm_qps (ms ! i)" if "i < ?L" for i
    using w(5) that L TT wj [OF that] IH res(2) by simp_all
  have "rm_current (ms1 ! i) = int (Suc n) * rm_qps (ms ! i) - T * int (count_list is i) \<and> - T < rm_current (ms1 ! i)"
    if "i < ?L" for i
  proof
    show "rm_current (ms1 ! i) = int (Suc n) * rm_qps (ms ! i) - T * int (count_list is i)"
    proof -
      have "rm_current (ms0 ! i) = int n * rm_qps (ms ! i) - T * int (count_list js i)" using IH that by blast
      then show ?thesis using cur(1) [OF that] unfolding res(1) count_list_snoc
        by (cases "i = k") (simp_all add: algebra_simps)
    qed
    have "0 < rm_qps (ms ! i)" "- T < rm_current (ms0 ! i)"
      using assms(1) that IH by (auto simp: fresh_pool_def)
    with cur(1) [OF that] M show "- T < rm_current (ms1 ! i)" by (cases "i = k") auto
  qed
  moreover have "(\<Sum>i<?L. rm_current (ms1 ! i)) = 0"
  proof -
    have "(\<Sum>i<?L. rm_current (ms0 ! i)) = 0" using IH by blast
    then show ?thesis using weighted_pick_sum [OF dist(1,2) w(1)] unfolding res(2) L by (rule trans [rotated])
  qed
  moreover have "length is = Suc n" "set is \<subseteq> {..<?L}" "length ms1 = ?L"
    using IH kl L w(3) by (simp_all add: res)
  ultimately show ?case using cur(2) by blast
qed

section \<open>Buckets and penalties\<close>

text \<open>What is known of rounding: it is monotone and leaves integers of up to 53 bits alone.\<close>

definition float_rounding :: "rounding \<Rightarrow> bool" where
  "float_rounding rnd \<longleftrightarrow> mono rnd \<and> (\<forall>i::int. \<bar>i\<bar> \<le> 2 ^ 53 \<longrightarrow> rnd (of_int i) = of_int i)"

definition bucket_ok :: "rpc_member \<Rightarrow> bool" where
  "bucket_ok m \<longleftrightarrow> 0 < rm_qps m \<and> rm_qps m \<le> 2 ^ 53 \<and> 0 \<le> rm_tokens m \<and> rm_tokens m \<le> of_int (rm_qps m)"

lemma float_rounding_bounds:
  assumes "float_rounding rnd" and "\<bar>i\<bar> \<le> 2 ^ 53"
  shows "of_int i \<le> x \<Longrightarrow> of_int i \<le> rnd x" and "x \<le> of_int i \<Longrightarrow> rnd x \<le> of_int i"
  using assms monoD [of rnd "of_int i" x] monoD [of rnd x "of_int i"] by (auto simp: float_rounding_def)

lemma refill_keeps [simp]: "rm_qps (refill rnd now m) = rm_qps m" "rm_cool_until (refill rnd now m) = rm_cool_until m"
  "rm_current (refill rnd now m) = rm_current m" "rm_url (refill rnd now m) = rm_url m" "rm_label (refill rnd now m) = rm_label m"
  by (simp_all add: refill_def Let_def)

lemma refill_ok:
  assumes "float_rounding rnd" "bucket_ok m"
  shows "bucket_ok (refill rnd now m)"
proof -
  have "0 \<le> rnd (rm_tokens m + rnd (e * of_int (rm_qps m)))" if "0 < e" for e
  proof -
    have "0 \<le> e * of_int (rm_qps m)" using that assms(2) by (simp add: bucket_ok_def)
    then have "0 \<le> rnd (e * of_int (rm_qps m))" using float_rounding_bounds(1) [OF assms(1), of 0] by simp
    then have "0 \<le> rm_tokens m + rnd (e * of_int (rm_qps m))" using assms(2) by (simp add: bucket_ok_def)
    then show ?thesis using float_rounding_bounds(1) [OF assms(1), of 0] by simp
  qed
  then show ?thesis using assms(2) by (auto simp: refill_def bucket_ok_def Let_def)
qed

lemma wait_duration_ok:
  assumes "float_rounding rnd" "bucket_ok m"
  shows "bucket_ok (snd (wait_duration rnd now m))"
  using assms refill_ok [OF assms] by (simp add: wait_duration_def Let_def)

lemma wait_duration_keeps [simp]: "rm_cool_until (snd (wait_duration rnd now m)) = rm_cool_until m"
  "rm_qps (snd (wait_duration rnd now m)) = rm_qps m" "rm_current (snd (wait_duration rnd now m)) = rm_current m"
  by (simp_all add: wait_duration_def Let_def)

lemma take_token_ok:
  assumes "float_rounding rnd" "bucket_ok m"
  shows "bucket_ok (take_token rnd now m)"
proof -
  let ?m = "refill rnd now m"
  have ok: "bucket_ok ?m" by (rule refill_ok [OF assms])
  have "0 \<le> rnd (rm_tokens ?m - 1)" if "1 \<le> rm_tokens ?m"
    using float_rounding_bounds(1) [OF assms(1), of 0] that by simp
  moreover have "rnd (rm_tokens ?m - 1) \<le> of_int (rm_qps ?m)"
    using ok by (intro float_rounding_bounds(2) [OF assms(1)]) (auto simp: bucket_ok_def)
  ultimately show ?thesis using ok by (auto simp: take_token_def bucket_ok_def Let_def)
qed

lemma list_all_update: "\<lbrakk>\<forall>m\<in>set ms. P m; P x\<rbrakk> \<Longrightarrow> \<forall>m\<in>set (ms[i := x]). P m"
  using set_update_subset_insert [of ms i x] by blast

lemma penalize_ok: "\<forall>m\<in>set ms. bucket_ok m \<Longrightarrow> \<forall>m\<in>set (penalize now i ms). bucket_ok m"
proof -
  assume ok: "\<forall>m\<in>set ms. bucket_ok m"
  have p: "bucket_ok (penalize_member now (ms ! i))" if "i < length ms"
  proof -
    have "bucket_ok (ms ! i)" using ok nth_mem [OF that] by blast
    then show ?thesis by (simp add: penalize_member_def bucket_ok_def)
  qed
  show ?thesis
  proof (cases "i < length ms")
    case True
    have "bucket_ok (penalize_member now (ms ! i))" by (rule p [OF True])
    from list_all_update [OF ok this, of i] True show ?thesis unfolding penalize_def by (simp only: if_True)
  next
    case False
    with ok show ?thesis unfolding penalize_def by (simp only: if_False)
  qed
qed

text \<open>What a successful round gives: a ready member, and a pool whose other fields are kept.\<close>

lemma acquire_round_Inr:
  assumes "acquire_round rnd now ms = (Inr b, ms')"
  shows "b < length ms" "fst (wait_duration rnd now (ms ! b)) = 0" "rm_cool_until (ms ! b) \<le> now"
proof -
  let ?ws = "map (wait_duration rnd now) ms"
  let ?ready = "filter (\<lambda>i. fst (?ws ! i) = 0) [0..<length ms]"
  have d: "distinct ?ready" "\<forall>i\<in>set ?ready. i < length (map snd ?ws)" by auto
  obtain ms2 where w: "weighted_pick ?ready (map snd ?ws) = Some (b, ms2)"
    using assms by (auto simp: acquire_round_def Let_def split: option.splits)
  then have "?ready \<noteq> []" using weighted_pick_None by fastforce
  from weighted_pick_spec [OF d this] w have "b \<in> set ?ready" by auto
  then show b: "b < length ms" "fst (wait_duration rnd now (ms ! b)) = 0" by auto
  then show "rm_cool_until (ms ! b) \<le> now"
    by (auto simp: wait_duration_def split: if_splits)
qed

lemma acquire_round_ok:
  assumes "float_rounding rnd" "\<forall>m\<in>set ms. bucket_ok m"
  shows "\<forall>m\<in>set (snd (acquire_round rnd now ms)). bucket_ok m"
proof -
  let ?ws = "map (wait_duration rnd now) ms"
  let ?ready = "filter (\<lambda>i. fst (?ws ! i) = 0) [0..<length ms]"
  have ok1: "\<forall>m\<in>set (map snd ?ws). bucket_ok m" using assms wait_duration_ok by auto
  show ?thesis
  proof (cases "weighted_pick ?ready (map snd ?ws)")
    case None
    with ok1 show ?thesis by (simp add: acquire_round_def Let_def)
  next
    case (Some r)
    obtain b ms2 where r: "r = (b, ms2)" by (cases r)
    have d: "distinct ?ready" "\<forall>i\<in>set ?ready. i < length (map snd ?ws)" by auto
    have "?ready \<noteq> []" using Some weighted_pick_None by fastforce
    from weighted_pick_spec [OF d this] Some r have b: "b < length ms" "length ms2 = length ms"
      "\<forall>j<length ms. \<exists>c. ms2 ! j = (map snd ?ws ! j)\<lparr>rm_current := c\<rparr>" by auto
    have ok2: "\<forall>m\<in>set ms2. bucket_ok m"
    proof
      fix m assume "m \<in> set ms2"
      then obtain j where j: "j < length ms" "m = ms2 ! j" using b(2) by (auto simp: in_set_conv_nth)
      then obtain c where "m = (map snd ?ws ! j)\<lparr>rm_current := c\<rparr>" using b(3) by blast
      moreover have "bucket_ok (map snd ?ws ! j)" using ok1 j(1) by simp
      ultimately show "bucket_ok m" by (simp add: bucket_ok_def)
    qed
    have "\<forall>m\<in>set (ms2[b := take_token rnd now (ms2 ! b)]). bucket_ok m"
      using ok2 b by (intro list_all_update take_token_ok assms(1)) auto
    with Some r show ?thesis by (simp add: acquire_round_def Let_def)
  qed
qed

lemma acquire_ok:
  "\<lbrakk>float_rounding rnd; \<forall>m\<in>set ms. bucket_ok m\<rbrakk> \<Longrightarrow> \<forall>m\<in>set (snd (acquire rnd nows ms)). bucket_ok m"
proof (induction nows arbitrary: ms)
  case (Cons now nows)
  obtain r ms1 where a: "acquire_round rnd now ms = (r, ms1)" by (cases "acquire_round rnd now ms")
  have "\<forall>m\<in>set ms1. bucket_ok m" using acquire_round_ok [OF Cons.prems, of now] a by simp
  with a Cons.IH [OF Cons.prems(1)] show ?case by (cases r) auto
qed simp

section \<open>Properties\<close>

text \<open>The round robin is exactly proportional: over as many picks as the sum of the weights, every
  member of a fresh pool is picked exactly its weight's number of times, and the pool is then back
  in its starting state.\<close>

theorem picks_are_fair:
  assumes "fresh_pool ms" and "picks (nat (total_qps [0..<length ms] ms)) ms = (is, ms1)" and "i < length ms"
  shows "int (count_list is i) = rm_qps (ms ! i) \<and> rm_current (ms1 ! i) = 0"
proof -
  define T where "T = total_qps [0..<length ms] ms"
  have sumT: "(\<Sum>j<length ms. rm_qps (ms ! j)) = T"
    by (simp add: T_def total_qps_def sum_list_distinct_conv_sum_set atLeast0LessThan)
  have pos: "\<forall>j<length ms. 0 < rm_qps (ms ! j)" using assms(1) by (simp add: fresh_pool_def)
  have Tpos: "0 < T" unfolding sumT [symmetric] using pos assms(3) by (intro sum_pos) auto
  from picks_invariant [OF assms(1) T_def assms(2)] Tpos
  have inv: "\<forall>j<length ms. rm_current (ms1 ! j) = T * (rm_qps (ms ! j) - int (count_list is j)) \<and>
      - T < rm_current (ms1 ! j)" and s: "(\<Sum>j<length ms. rm_current (ms1 ! j)) = 0"
    unfolding T_def by (auto simp: algebra_simps)
  have nn: "\<forall>j<length ms. 0 \<le> rm_current (ms1 ! j)"
  proof (intro allI impI)
    fix j assume "j < length ms"
    then have "rm_current (ms1 ! j) = T * (rm_qps (ms ! j) - int (count_list is j))" "- T < rm_current (ms1 ! j)"
      using inv by blast+
    then have "T * (-1) < T * (rm_qps (ms ! j) - int (count_list is j))" by simp
    then have "0 \<le> rm_qps (ms ! j) - int (count_list is j)" using Tpos by (simp only: mult_less_cancel_left_pos)
    then show "0 \<le> rm_current (ms1 ! j)" using inv \<open>j < length ms\<close> Tpos by simp
  qed
  then have "\<forall>j\<in>{..<length ms}. rm_current (ms1 ! j) = 0"
    using s by (subst sum_nonneg_eq_0_iff [symmetric]) auto
  then have "rm_current (ms1 ! i) = 0" using assms(3) by simp
  with inv assms(3) Tpos show ?thesis by auto
qed

text \<open>C37. An endpoint that answered with a rate limit is not the next one picked within a second, and the
  token buckets stay between empty and one second's allowance.\<close>

theorem penalized_endpoint_rests:
  assumes "acquire_round rnd now (penalize t i ms) = (Inr b, ms')" and "now < t + second"
    and "float_rounding rnd" and "\<And>m. m \<in> set ms \<Longrightarrow> bucket_ok m"
  shows "b \<noteq> i \<and> b < length ms \<and> (\<forall>m\<in>set ms'. bucket_ok m)"
proof -
  note a = acquire_round_Inr [OF assms(1)]
  have "b \<noteq> i" using a(1,3) assms(2)
    by (auto simp: penalize_def penalize_member_def rpc_rate_limit_penalty_def split: if_splits)
  moreover have "b < length ms" using a(1) by (simp add: penalize_def split: if_splits)
  moreover have "\<forall>m\<in>set ms'. bucket_ok m"
    using acquire_round_ok [OF assms(3) penalize_ok [of ms t i], of now] assms(1,4) by simp
  ultimately show ?thesis by blast
qed

definition ex_members :: "rpc_member list" where
  "ex_members = map (\<lambda>q. \<lparr>rm_url = [], rm_label = [], rm_qps = q, rm_current = 0, rm_tokens = of_int q,
     rm_last = 1, rm_cool_until = zero_time\<rparr>) [3, 1]"

theorem picks_are_fair_witness:
  "fst (picks 4 ex_members) = [0, 0, 1, 0]"
proof -
  have p: "picks (nat (total_qps [0..<length ex_members] ex_members)) ex_members = ([0, 0, 1, 0], ex_members)"
    by code_simp
  have f: "fresh_pool ex_members" "0 < length ex_members" by code_simp+
  have "nat (total_qps [0..<length ex_members] ex_members) = 4" by code_simp
  with picks_are_fair [OF f(1) p f(2)] p show ?thesis by simp
qed

lemma id_rounding: "float_rounding (\<lambda>x. x)"
  by (simp add: float_rounding_def mono_def)

theorem penalized_endpoint_rests_witness:
  "fst (acquire_round (\<lambda>x. x) 500 (penalize 7 0 ex_members)) = Inr 1"
proof -
  obtain b ms' where a: "acquire_round (\<lambda>x. x) 500 (penalize 7 0 ex_members) = (Inr b, ms')"
  proof -
    have "\<not> (case fst (acquire_round (\<lambda>x. x) 500 (penalize 7 0 ex_members)) of Inl d \<Rightarrow> True | Inr b \<Rightarrow> False)"
      by code_simp
    with that show ?thesis by (cases "acquire_round (\<lambda>x. x) 500 (penalize 7 0 ex_members)") (auto split: sum.splits)
  qed
  have ok: "\<And>m. m \<in> set ex_members \<Longrightarrow> bucket_ok m" by (auto simp: ex_members_def bucket_ok_def)
  have "(500 :: time) < 7 + second" by (simp add: second_def)
  from penalized_endpoint_rests [OF a this id_rounding ok] have "b = 1"
    by (simp add: ex_members_def)
  with a show ?thesis by simp
qed

end
