(* ===== verification/Chain_Client.thy ===== *)
theory Chain_Client
  imports Chain_Pool Chain_Receipts Abi_Words
begin

text \<open>
  \<open>internal/chain/client.go\<close>: the JSON-RPC client. \<open>encoding/json\<close> is the record \<open>codec\<close> of
  parameters (encoding of requests, decoding of answers), and the network is the record
  \<open>http_env\<close>: the answer to a request body, the clock readings while an endpoint is acquired and
  the reading at a penalty, each by the request's id, which no two requests share. The result of
  a call is the raw JSON of its \<open>result\<close>, decoded by an argument that stands for \<open>out\<close>. The ids of
  a batch are consecutive: a call of another goroutine does not draw an id between them.
\<close>

section \<open>Data\<close>

definition max_rpc_response_bytes :: nat where "max_rpc_response_bytes = 67108864"

record rpc_response =
  rs_id :: u64
  rs_result :: string
  rs_error :: "(int \<times> string) option"

record rpc_request =
  rq_id :: u64
  rq_method :: string
  rq_params :: string

record codec =
  jc_request :: "rpc_request \<Rightarrow> string"
  jc_requests :: "rpc_request list \<Rightarrow> string"
  jc_response :: "string \<Rightarrow> rpc_response res"
  jc_responses :: "string \<Rightarrow> rpc_response list res"
  jc_string :: "string \<Rightarrow> string res"

datatype http_reply = Http_cancelled | Http_failed | Http_status nat string

record http_env =
  he_rnd :: rounding
  he_url_parse :: "string \<Rightarrow> parsed_url option"
  he_nows :: "u64 \<Rightarrow> time list"
  he_now :: "u64 \<Rightarrow> time"
  he_http :: "u64 \<Rightarrow> string \<Rightarrow> string \<Rightarrow> http_reply"

record rpc_client =
  cl_endpoint :: string
  cl_label :: string
  cl_next_id :: u64
  cl_pool :: "rpc_member list option"

record erc20_metadata =
  em_name :: string
  em_symbol :: string
  em_decimals :: byte

section \<open>One HTTP exchange\<close>

text \<open>A member of the pool by its index, or the client's only endpoint.\<close>

type_synonym member_ref = "nat option \<times> rpc_member"

definition lone_member :: "rpc_client \<Rightarrow> rpc_member" where
  "lone_member cl = \<lparr>rm_url = cl_endpoint cl, rm_label = cl_label cl, rm_qps = 0, rm_current = 0,
     rm_tokens = 0, rm_last = zero_time, rm_cool_until = zero_time\<rparr>"

definition acquire_member :: "http_env \<Rightarrow> u64 \<Rightarrow> rpc_client \<Rightarrow> member_ref res \<times> rpc_client" where
  "acquire_member env n cl =
     (case cl_pool cl of
        None \<Rightarrow> (Inr (None, lone_member cl), cl)
      | Some ms \<Rightarrow>
          (case acquire (he_rnd env) (he_nows env n) ms of
             (Inl e, ms1) \<Rightarrow> (Inl e, cl\<lparr>cl_pool := Some ms1\<rparr>)
           | (Inr i, ms1) \<Rightarrow> (Inr (Some i, ms1 ! i), cl\<lparr>cl_pool := Some ms1\<rparr>)))"

definition penalize_ref :: "http_env \<Rightarrow> u64 \<Rightarrow> nat option \<Rightarrow> rpc_client \<Rightarrow> rpc_client" where
  "penalize_ref env n i cl =
     (case (cl_pool cl, i) of
        (Some ms, Some i) \<Rightarrow> cl\<lparr>cl_pool := Some (penalize (he_now env n) i ms)\<rparr>
      | _ \<Rightarrow> cl)"

definition relabel :: "http_env \<Rightarrow> member_ref \<Rightarrow> rpc_client \<Rightarrow> member_ref \<times> rpc_client" where
  "relabel env r cl =
     (case r of (i, m) \<Rightarrow>
        if rm_label m \<noteq> [] then (r, cl)
        else let m1 = m\<lparr>rm_label := redact_rpc_url (he_url_parse env) (rm_url m)\<rparr>
             in ((i, m1), case (cl_pool cl, i) of
                   (Some ms, Some i) \<Rightarrow> cl\<lparr>cl_pool := Some (ms[i := m1])\<rparr>
                 | _ \<Rightarrow> cl))"

definition post :: "http_env \<Rightarrow> u64 \<Rightarrow> string \<Rightarrow> nat \<Rightarrow> rpc_client \<Rightarrow> (string \<times> member_ref) res \<times> rpc_client" where
  "post env n body limit cl =
     (case acquire_member env n cl of
        (Inl e, cl1) \<Rightarrow> (Inl e, cl1)
      | (Inr r, cl1) \<Rightarrow>
          (case relabel env r cl1 of ((i, m), cl2) \<Rightarrow>
             (case he_http env n (rm_url m) body of
                Http_cancelled \<Rightarrow> (Inl E_cancelled, cl2)
              | Http_failed \<Rightarrow> (Inl (wrap_endpoint_error (Some m) 0 E_transport), cl2)
              | Http_status status raw \<Rightarrow>
                  if status < 200 \<or> 300 \<le> status
                  then (Inl (wrap_endpoint_error (Some m) status (E_http status)),
                        if status = 429 then penalize_ref env n i cl2 else cl2)
                  else if limit < 1 \<or> limit < length raw
                  then (Inl (wrap_endpoint_error (Some m) 0 E_too_large), cl2)
                  else (Inr (raw, i, m), cl2))))"

section \<open>Calls\<close>

definition annotate_rpc_error ::
  "http_env \<Rightarrow> u64 \<Rightarrow> member_ref \<Rightarrow> int \<times> string \<Rightarrow> rpc_client \<Rightarrow> err \<times> rpc_client" where
  "annotate_rpc_error env n r e cl =
     (case (r, e) of ((i, m), code, message) \<Rightarrow>
        if rpc_error_rate_limited code message
        then (wrap_endpoint_error (Some m) 429 (E_rpc_error code message), penalize_ref env n i cl)
        else (wrap_endpoint_error (Some m) 0 (E_rpc_error code message), cl))"

text \<open>An answer whose text speaks of a rate limit counts as HTTP 429, whatever else it holds.\<close>

definition rate_limited_reply :: "http_env \<Rightarrow> u64 \<Rightarrow> member_ref \<Rightarrow> rpc_client \<Rightarrow> err \<times> rpc_client" where
  "rate_limited_reply env n r cl =
     (case r of (i, m) \<Rightarrow> (wrap_endpoint_error (Some m) 429 (E_http 429), penalize_ref env n i cl))"

definition call_limited ::
  "http_env \<Rightarrow> codec \<Rightarrow> string \<Rightarrow> string \<Rightarrow> (string \<Rightarrow> 'a res) \<Rightarrow> nat \<Rightarrow> rpc_client \<Rightarrow> 'a res \<times> rpc_client" where
  "call_limited env jc method params decode limit cl =
     (let n = cl_next_id cl + 1;
          cl0 = cl\<lparr>cl_next_id := n\<rparr>;
          body = jc_request jc \<lparr>rq_id = n, rq_method = method, rq_params = params\<rparr>
      in case post env n body limit cl0 of
           (Inl e, cl1) \<Rightarrow> (Inl e, cl1)
         | (Inr (raw, r), cl1) \<Rightarrow>
             if is_rate_limited_text raw
             then (case rate_limited_reply env n r cl1 of (e, cl2) \<Rightarrow> (Inl e, cl2))
             else (case jc_response jc raw of
                Inl _ \<Rightarrow> (Inl (wrap_endpoint_error (Some (snd r)) 0 E_json), cl1)
              | Inr envelope \<Rightarrow>
                  if rs_id envelope \<noteq> n then (Inl (wrap_endpoint_error (Some (snd r)) 0 E_rpc_id), cl1)
                  else (case rs_error envelope of
                     Some e \<Rightarrow> (case annotate_rpc_error env n r e cl1 of (e, cl2) \<Rightarrow> (Inl e, cl2))
                   | None \<Rightarrow>
                       if rs_result envelope = ''null'' then (Inl E_null, cl1)
                       else (decode (rs_result envelope), cl1))))"

definition call ::
  "http_env \<Rightarrow> codec \<Rightarrow> string \<Rightarrow> string \<Rightarrow> (string \<Rightarrow> 'a res) \<Rightarrow> rpc_client \<Rightarrow> 'a res \<times> rpc_client" where
  "call env jc method params decode cl = call_limited env jc method params decode max_rpc_response_bytes cl"

section \<open>Batches\<close>

text \<open>A result to be dropped (\<open>outs[i] == nil\<close>) has no decoder.\<close>

type_synonym 'a batch_call = "string \<times> string \<times> (string \<Rightarrow> 'a res) option"

text \<open>\<open>byID\<close>: an id that comes twice fails the batch.\<close>

fun index_replies :: "rpc_response list \<Rightarrow> (u64 \<rightharpoonup> rpc_response) \<Rightarrow> (u64 \<rightharpoonup> rpc_response) res" where
  "index_replies [] by_id = Inr by_id"
| "index_replies (r # rs) by_id =
     guardE (by_id (rs_id r) \<noteq> None) E_rpc_id (index_replies rs (by_id(rs_id r \<mapsto> r)))"

datatype reply_error = Reply_error err | Reply_rpc "int \<times> string"

fun collect_replies ::
  "u64 list \<Rightarrow> 'a batch_call list \<Rightarrow> (u64 \<rightharpoonup> rpc_response) \<Rightarrow> reply_error + 'a option list" where
  "collect_replies (i # is) ((method, params, decode) # calls) by_id =
     (case by_id i of
        None \<Rightarrow> Inl (Reply_error E_rpc_id)
      | Some r \<Rightarrow>
         (case rs_error r of
            Some e \<Rightarrow> Inl (Reply_rpc e)
          | None \<Rightarrow>
             if rs_result r = ''null'' then Inl (Reply_error E_null)
             else (case decode of
                None \<Rightarrow> (case collect_replies is calls by_id of Inl e \<Rightarrow> Inl e | Inr xs \<Rightarrow> Inr (None # xs))
              | Some d \<Rightarrow>
                 (case d (rs_result r) of
                    Inl e \<Rightarrow> Inl (Reply_error E_json)
                  | Inr x \<Rightarrow> (case collect_replies is calls by_id of Inl e \<Rightarrow> Inl e | Inr xs \<Rightarrow> Inr (Some x # xs))))))"
| "collect_replies _ _ by_id = Inr []"

definition match_replies ::
  "u64 list \<Rightarrow> 'a batch_call list \<Rightarrow> rpc_response list \<Rightarrow> reply_error + 'a option list" where
  "match_replies ids calls envelopes =
     (if length envelopes \<noteq> length calls then Inl (Reply_error E_rpc_id)
      else case index_replies envelopes Map.empty of
             Inl e \<Rightarrow> Inl (Reply_error e)
           | Inr by_id \<Rightarrow> collect_replies ids calls by_id)"

definition batch_ids :: "u64 \<Rightarrow> nat \<Rightarrow> u64 list" where
  "batch_ids next_id k = map (\<lambda>i. next_id + of_nat (Suc i)) [0..<k]"

definition batch_request :: "codec \<Rightarrow> u64 list \<Rightarrow> 'a batch_call list \<Rightarrow> string" where
  "batch_request jc ids calls = jc_requests jc (map2 (\<lambda>i c. \<lparr>rq_id = i, rq_method = fst c, rq_params = fst (snd c)\<rparr>) ids calls)"

definition call_batch ::
  "http_env \<Rightarrow> codec \<Rightarrow> 'a batch_call list \<Rightarrow> rpc_client \<Rightarrow> 'a option list res \<times> rpc_client" where
  "call_batch env jc calls cl =
     (if calls = [] then (Inl E_rpc_id, cl)
      else
      let ids = batch_ids (cl_next_id cl) (length calls);
          n = cl_next_id cl + of_nat (length calls);
          cl0 = cl\<lparr>cl_next_id := n\<rparr>;
          body = batch_request jc ids calls
      in case post env n body max_rpc_response_bytes cl0 of
           (Inl e, cl1) \<Rightarrow> (Inl e, cl1)
         | (Inr (answer, r), cl1) \<Rightarrow>
             let raw = trim_space answer in
             if is_rate_limited_text raw
             then (case rate_limited_reply env n r cl1 of (e, cl2) \<Rightarrow> (Inl e, cl2))
             else if raw = [] then (Inl (wrap_endpoint_error (Some (snd r)) 0 E_json), cl1)
             else if hd raw = CHR ''{''
             then (case jc_response jc raw of
                Inl e \<Rightarrow> (Inl E_json, cl1)
              | Inr envelope \<Rightarrow>
                  (case rs_error envelope of
                     Some e \<Rightarrow> (case annotate_rpc_error env n r e cl1 of (e, cl2) \<Rightarrow> (Inl e, cl2))
                   | None \<Rightarrow> (Inl (wrap_endpoint_error (Some (snd r)) 0 E_json), cl1)))
             else (case jc_responses jc raw of
                Inl e \<Rightarrow> (Inl E_json, cl1)
              | Inr envelopes \<Rightarrow>
                  (case match_replies ids calls envelopes of
                     Inl (Reply_error e) \<Rightarrow> (Inl e, cl1)
                   | Inl (Reply_rpc e) \<Rightarrow> (case annotate_rpc_error env n r e cl1 of (e, cl2) \<Rightarrow> (Inl e, cl2))
                   | Inr xs \<Rightarrow> (Inr xs, cl1))))"

section \<open>Token metadata\<close>

definition cont_byte :: "byte \<Rightarrow> bool" where "cont_byte b \<longleftrightarrow> 0x80 \<le> b \<and> b \<le> 0xBF"

text \<open>\<open>utf8.Valid\<close>: shortest forms only, no surrogates, nothing above U+10FFFF.\<close>

function (sequential) utf8_valid :: "byte list \<Rightarrow> bool" where
  "utf8_valid [] = True"
| "utf8_valid (a # bs) =
     (if a < 0x80 then utf8_valid bs
      else case bs of
        [] \<Rightarrow> False
      | b # cs \<Rightarrow>
          if 0xC2 \<le> a \<and> a \<le> 0xDF then cont_byte b \<and> utf8_valid cs
          else (case cs of
            [] \<Rightarrow> False
          | c # ds \<Rightarrow>
              if 0xE0 \<le> a \<and> a \<le> 0xEF
              then cont_byte b \<and> (a = 0xE0 \<longrightarrow> 0xA0 \<le> b) \<and> (a = 0xED \<longrightarrow> b \<le> 0x9F) \<and> cont_byte c \<and> utf8_valid ds
              else (case ds of
                [] \<Rightarrow> False
              | d # es \<Rightarrow>
                  0xF0 \<le> a \<and> a \<le> 0xF4 \<and> cont_byte b \<and> (a = 0xF0 \<longrightarrow> 0x90 \<le> b) \<and>
                  (a = 0xF4 \<longrightarrow> b \<le> 0x8F) \<and> cont_byte c \<and> cont_byte d \<and> utf8_valid es)))"
  by pat_completeness auto
termination by (relation "measure length") auto

definition string_of_bytes :: "byte list \<Rightarrow> string" where
  "string_of_bytes bs = map (\<lambda>b. char_of (unat b)) bs"

text \<open>A slice expression \<open>raw[a:b]\<close>: \<open>None\<close> is the run-time panic of bad bounds.\<close>

definition slice_at :: "'a list \<Rightarrow> nat \<Rightarrow> nat \<Rightarrow> 'a list option" where
  "slice_at xs a b = (if a \<le> b \<and> b \<le> length xs then Some (take (b - a) (drop a xs)) else None)"

definition decode_abi_text :: "byte list \<Rightarrow> string res option" where
  "decode_abi_text raw =
     (let text = string_of_bytes (rev (dropWhile (\<lambda>b. b = 0) (rev raw)))
      in if length raw = 32 \<and> utf8_valid (rev (dropWhile (\<lambda>b. b = 0) (rev raw))) then Some (Inr text)
         else if length raw < 64 then Some (Inl E_abi)
         else case slice_at raw 0 32 of None \<Rightarrow> None | Some head \<Rightarrow>
           (let offset = be_nat head
            in if 2 ^ 64 \<le> offset \<or> length raw - 32 < offset then Some (Inl E_abi)
               else case slice_at raw offset (offset + 32) of None \<Rightarrow> None | Some len \<Rightarrow>
                 (if 2 ^ 64 \<le> be_nat len \<or> length raw - offset - 32 < be_nat len then Some (Inl E_abi)
                  else case slice_at raw (offset + 32) (offset + 32 + be_nat len) of None \<Rightarrow> None
                    | Some body \<Rightarrow>
                        Some (if utf8_valid body then Inr (string_of_bytes body) else Inl E_abi))))"

definition block_number :: "http_env \<Rightarrow> codec \<Rightarrow> rpc_client \<Rightarrow> u64 res \<times> rpc_client" where
  "block_number env jc cl =
     (case call env jc ''eth_blockNumber'' ''[]'' (jc_string jc) cl of
        (r, cl1) \<Rightarrow> (bindE r parse_hex_uint64, cl1))"

text \<open>The JSON of the parameters of \<open>eth_call\<close>: the fields of a map in alphabetical order.\<close>

definition eth_call_params :: "string \<Rightarrow> string \<Rightarrow> u64 \<Rightarrow> string" where
  "eth_call_params token selector block =
     ''[{\"data\":\"'' @ selector @ ''\",\"to\":\"'' @ token @ ''\"},\"'' @ hex_quantity block @ ''\"]''"

definition eth_call :: "http_env \<Rightarrow> codec \<Rightarrow> string \<Rightarrow> u64 \<Rightarrow> string \<Rightarrow> rpc_client \<Rightarrow> byte list res \<times> rpc_client" where
  "eth_call env jc token block selector cl =
     (case call env jc ''eth_call'' (eth_call_params token selector block) (jc_string jc) cl of
        (r, cl1) \<Rightarrow> (bindE r decode_hex_bytes, cl1))"

text \<open>A text that cannot be read is left empty.\<close>

definition text_or_empty :: "byte list res \<Rightarrow> string" where
  "text_or_empty r = (case r of Inl _ \<Rightarrow> [] | Inr raw \<Rightarrow>
     (case decode_abi_text raw of Some (Inr text) \<Rightarrow> text | _ \<Rightarrow> []))"

definition token_metadata ::
  "eth_common \<Rightarrow> http_env \<Rightarrow> codec \<Rightarrow> string \<Rightarrow> u64 \<Rightarrow> rpc_client \<Rightarrow> erc20_metadata res \<times> rpc_client" where
  "token_metadata E env jc token block cl =
     (case normalize_address E token of
        Inl e \<Rightarrow> (Inl e, cl)
      | Inr token \<Rightarrow>
         (case eth_call env jc token block ''0x313ce567'' cl of
            (Inl e, cl1) \<Rightarrow> (Inl e, cl1)
          | (Inr raw, cl1) \<Rightarrow>
             if length raw \<noteq> 32 \<or> 255 < be_nat raw then (Inl E_metadata, cl1)
             else (case eth_call env jc token block ''0x95d89b41'' cl1 of (symbol, cl2) \<Rightarrow>
                  (case eth_call env jc token block ''0x06fdde03'' cl2 of (name, cl3) \<Rightarrow>
                     (Inr \<lparr>em_name = text_or_empty name, em_symbol = text_or_empty symbol,
                           em_decimals = of_nat (be_nat raw)\<rparr>, cl3)))))"

definition new_client ::
  "http_env \<Rightarrow> codec \<Rightarrow> string \<Rightarrow> string \<Rightarrow> duration \<Rightarrow> u64 \<Rightarrow> rpc_client res" where
  "new_client env jc endpoint user_agent timeout expected =
     (case he_url_parse env (trim_space endpoint) of
        None \<Rightarrow> Inl E_config
      | Some u \<Rightarrow>
         guardE ((pu_scheme u \<noteq> ''http'' \<and> pu_scheme u \<noteq> ''https'') \<or> pu_host u = []) E_config
        (guardE (trim_space user_agent = []) E_config
        (guardE (timeout \<le> 0) E_config
          (case call env jc ''eth_chainId'' ''[]'' (jc_string jc)
               \<lparr>cl_endpoint = pu_text u, cl_label = redact_rpc_url (he_url_parse env) (pu_text u),
                cl_next_id = 0, cl_pool = None\<rparr> of
             (r, cl1) \<Rightarrow> bindE (bindE r parse_hex_uint64) (\<lambda>got. guardE (got \<noteq> expected) E_config (Inr cl1))))))"

section \<open>Matching the replies of a batch\<close>

lemma index_replies_eq: "index_replies rs m =
    (if distinct (map rs_id rs) \<and> (\<forall>r\<in>set rs. m (rs_id r) = None)
     then Inr (m ++ map_of (map (\<lambda>r. (rs_id r, r)) rs)) else Inl E_rpc_id)"
proof (induction rs arbitrary: m)
  case (Cons r rs)
  let ?kv = "\<lambda>r. (rs_id r, r)"
  show ?case
  proof (cases "m (rs_id r) = None \<and> rs_id r \<notin> rs_id ` set rs")
    case True
    then have "rs_id r \<notin> dom (map_of (map ?kv rs))" by (auto simp: dom_map_of_conv_image_fst)
    then have "m(rs_id r \<mapsto> r) ++ map_of (map ?kv rs) = m ++ map_of (map ?kv (r # rs))"
      by (simp add: map_add_upd_left)
    moreover have "(\<forall>a\<in>set rs. (m(rs_id r \<mapsto> r)) (rs_id a) = None) \<longleftrightarrow> (\<forall>a\<in>set (r # rs). m (rs_id a) = None)"
      using True by (auto simp: rev_image_eqI)
    moreover have "distinct (map rs_id (r # rs)) = distinct (map rs_id rs)" using True by simp
    ultimately show ?thesis
      using True Cons.IH [of "m(rs_id r \<mapsto> r)"] by (simp only: index_replies.simps guardE_def simp_thms if_False)
  next
    case False
    then have "\<not> (distinct (map rs_id (r # rs)) \<and> (\<forall>a\<in>set (r # rs). m (rs_id a) = None))" by auto
    moreover have "index_replies (r # rs) m = Inl E_rpc_id"
    proof (cases "m (rs_id r)")
      case None
      then obtain a where "a \<in> set rs" "rs_id a = rs_id r" using False by force
      then have "\<not> (\<forall>a\<in>set rs. (m(rs_id r \<mapsto> r)) (rs_id a) = None)" by fastforce
      with None Cons.IH [of "m(rs_id r \<mapsto> r)"] show ?thesis by (simp only: index_replies.simps guardE_def simp_thms if_False)
    qed simp
    ultimately show ?thesis by (simp only: if_False)
  qed
qed simp

lemma index_replies_mset:
  assumes "mset xs = mset ys"
  shows "index_replies xs Map.empty = index_replies ys Map.empty"
proof -
  let ?kv = "\<lambda>r. (rs_id r, r)"
  have s: "set xs = set ys" by (rule mset_eq_setD [OF assms])
  have "mset (map rs_id xs) = mset (map rs_id ys)" by (simp add: assms)
  then have d: "distinct (map rs_id xs) = distinct (map rs_id ys)" by (rule mset_eq_imp_distinct_iff)
  have "map_of (map ?kv xs) = map_of (map ?kv ys)" if "distinct (map rs_id xs)"
  proof (rule map_of_inject_set [THEN iffD2])
    show "distinct (map fst (map ?kv xs))" "distinct (map fst (map ?kv ys))"
      using that d by (simp_all add: comp_def)
    show "set (map ?kv xs) = set (map ?kv ys)" using s by simp
  qed
  with d show ?thesis by (simp add: index_replies_eq)
qed

text \<open>What a call with this decoder makes of a result text.\<close>

definition result_of :: "(string \<Rightarrow> 'a res) option \<Rightarrow> string \<Rightarrow> 'a option \<Rightarrow> bool" where
  "result_of decode text x \<longleftrightarrow>
     (case decode of None \<Rightarrow> x = None | Some d \<Rightarrow> \<exists>y. d text = Inr y \<and> x = Some y)"

lemma collect_replies_Inr:
  "\<lbrakk>collect_replies is calls by_id = Inr xs; length is = length calls\<rbrakk> \<Longrightarrow> length xs = length calls \<and>
   (\<forall>k<length calls. \<exists>r. by_id (is ! k) = Some r \<and> rs_error r = None \<and> rs_result r \<noteq> ''null'' \<and>
      result_of (snd (snd (calls ! k))) (rs_result r) (xs ! k))"
proof (induction "is" calls by_id arbitrary: xs rule: collect_replies.induct)
  case (1 i "is" m ps decode calls by_id)
  from "1.prems"(1) obtain r where r: "by_id i = Some r" "rs_error r = None" "rs_result r \<noteq> ''null''"
    by (auto split: option.splits if_splits)
  from "1.prems"(1) r obtain x ys where ys: "xs = x # ys" "collect_replies is calls by_id = Inr ys"
    "result_of decode (rs_result r) x"
    by (auto simp: result_of_def split: option.splits sum.splits)
  have rest: "length ys = length calls \<and>
   (\<forall>k<length calls. \<exists>r. by_id (is ! k) = Some r \<and> rs_error r = None \<and> rs_result r \<noteq> ''null'' \<and>
      result_of (snd (snd (calls ! k))) (rs_result r) (ys ! k))"
  proof (cases decode)
    case None
    show ?thesis by (rule "1.IH"(1) [OF r(1,2,3) None ys(2)]) (use "1.prems"(2) in simp)
  next
    case (Some d)
    with ys(3) obtain y where "d (rs_result r) = Inr y" by (auto simp: result_of_def)
    show ?thesis by (rule "1.IH"(2) [OF r(1,2,3) Some \<open>d (rs_result r) = Inr y\<close> ys(2)]) (use "1.prems"(2) in simp)
  qed
  show ?case unfolding ys(1) using r ys(3) rest by (simp add: all_nth_Cons)
qed auto

lemma match_replies_Inr:
  assumes "match_replies ids calls envelopes = Inr xs" and "length ids = length calls"
  shows "length xs = length calls \<and> length envelopes = length calls \<and> distinct (map rs_id envelopes) \<and>
    (\<forall>k<length calls. \<exists>r\<in>set envelopes. rs_id r = ids ! k \<and> rs_error r = None \<and> rs_result r \<noteq> ''null'' \<and>
      result_of (snd (snd (calls ! k))) (rs_result r) (xs ! k))"
proof -
  from assms(1) obtain by_id where m: "length envelopes = length calls" "index_replies envelopes Map.empty = Inr by_id"
    "collect_replies ids calls by_id = Inr xs"
    by (auto simp: match_replies_def split: if_splits sum.splits)
  then have d: "distinct (map rs_id envelopes)" "by_id = map_of (map (\<lambda>r. (rs_id r, r)) envelopes)"
    by (auto simp: index_replies_eq split: if_splits)
  have "r \<in> set envelopes \<and> rs_id r = i" if "by_id i = Some r" for i r
    using that map_of_SomeD [of _ i r] unfolding d(2) by fastforce
  with collect_replies_Inr [OF m(3) assms(2)] m(1) d(1) show ?thesis by blast
qed

lemma post_answer:
  assumes "post env n body limit cl = (Inr (answer, m), cl1)"
  shows "\<exists>url status. he_http env n url body = Http_status status answer \<and> 200 \<le> status \<and> status < 300 \<and>
    length answer \<le> limit"
  using assms by (auto simp: post_def not_less not_le split: prod.splits sum.splits http_reply.splits if_splits)

section \<open>ABI texts\<close>

lemma slice_at_bounds [simp]: "a \<le> b \<Longrightarrow> b \<le> length xs \<Longrightarrow> slice_at xs a b = Some (take (b - a) (drop a xs))"
  by (simp add: slice_at_def)

lemma be_bytes_length' [simp]: "length (be_bytes k n) = k"
  by (simp add: be_bytes_length)

section \<open>Properties\<close>

text \<open>C38. A batch succeeds only as a whole, and on the word of one HTTP answer: a node answered the request
  that numbers the calls in their order with status 2xx and a body within the limit, the body holds as many
  replies as there are calls, all with different ids, and the result of every call is decoded from
  the reply in it that carries the id of that call, a reply without error.\<close>

theorem batch_results_follow_their_ids:
  assumes "call_batch env jc calls cl = (Inr xs, cl')"
  shows "\<exists>url status answer replies.
    he_http env (cl_next_id cl + of_nat (length calls)) url (batch_request jc (batch_ids (cl_next_id cl) (length calls)) calls) =
      Http_status status answer \<and> 200 \<le> status \<and> status < 300 \<and> length answer \<le> max_rpc_response_bytes \<and>
    jc_responses jc (trim_space answer) = Inr replies \<and>
    length xs = length calls \<and> length replies = length calls \<and> distinct (map rs_id replies) \<and>
    (\<forall>k<length calls. \<exists>r\<in>set replies. rs_id r = cl_next_id cl + of_nat (Suc k) \<and> rs_error r = None \<and>
       rs_result r \<noteq> ''null'' \<and> result_of (snd (snd (calls ! k))) (rs_result r) (xs ! k))"
proof -
  obtain answer m cl1 replies where
    p: "post env (cl_next_id cl + of_nat (length calls)) (batch_request jc (batch_ids (cl_next_id cl) (length calls)) calls)
      max_rpc_response_bytes (cl\<lparr>cl_next_id := cl_next_id cl + of_nat (length calls)\<rparr>) = (Inr (answer, m), cl1)"
    and j: "jc_responses jc (trim_space answer) = Inr replies"
    and r: "match_replies (batch_ids (cl_next_id cl) (length calls)) calls replies = Inr xs"
    using assms by (auto simp: call_batch_def Let_def rate_limited_reply_def annotate_rpc_error_def
        split: if_splits prod.splits sum.splits option.splits reply_error.splits)
  from post_answer [OF p] obtain url status where
    "he_http env (cl_next_id cl + of_nat (length calls)) url (batch_request jc (batch_ids (cl_next_id cl) (length calls)) calls) =
      Http_status status answer" "200 \<le> status" "status < 300" "length answer \<le> max_rpc_response_bytes" by blast
  with j match_replies_Inr [OF r] show ?thesis
    by (intro exI [of _ url] exI [of _ status] exI [of _ answer] exI [of _ replies]) (simp add: batch_ids_def)
qed

text \<open>The order in which a node lists the replies of a batch changes nothing, errors included.\<close>

theorem batch_reply_order_is_irrelevant:
  assumes "mset xs = mset ys"
  shows "match_replies ids calls xs = match_replies ids calls ys"
  using index_replies_mset [OF assms] mset_eq_length [OF assms] by (simp add: match_replies_def)

text \<open>No answer of a contract makes the ABI string decoder slice outside the bytes it got.\<close>

theorem decode_abi_text_never_panics: "\<exists>r. decode_abi_text raw = Some r"
  by (auto simp: decode_abi_text_def Let_def)

text \<open>The ABI encoding of a UTF-8 string, with any padding after it, decodes to that string.\<close>

theorem abi_text_roundtrip:
  assumes "utf8_valid bs" and "length bs < 2 ^ 64"
  shows "decode_abi_text (be_bytes 32 32 @ be_bytes 32 (length bs) @ bs @ padding) = Some (Inr (string_of_bytes bs))"
proof -
  let ?raw = "be_bytes 32 32 @ be_bytes 32 (length bs) @ bs @ padding"
  have n: "be_nat (be_bytes 32 32) = 32" "be_nat (be_bytes 32 (length bs)) = length bs"
    using assms(2) by (auto intro!: be_nat_bytes)
  have s: "slice_at ?raw 0 32 = Some (be_bytes 32 32)" "slice_at ?raw 32 (32 + 32) = Some (be_bytes 32 (length bs))"
    "slice_at ?raw (32 + 32) (32 + 32 + length bs) = Some bs"
    by (simp_all add: slice_at_def)
  show ?thesis
    using assms s n by (simp add: decode_abi_text_def Let_def del: slice_at_bounds)
qed

definition ex_codec :: codec where
  "ex_codec = \<lparr>jc_request = (\<lambda>r. []), jc_requests = (\<lambda>rs. []), jc_response = (\<lambda>s. Inl E_json),
     jc_responses = (\<lambda>s. Inr [\<lparr>rs_id = 2, rs_result = ''7'', rs_error = None\<rparr>,
       \<lparr>rs_id = 1, rs_result = ''5'', rs_error = None\<rparr>]), jc_string = Inr\<rparr>"

definition ex_env :: http_env where
  "ex_env = \<lparr>he_rnd = (\<lambda>x. x), he_url_parse = (\<lambda>s. None), he_nows = (\<lambda>n. []), he_now = (\<lambda>n. 0),
     he_http = (\<lambda>n url body. Http_status 200 ''[]'')\<rparr>"

definition ex_client :: rpc_client where
  "ex_client = \<lparr>cl_endpoint = ''a'', cl_label = ''a'', cl_next_id = 0, cl_pool = None\<rparr>"

definition ex_calls :: "string batch_call list" where
  "ex_calls = [(''m'', ''[]'', Some Inr), (''n'', ''[]'', Some Inr)]"

text \<open>The node answers with the replies in another order than the calls.\<close>

theorem batch_results_follow_their_ids_witness:
  "fst (call_batch ex_env ex_codec ex_calls ex_client) = Inr [Some ''5'', Some ''7''] \<and>
   (\<exists>answer replies. jc_responses ex_codec (trim_space answer) = Inr replies \<and>
      (\<exists>r\<in>set replies. rs_id r = 1 \<and> rs_result r = ''5'') \<and> map rs_id replies = [2, 1])"
proof -
  have c: "call_batch ex_env ex_codec ex_calls ex_client =
    (Inr [Some ''5'', Some ''7''], ex_client\<lparr>cl_next_id := 2\<rparr>)"
    by code_simp
  have l: "length ex_calls = 2" "cl_next_id ex_client = 0" "ex_calls ! 0 = (''m'', ''[]'', Some Inr)"
    by (simp_all add: ex_calls_def ex_client_def)
  from batch_results_follow_their_ids [OF c] obtain answer replies where a: "jc_responses ex_codec (trim_space answer) = Inr replies"
    "\<forall>k<2. \<exists>r\<in>set replies. rs_id r = 0 + of_nat (Suc k) \<and> rs_error r = None \<and> rs_result r \<noteq> ''null'' \<and>
       result_of (snd (snd (ex_calls ! k))) (rs_result r) ([Some ''5'', Some ''7''] ! k)"
    unfolding l by blast
  have "(0 :: nat) < 2" by simp
  from a(2) [rule_format, OF this] obtain r where "r \<in> set replies" "rs_id r = 1" "rs_result r = ''5''"
    by (auto simp: l result_of_def)
  moreover have "map rs_id replies = [2, 1]" using a(1) by (auto simp: ex_codec_def)
  moreover have "fst (call_batch ex_env ex_codec ex_calls ex_client) = Inr [Some ''5'', Some ''7'']" by (simp add: c)
  ultimately show ?thesis using a(1) by (intro conjI exI [of _ answer] exI [of _ replies] bexI [of _ r]) assumption+
qed

theorem batch_reply_order_is_irrelevant_witness:
  "match_replies [1, 2] ex_calls [\<lparr>rs_id = 2, rs_result = ''7'', rs_error = None\<rparr>, \<lparr>rs_id = 1, rs_result = ''5'', rs_error = None\<rparr>] =
   match_replies [1, 2] ex_calls [\<lparr>rs_id = 1, rs_result = ''5'', rs_error = None\<rparr>, \<lparr>rs_id = 2, rs_result = ''7'', rs_error = None\<rparr>]"
  by (rule batch_reply_order_is_irrelevant) simp

theorem abi_text_roundtrip_witness:
  "decode_abi_text (be_bytes 32 32 @ be_bytes 32 2 @ [0x68, 0x69] @ replicate 30 0) = Some (Inr ''hi'')"
proof -
  have v: "utf8_valid [0x68, 0x69]" "length [0x68, 0x69 :: byte] < 2 ^ 64" "length [0x68, 0x69 :: byte] = 2"
    "string_of_bytes [0x68, 0x69] = ''hi''" by code_simp+
  from abi_text_roundtrip [OF v(1,2), of "replicate 30 0"] show ?thesis unfolding v(3,4) .
qed

end
