(* ===== verification/Domain_Score.thy ===== *)
theory Domain_Score
  imports Domain_Launch
begin

text \<open>
  \<open>internal/domain/score.go\<close>: the score of a wallet and its level, in Go's \<open>float64\<close>.

  A \<open>float64\<close> is a rational number, an infinity or \<open>NaN\<close>; the two zeros are one. An operation
  is the exact one followed by a rounding \<open>F\<close>, which the model leaves open: \<open>None\<close> is a result too
  large for a finite value. \<open>T\<close> is \<open>math.Tanh\<close> on the finite values. What the theorems need of the
  two is \<open>rounding_ok\<close> and \<open>tanh_ok\<close>, which IEEE 754 and the library promise. A compiler that
  fuses a product into a sum is not covered.
\<close>

section \<open>Floating-point numbers\<close>

datatype float64 = Finite rat | Infinite bool | Not_a_number

type_synonym to_float = "rat \<Rightarrow> rat option"

definition float_of :: "to_float \<Rightarrow> rat \<Rightarrow> float64" where
  "float_of F r = (case F r of Some x \<Rightarrow> Finite x | None \<Rightarrow> Infinite (0 < r))"

fun f_neg :: "float64 \<Rightarrow> float64" where
  "f_neg (Finite a) = Finite (- a)"
| "f_neg (Infinite p) = Infinite (\<not> p)"
| "f_neg Not_a_number = Not_a_number"

fun f_add :: "to_float \<Rightarrow> float64 \<Rightarrow> float64 \<Rightarrow> float64" where
  "f_add F Not_a_number y = Not_a_number"
| "f_add F x Not_a_number = Not_a_number"
| "f_add F (Infinite p) (Infinite q) = (if p = q then Infinite p else Not_a_number)"
| "f_add F (Infinite p) (Finite b) = Infinite p"
| "f_add F (Finite a) (Infinite q) = Infinite q"
| "f_add F (Finite a) (Finite b) = float_of F (a + b)"

definition f_sub :: "to_float \<Rightarrow> float64 \<Rightarrow> float64 \<Rightarrow> float64" where
  "f_sub F x y = f_add F x (f_neg y)"

fun f_sign :: "float64 \<Rightarrow> rat" where
  "f_sign (Finite a) = sgn a"
| "f_sign (Infinite p) = (if p then 1 else - 1)"
| "f_sign Not_a_number = 0"

fun f_mul :: "to_float \<Rightarrow> float64 \<Rightarrow> float64 \<Rightarrow> float64" where
  "f_mul F (Finite a) (Finite b) = float_of F (a * b)"
| "f_mul F x y = (if f_sign x * f_sign y = 0 then Not_a_number else Infinite (0 < f_sign x * f_sign y))"

text \<open>The divisors of the code are finite and not zero.\<close>

fun f_div :: "to_float \<Rightarrow> float64 \<Rightarrow> rat \<Rightarrow> float64" where
  "f_div F (Finite a) b = float_of F (a / b)"
| "f_div F (Infinite p) b = Infinite (p = (0 < b))"
| "f_div F Not_a_number b = Not_a_number"

text \<open>\<open>x < y\<close>, which is false for a \<open>NaN\<close>.\<close>

fun f_less :: "float64 \<Rightarrow> float64 \<Rightarrow> bool" where
  "f_less (Finite a) (Finite b) = (a < b)"
| "f_less (Finite a) (Infinite q) = q"
| "f_less (Infinite p) (Finite b) = (\<not> p)"
| "f_less (Infinite p) (Infinite q) = (\<not> p \<and> q)"
| "f_less x y = False"

definition f_at_least :: "float64 \<Rightarrow> float64 \<Rightarrow> bool" where
  "f_at_least x y \<longleftrightarrow> x \<noteq> Not_a_number \<and> y \<noteq> Not_a_number \<and> \<not> f_less x y"

text \<open>\<open>math.Max\<close> and \<open>math.Min\<close>: an infinity of the right sign wins, then a \<open>NaN\<close>.\<close>

definition f_max :: "float64 \<Rightarrow> float64 \<Rightarrow> float64" where
  "f_max x y = (if x = Infinite True \<or> y = Infinite True then Infinite True
     else if x = Not_a_number \<or> y = Not_a_number then Not_a_number
     else if f_less y x then x else y)"

definition f_min :: "float64 \<Rightarrow> float64 \<Rightarrow> float64" where
  "f_min x y = (if x = Infinite False \<or> y = Infinite False then Infinite False
     else if x = Not_a_number \<or> y = Not_a_number then Not_a_number
     else if f_less x y then x else y)"

fun f_tanh :: "(rat \<Rightarrow> rat) \<Rightarrow> float64 \<Rightarrow> float64" where
  "f_tanh T (Finite a) = Finite (T a)"
| "f_tanh T (Infinite p) = Finite (if p then 1 else - 1)"
| "f_tanh T Not_a_number = Not_a_number"

section \<open>The score\<close>

record score_sample =
  sp_profit_usd :: float64
  sp_chain_time :: time

record score_result =
  sc_score :: float64
  sc_win_rate :: float64
  sc_profit_usd :: float64
  sc_sample_n :: nat
  sc_level :: string
  sc_scored :: bool

definition score_level :: "float64 \<Rightarrow> string" where
  "score_level score =
     (if f_at_least score (Finite 80) then ''S''
      else if f_at_least score (Finite 65) then ''A''
      else if f_at_least score (Finite 50) then ''B''
      else if f_at_least score (Finite 35) then ''C''
      else ''D'')"

text \<open>The raw score of a win rate, a normalised profit, size and freshness.\<close>

definition raw_score :: "to_float \<Rightarrow> float64 \<Rightarrow> float64 \<Rightarrow> float64 \<Rightarrow> float64 \<Rightarrow> float64" where
  "raw_score F win_rate profit_norm size_norm fresh_norm =
     f_sub F
       (f_mul F (Finite 100)
         (f_add F
           (f_add F
             (f_add F (f_mul F (float_of F (40 / 100)) win_rate)
                      (f_mul F (float_of F (35 / 100)) (f_max profit_norm (Finite 0))))
             (f_mul F (float_of F (15 / 100)) size_norm))
           (f_mul F (float_of F (10 / 100)) fresh_norm)))
       (f_mul F (Finite 20) (f_max (f_neg profit_norm) (Finite 0)))"

definition compute_score :: "to_float \<Rightarrow> (rat \<Rightarrow> rat) \<Rightarrow> score_sample list \<Rightarrow> time \<Rightarrow> score_result" where
  "compute_score F T samples now =
     (if samples = [] then \<lparr>sc_score = Finite 0, sc_win_rate = Finite 0, sc_profit_usd = Finite 0, sc_sample_n = 0,
        sc_level = [], sc_scored = False\<rparr>
      else
       (let n = of_nat (length samples);
            cutoff = now - 14 * 24 * 3600 * second;
            profit = foldl (\<lambda>acc s. f_add F acc (sp_profit_usd s)) (Finite 0) samples;
            wins = length (filter (\<lambda>s. f_less (Finite 0) (sp_profit_usd s)) samples);
            fresh = length (filter (\<lambda>s. \<not> sp_chain_time s < cutoff) samples);
            win_rate = f_div F (Finite (of_nat wins)) n;
            profit_norm = f_tanh T (f_div F profit 10000);
            size_norm = f_tanh T (f_div F (Finite n) 40);
            fresh_norm = f_div F (Finite (of_nat fresh)) n;
            raw = raw_score F win_rate profit_norm size_norm fresh_norm;
            clamped = f_max (Finite 0) (f_min (Finite 100) raw);
            score = (if length samples < 8 \<and> f_less (Finite 49) clamped then Finite 49 else clamped)
        in \<lparr>sc_score = score, sc_win_rate = win_rate, sc_profit_usd = profit, sc_sample_n = length samples,
             sc_level = score_level score, sc_scored = True\<rparr>))"

section \<open>What rounding keeps\<close>

text \<open>Rounding is monotone and exact on small integers; \<open>tanh\<close> is odd in sign and below one.\<close>

definition rounding_ok :: "to_float \<Rightarrow> bool" where
  "rounding_ok F \<longleftrightarrow> (\<forall>n. \<bar>n\<bar> \<le> 2 ^ 53 \<longrightarrow> F (of_int n) = Some (of_int n)) \<and>
     (\<forall>a b x y. a \<le> b \<longrightarrow> F a = Some x \<longrightarrow> F b = Some y \<longrightarrow> x \<le> y) \<and>
     (\<forall>a. \<bar>a\<bar> \<le> 2 ^ 53 \<longrightarrow> F a \<noteq> None)"

definition tanh_ok :: "(rat \<Rightarrow> rat) \<Rightarrow> bool" where
  "tanh_ok T \<longleftrightarrow> (\<forall>a. - 1 \<le> T a \<and> T a \<le> 1) \<and> (\<forall>a. 0 \<le> a \<longrightarrow> 0 \<le> T a) \<and> (\<forall>a. a \<le> 0 \<longrightarrow> T a \<le> 0)"

lemma rounding_between:
  assumes "rounding_ok F" "of_int m \<le> r" "r \<le> of_int n" "\<bar>m\<bar> \<le> 2 ^ 53" "\<bar>n\<bar> \<le> 2 ^ 53"
  shows "\<exists>x. F r = Some x \<and> of_int m \<le> x \<and> x \<le> of_int n"
proof -
  have "- m \<le> 2 ^ 53" "n \<le> 2 ^ 53" using assms(4,5) by auto
  then have "(of_int (- m) :: rat) \<le> of_int (2 ^ 53)" "(of_int n :: rat) \<le> of_int (2 ^ 53)" by (simp_all only: of_int_le_iff)
  then have "\<bar>r\<bar> \<le> 2 ^ 53" using assms(2,3) by (simp add: abs_le_iff)
  then obtain x where x: "F r = Some x" using assms(1) unfolding rounding_ok_def by (metis option.exhaust)
  have "F (of_int m) = Some (of_int m)" "F (of_int n) = Some (of_int n)"
    using assms(1,4,5) by (simp_all add: rounding_ok_def)
  with x assms(1-3) show ?thesis unfolding rounding_ok_def by blast
qed

text \<open>Values between two small integers stay there.\<close>

definition between :: "int \<Rightarrow> int \<Rightarrow> float64 \<Rightarrow> bool" where
  "between m n x \<longleftrightarrow> (\<exists>r. x = Finite r \<and> of_int m \<le> r \<and> r \<le> of_int n)"

lemma between_float_of:
  "\<lbrakk>rounding_ok F; of_int m \<le> r; r \<le> of_int n; \<bar>m\<bar> \<le> 2 ^ 53; \<bar>n\<bar> \<le> 2 ^ 53\<rbrakk> \<Longrightarrow> between m n (float_of F r)"
  using rounding_between [of F m r n] by (auto simp: between_def float_of_def)

lemma between_add:
  "\<lbrakk>rounding_ok F; between m n x; between m' n' y; \<bar>m + m'\<bar> \<le> 2 ^ 53; \<bar>n + n'\<bar> \<le> 2 ^ 53\<rbrakk> \<Longrightarrow>
   between (m + m') (n + n') (f_add F x y)"
  by (auto simp: between_def [of m] between_def [of m'] intro!: between_float_of)

lemma between_neg: "between m n x \<Longrightarrow> between (- n) (- m) (f_neg x)"
  by (auto simp: between_def)

lemma between_mul:
  assumes "rounding_ok F" "between 0 m x" "between 0 n y" "0 \<le> m" "0 \<le> n" "m * n \<le> 2 ^ 53"
  shows "between 0 (m * n) (f_mul F x y)"
proof -
  from assms(2,3) obtain a b where x: "x = Finite a" "0 \<le> a" "a \<le> of_int m" and y: "y = Finite b" "0 \<le> b" "b \<le> of_int n"
    by (auto simp: between_def)
  have "a * b \<le> of_int (m * n)" using x y assms(4) by (simp add: mult_mono)
  then show ?thesis unfolding x(1) y(1) f_mul.simps
    using x y assms(4-6) by (intro between_float_of [OF assms(1)]) auto
qed

lemma between_max: "between m n x \<Longrightarrow> m \<le> 0 \<Longrightarrow> 0 \<le> n \<Longrightarrow> between 0 n (f_max x (Finite 0))"
  by (auto simp: between_def f_max_def)

lemma between_div:
  assumes "rounding_ok F" "0 < n" "k \<le> n"
  shows "between 0 1 (f_div F (Finite (of_nat k)) (of_nat n))"
  using assms by (auto intro!: between_float_of)

text \<open>The raw score is finite, whatever the four parts are.\<close>

lemma raw_score_finite:
  assumes F: "rounding_ok F" and w: "between 0 1 w" and p: "between (- 1) 1 p" and z: "between 0 1 z" and f: "between 0 1 f"
  shows "between (- 20) 400 (raw_score F w p z f)"
proof -
  have c: "between 0 1 (float_of F (40 / 100))" "between 0 1 (float_of F (35 / 100))"
    "between 0 1 (float_of F (15 / 100))" "between 0 1 (float_of F (10 / 100))"
    by (rule between_float_of [OF F]; simp)+
  have m: "between 0 1 (f_mul F x y)" if "between 0 1 x" "between 0 1 y" for x y
    using between_mul [OF F that] by simp
  have "between 0 1 (f_max p (Finite 0))" "between 0 1 (f_max (f_neg p) (Finite 0))"
    using between_max [OF p] between_max [OF between_neg [OF p]] by simp_all
  note parts = m [OF c(1) w] m [OF c(2) this(1)] m [OF c(3) z] m [OF c(4) f] this(2)
  have "between (((0 + 0) + 0) + 0) (((1 + 1) + 1) + 1)
    (f_add F (f_add F (f_add F (f_mul F (float_of F (40 / 100)) w) (f_mul F (float_of F (35 / 100)) (f_max p (Finite 0))))
       (f_mul F (float_of F (15 / 100)) z)) (f_mul F (float_of F (10 / 100)) f))"
    using parts by (intro between_add [OF F]) simp_all
  then have s: "between 0 4 (f_add F (f_add F (f_add F (f_mul F (float_of F (40 / 100)) w) (f_mul F (float_of F (35 / 100)) (f_max p (Finite 0))))
       (f_mul F (float_of F (15 / 100)) z)) (f_mul F (float_of F (10 / 100)) f))" by simp
  have h: "between 0 100 (Finite 100)" "between 0 20 (Finite 20)" by (simp_all add: between_def)
  have "between 0 (100 * 4) (f_mul F (Finite 100) (f_add F (f_add F (f_add F (f_mul F (float_of F (40 / 100)) w)
       (f_mul F (float_of F (35 / 100)) (f_max p (Finite 0)))) (f_mul F (float_of F (15 / 100)) z))
       (f_mul F (float_of F (10 / 100)) f)))"
    by (rule between_mul [OF F h(1) s]) simp_all
  moreover have "between (- (20 * 1)) (- 0) (f_neg (f_mul F (Finite 20) (f_max (f_neg p) (Finite 0))))"
    by (rule between_neg, rule between_mul [OF F h(2) parts(5)]) simp_all
  ultimately have "between (0 + - (20 * 1)) (100 * 4 + - 0) (raw_score F w p z f)"
    unfolding raw_score_def f_sub_def by (intro between_add [OF F]) simp_all
  then show ?thesis by simp
qed

lemma between_tanh: "tanh_ok T \<Longrightarrow> x \<noteq> Not_a_number \<Longrightarrow> between (- 1) 1 (f_tanh T x)"
  by (cases x) (auto simp: between_def tanh_ok_def)

lemma float_of_nan: "float_of F r \<noteq> Not_a_number"
  by (simp add: float_of_def split: option.split)

lemma f_div_nan: "f_div F x b = Not_a_number \<longleftrightarrow> x = Not_a_number"
  by (cases x) (simp_all add: float_of_nan)

section \<open>Properties\<close>

text \<open>C22. The score of a wallet whose profit is a number lies between 0 and 100, whatever the rounding of
  the sums and the values of the hyperbolic tangent; with fewer than eight samples it is at most 49, and
  so the level is C or D; and a level above D needs its threshold.\<close>

theorem score_is_bounded:
  assumes "rounding_ok F" and "tanh_ok T" and "samples \<noteq> []" and "length samples < 2 ^ 50"
    and "sc_profit_usd (compute_score F T samples now) \<noteq> Not_a_number"
  shows "\<exists>s. sc_score (compute_score F T samples now) = Finite s \<and> 0 \<le> s \<and> s \<le> 100 \<and>
    sc_level (compute_score F T samples now) =
      (if 80 \<le> s then ''S'' else if 65 \<le> s then ''A'' else if 50 \<le> s then ''B'' else if 35 \<le> s then ''C'' else ''D'') \<and>
    (length samples < 8 \<longrightarrow> s \<le> 49 \<and> sc_level (compute_score F T samples now) \<in> {''C'', ''D''})"
proof -
  define n where n: "n = length samples"
  have n0: "0 < n" using assms(3) by (simp add: n)
  define wins where wins: "wins = length (filter (\<lambda>s. f_less (Finite 0) (sp_profit_usd s)) samples)"
  define fresh where fresh: "fresh = length (filter (\<lambda>s. \<not> sp_chain_time s < now - 14 * 24 * 3600 * second) samples)"
  define profit where profit: "profit = foldl (\<lambda>acc s. f_add F acc (sp_profit_usd s)) (Finite 0) samples"
  let ?raw = "raw_score F (f_div F (Finite (of_nat wins)) (of_nat n)) (f_tanh T (f_div F profit 10000))
    (f_tanh T (f_div F (Finite (of_nat n)) 40)) (f_div F (Finite (of_nat fresh)) (of_nat n))"
  define clamped where clamped: "clamped = f_max (Finite 0) (f_min (Finite 100) ?raw)"
  have r: "compute_score F T samples now =
    (let score = (if n < 8 \<and> f_less (Finite 49) clamped then Finite 49 else clamped)
     in \<lparr>sc_score = score, sc_win_rate = f_div F (Finite (of_nat wins)) (of_nat n), sc_profit_usd = profit,
          sc_sample_n = n, sc_level = score_level score, sc_scored = True\<rparr>)"
    using assms(3) by (simp add: compute_score_def Let_def clamped n wins fresh profit)
  have pr: "profit \<noteq> Not_a_number" using assms(5) r by (simp add: Let_def)
  have w: "between 0 1 (f_div F (Finite (of_nat wins)) (of_nat n))" "between 0 1 (f_div F (Finite (of_nat fresh)) (of_nat n))"
    by (rule between_div [OF assms(1) n0]; simp add: n wins fresh)+
  have p: "between (- 1) 1 (f_tanh T (f_div F profit 10000))"
    by (rule between_tanh [OF assms(2)]) (simp add: f_div_nan pr)
  have z: "between 0 1 (f_tanh T (f_div F (Finite (of_nat n)) 40))"
  proof -
    have "between 0 (2 ^ 50) (float_of F (of_nat n / 40))"
    proof (intro between_float_of [OF assms(1)])
      have "(of_nat n :: rat) \<le> of_nat (2 ^ 50)" using assms(4) by (simp only: of_nat_le_iff n)
      then show "of_nat n / 40 \<le> (of_int (2 ^ 50) :: rat)" by simp
    qed simp_all
    then show ?thesis using assms(2) by (auto simp: between_def tanh_ok_def)
  qed
  from raw_score_finite [OF assms(1) w(1) p z w(2)] obtain x where x: "?raw = Finite x" by (auto simp: between_def)
  have "clamped = Finite (max 0 (min 100 x))" unfolding clamped x by (simp add: f_max_def f_min_def)
  then obtain s0 where s0: "clamped = Finite s0" "0 \<le> s0" "s0 \<le> 100" by auto
  define s where s: "s = (if n < 8 \<and> 49 < s0 then 49 else s0)"
  have "sc_score (compute_score F T samples now) = Finite s" "sc_level (compute_score F T samples now) = score_level (Finite s)"
    using r s0(1) by (simp_all add: Let_def s)
  moreover have "score_level (Finite s) =
      (if 80 \<le> s then ''S'' else if 65 \<le> s then ''A'' else if 50 \<le> s then ''B'' else if 35 \<le> s then ''C'' else ''D'')"
    by (simp add: score_level_def f_at_least_def not_less)
  moreover have "0 \<le> s" "s \<le> 100" "n < 8 \<longrightarrow> s \<le> 49" using s0 by (simp_all add: s)
  ultimately show ?thesis by (auto simp: n)
qed

text \<open>Exact arithmetic, and a step in place of the hyperbolic tangent.\<close>

definition ex_tanh :: "rat \<Rightarrow> rat" where "ex_tanh a = (if a \<le> - 1 then - 1 else if 1 \<le> a then 1 else a)"

theorem score_is_bounded_witness:
  "\<exists>s. sc_score (compute_score Some ex_tanh [\<lparr>sp_profit_usd = Finite 500, sp_chain_time = 7\<rparr>] 9) = Finite s \<and> s = 49"
proof -
  have "rounding_ok Some" "tanh_ok ex_tanh" by (auto simp: rounding_ok_def tanh_ok_def ex_tanh_def)
  moreover have "sc_score (compute_score Some ex_tanh [\<lparr>sp_profit_usd = Finite 500, sp_chain_time = 7\<rparr>] 9) = Finite 49"
    "sc_profit_usd (compute_score Some ex_tanh [\<lparr>sp_profit_usd = Finite 500, sp_chain_time = 7\<rparr>] 9) = Finite 500"
    by code_simp+
  ultimately show ?thesis
    using score_is_bounded [of Some ex_tanh "[\<lparr>sp_profit_usd = Finite 500, sp_chain_time = 7\<rparr>]" 9] by auto
qed

end
