(* ===== verification/Store_Db.thy ===== *)
theory Store_Db
  imports Domain_Fifo Contracts_Catalog Domain_Event_Id Domain_Score
begin

text \<open>
  The tables of \<open>migrations/\<close> and the statements of \<open>internal/store/\<close> (\<open>sync_state.go\<close>,
  \<open>launch_index.go\<close>, \<open>launch_pons.go\<close>, \<open>launch_o1_crypto.go\<close>, \<open>quote_assets.go\<close>,
  \<open>smart_wallets.go\<close>). A table is the list of its rows in insertion order, which is the order
  in which SQLite scans it. A text column that may be \<open>NULL\<close> is an empty text, as the code
  writes (\<open>nullString\<close>) and reads it (\<open>COALESCE\<close>). A time is stored with seconds precision.
  Columns of collation \<open>NOCASE\<close> are compared by \<open>equal_fold\<close>. A \<open>float64\<close> is the rational
  number it denotes. An unsigned number with the top bit set cannot be bound to a statement.

  Every write runs in one transaction of the single writer, so it either changes the
  database as a whole or fails and leaves it alone; \<open>fault\<close> is a failure of the database during
  the transaction. A context that is cancelled while its write is in the queue is not modelled.
\<close>

section \<open>Rows\<close>

record sync_state =
  ss_name :: string
  ss_last_block :: u64
  ss_last_hash :: string
  ss_updated_at :: time

record launch_row =
  lr_token :: string
  lr_category :: string
  lr_symbol :: string
  lr_name :: string
  lr_pair_symbol :: string
  lr_pair_address :: string
  lr_creator_eoa :: string
  lr_creator_contract :: string
  lr_created_at :: time
  lr_block_number :: u64
  lr_tx_hash :: string
  lr_status :: string
  lr_price_usd :: "rat option"
  lr_price_block :: u64
  lr_price_tx :: string
  lr_price_at :: "time option"

record wallet_event =
  we_id :: string
  we_block_number :: u64
  we_tx_index :: u64
  we_log_index :: u64
  we_tx_hash :: string
  we_chain_time :: time
  we_ingested_at :: time
  we_wallet :: string
  we_kind :: string
  we_category :: string
  we_token :: string
  we_direction :: string
  we_quote :: string
  we_quote_symbol :: string
  we_quote_amount_raw :: string
  we_quote_decimals :: "byte option"
  we_token_amount_raw :: string
  we_token_decimals :: "byte option"
  we_exec_quote :: "string option"
  we_exec_usd :: "rat option"
  we_quote_usd :: "rat option"
  we_router :: string

record quote_asset =
  qa_address :: string
  qa_symbol :: string
  qa_kind :: string
  qa_decimals :: byte

record smart_wallet =
  sw_address :: string
  sw_display_name :: string
  sw_source :: string
  sw_primary_type :: string
  sw_tags :: string
  sw_level :: string
  sw_note :: string
  sw_status :: string
  sw_source_url :: "string option"
  sw_last_seen_at :: "time option"
  sw_score :: rat
  sw_score_win_rate :: "float64 option"
  sw_score_profit_usd :: "float64 option"
  sw_score_sample_n :: nat
  sw_level_locked :: bool
  sw_created_at :: time
  sw_updated_at :: time

record db =
  db_sync :: "sync_state list"
  db_index :: "launch_row list"
  db_pons :: "pons_launch list"
  db_o1 :: "o1_crypto_launch list"
  db_o1_stock :: "o1_stock_launch list"
  db_long :: "long_launch list"
  db_events :: "wallet_event list"
  db_assets :: "quote_asset list"
  db_wallets :: "smart_wallet list"

section \<open>Statements\<close>

text \<open>\<open>t.UTC().Format(time.RFC3339)\<close> and back: whole seconds.\<close>

definition rfc3339 :: "time \<Rightarrow> time" where "rfc3339 t = t div second * second"

text \<open>Arithmetic of \<open>int\<close> and \<open>time.Duration\<close> wraps around at 64 bits.\<close>

definition int64 :: "int \<Rightarrow> int" where "int64 x = signed_take_bit 63 x"

lemma int64_id: "- (2 ^ 63) \<le> x \<Longrightarrow> x < 2 ^ 63 \<Longrightarrow> int64 x = x"
  by (simp add: int64_def signed_take_bit_int_eq_self_iff)

definition sql_uint :: "u64 \<Rightarrow> bool" where "sql_uint v \<longleftrightarrow> unat v < 2 ^ 63"

definition upd_where :: "('r \<Rightarrow> bool) \<Rightarrow> ('r \<Rightarrow> 'r) \<Rightarrow> 'r list \<Rightarrow> 'r list" where
  "upd_where P f rows = map (\<lambda>r. if P r then f r else r) rows"

definition write_tx :: "err option \<Rightarrow> ('s \<Rightarrow> ('s \<times> 'r) res) \<Rightarrow> 's \<Rightarrow> 's \<times> 'r res" where
  "write_tx fault f s =
     (case fault of Some e \<Rightarrow> (s, Inl e)
      | None \<Rightarrow> (case f s of Inl e \<Rightarrow> (s, Inl e) | Inr (s1, r) \<Rightarrow> (s1, Inr r)))"

section \<open>Watermarks (sync_state.go)\<close>

definition get_sync_state :: "string \<Rightarrow> db \<Rightarrow> sync_state res" where
  "get_sync_state name d =
     (case find (\<lambda>v. ss_name v = name) (db_sync d) of None \<Rightarrow> Inl E_no_rows | Some v \<Rightarrow> Inr v)"

definition put_sync_state_tx :: "sync_state \<Rightarrow> db \<Rightarrow> db res" where
  "put_sync_state_tx v d =
     guardE (\<not> sql_uint (ss_last_block v)) (E_store 0)
       (let row = v\<lparr>ss_updated_at := rfc3339 (ss_updated_at v)\<rparr>
        in Inr (if \<exists>r\<in>set (db_sync d). ss_name r = ss_name v
                then d\<lparr>db_sync := upd_where (\<lambda>r. ss_name r = ss_name v) (\<lambda>r. row) (db_sync d)\<rparr>
                else d\<lparr>db_sync := db_sync d @ [row]\<rparr>))"

definition put_sync_state :: "err option \<Rightarrow> sync_state \<Rightarrow> db \<Rightarrow> db \<times> unit res" where
  "put_sync_state fault v = write_tx fault (\<lambda>d. bindE (put_sync_state_tx v d) (\<lambda>d1. Inr (d1, ())))"

definition load_watermark :: "string \<Rightarrow> db \<Rightarrow> (u64 \<times> string) option" where
  "load_watermark name d =
     (case get_sync_state name d of Inl _ \<Rightarrow> None | Inr v \<Rightarrow> Some (ss_last_block v, ss_last_hash v))"

definition save_watermark_row ::
  "err option \<Rightarrow> string \<Rightarrow> u64 \<Rightarrow> string \<Rightarrow> time \<Rightarrow> db \<Rightarrow> db \<times> unit res" where
  "save_watermark_row fault name last_block last_hash updated_at =
     put_sync_state fault \<lparr>ss_name = name, ss_last_block = last_block, ss_last_hash = last_hash,
       ss_updated_at = updated_at\<rparr>"

section \<open>The launch catalog (launch_index.go)\<close>

definition find_launch :: "string \<Rightarrow> db \<Rightarrow> launch_row option" where
  "find_launch token d = find (\<lambda>r. equal_fold (lr_token r) token) (db_index d)"

definition launch_row_of :: "launch_view \<Rightarrow> string \<Rightarrow> string \<Rightarrow> string \<Rightarrow> string \<Rightarrow> launch_row" where
  "launch_row_of v token pair eoa contract =
     (case lv_created v of (ts, block, hash) \<Rightarrow>
       \<lparr>lr_token = token, lr_category = lv_category v, lr_symbol = lv_symbol v, lr_name = lv_name v,
        lr_pair_symbol = snd (lv_pair v), lr_pair_address = pair, lr_creator_eoa = eoa,
        lr_creator_contract = contract, lr_created_at = rfc3339 ts, lr_block_number = block,
        lr_tx_hash = hash, lr_status = ''active'', lr_price_usd = None, lr_price_block = 0,
        lr_price_tx = [], lr_price_at = None\<rparr>)"

definition insert_launch_index :: "eth_common \<Rightarrow> launch_view \<Rightarrow> db \<Rightarrow> (bool \<times> db) res" where
  "insert_launch_index E v d =
     bindE (normalize_address E (lv_token v)) (\<lambda>token.
     (case find_launch token d of
        Some row \<Rightarrow> guardE (lr_category row \<noteq> lv_category v)
          (E_conflict token (lr_category row) (lv_category v)) (Inr (False, d))
      | None \<Rightarrow>
         bindE (if fst (lv_pair v) = [] then Inr [] else normalize_address E (fst (lv_pair v))) (\<lambda>pair.
         bindE (normalize_address E (fst (lv_creators v))) (\<lambda>eoa.
         bindE (if snd (lv_creators v) = [] then Inr [] else normalize_address E (snd (lv_creators v))) (\<lambda>contract.
         guardE (\<not> sql_uint (fst (snd (lv_created v)))) (E_store 0)
           (Inr (True, d\<lparr>db_index := db_index d @ [launch_row_of v token pair eoa contract]\<rparr>)))))))"

definition check_launch_category :: "eth_common \<Rightarrow> string \<Rightarrow> string \<Rightarrow> db \<Rightarrow> unit res" where
  "check_launch_category E token incoming d =
     bindE (normalize_address E token) (\<lambda>token.
     (case find_launch token d of
        None \<Rightarrow> Inr ()
      | Some row \<Rightarrow> guardE (lr_category row \<noteq> incoming) (E_conflict token (lr_category row) incoming) (Inr ())))"

definition get_launch_index :: "eth_common \<Rightarrow> string \<Rightarrow> db \<Rightarrow> launch_row res" where
  "get_launch_index E token d =
     bindE (normalize_address E token) (\<lambda>t.
     (case find_launch t d of None \<Rightarrow> Inl E_no_rows | Some row \<Rightarrow> Inr row))"

definition update_launch_price ::
  "eth_common \<Rightarrow> err option \<Rightarrow> string \<Rightarrow> rat \<Rightarrow> u64 \<Rightarrow> string \<Rightarrow> time \<Rightarrow> db \<Rightarrow> db \<times> unit res" where
  "update_launch_price E fault token price block tx_hash ts d =
     (if price \<le> 0 then (d, Inl E_price)
      else case normalize_address E token of
        Inl e \<Rightarrow> (d, Inl e)
      | Inr t \<Rightarrow> write_tx fault (\<lambda>d. guardE (\<not> sql_uint block) (E_store 0)
          (Inr (d\<lparr>db_index := upd_where (\<lambda>r. equal_fold (lr_token r) t)
             (\<lambda>r. r\<lparr>lr_price_usd := Some price, lr_price_block := block, lr_price_tx := tx_hash,
                    lr_price_at := Some (rfc3339 ts)\<rparr>) (db_index d)\<rparr>, ()))) d)"

text \<open>\<open>LoadRegistrations\<close>: first the pools of graduated Pons launches, then those of o1.\<close>

definition load_registrations :: "db \<Rightarrow> pool_registration list \<times> curve_registration list" where
  "load_registrations d =
     (map (\<lambda>v. \<lparr>pr_pool_id = pl_pool_id v, pr_token = pl_token_address v, pr_category = ''pons'',
            pr_quote = pl_pair_address v, pr_token_decimals = 0, pr_quote_decimals = pl_pair_decimals v\<rparr>)
          (filter (\<lambda>v. pl_pool_id v \<noteq> []) (db_pons d)) @
      map (\<lambda>v. \<lparr>pr_pool_id = oc_pool_id v, pr_token = oc_token_address v, pr_category = ''o1_crypto'',
            pr_quote = oc_quote_address v, pr_token_decimals = 0, pr_quote_decimals = oc_quote_decimals v\<rparr>)
          (db_o1 d),
      map (\<lambda>v. \<lparr>cr_curve = pl_curve_address v, cr_token = pl_token_address v, cr_quote = pl_pair_address v,
            cr_token_decimals = 0, cr_quote_decimals = pl_pair_decimals v\<rparr>) (db_pons d))"

section \<open>Launch details (launch_pons.go, launch_o1_crypto.go)\<close>

text \<open>One \<open>INSERT INTO launch_pons\<close>, with the constraints of the table.\<close>

definition insert_pons_row :: "pons_launch \<Rightarrow> db \<Rightarrow> db res" where
  "insert_pons_row v d =
     guardE (\<not> sql_uint (pl_block_number v) \<or> \<not> sql_uint (pl_log_index v)) (E_store 0)
    (guardE (\<exists>r\<in>set (db_pons d). equal_fold (pl_token_address r) (pl_token_address v) \<or>
               equal_fold (pl_tx_hash r) (pl_tx_hash v) \<and> pl_log_index r = pl_log_index v) (E_store 1)
    (guardE (pl_launch_entry v \<notin> {''factory'', ''launch_and_buy''} \<or>
             pl_phase v \<notin> {''curve'', ''graduated'', ''failed''}) (E_store 1)
    (guardE (find_launch (pl_token_address v) d = None) (E_store 1)
       (Inr (d\<lparr>db_pons := db_pons d @ [v\<lparr>pl_created_at := rfc3339 (pl_created_at v)\<rparr>]\<rparr>)))))"

definition insert_o1_row :: "o1_crypto_launch \<Rightarrow> db \<Rightarrow> db res" where
  "insert_o1_row v d =
     guardE (\<not> sql_uint (oc_block_number v) \<or> \<not> sql_uint (oc_log_index v)) (E_store 0)
    (guardE (\<exists>r\<in>set (db_o1 d). equal_fold (oc_token_address r) (oc_token_address v) \<or>
               equal_fold (oc_tx_hash r) (oc_tx_hash v) \<and> oc_log_index r = oc_log_index v) (E_store 1)
    (guardE (find_launch (oc_token_address v) d = None) (E_store 1)
       (Inr (d\<lparr>db_o1 := db_o1 d @ [v\<lparr>oc_created_at := rfc3339 (oc_created_at v), oc_hook_warning := False\<rparr>]\<rparr>))))"

definition insert_pons_launch :: "eth_common \<Rightarrow> err option \<Rightarrow> pons_launch \<Rightarrow> db \<Rightarrow> db \<times> bool res" where
  "insert_pons_launch E fault v d =
     (case bindE (normalize_address E (pl_token_address v)) (\<lambda>token.
           bindE (normalize_address E (pl_curve_address v)) (\<lambda>curve.
           bindE (normalize_address E (pl_pair_address v)) (\<lambda>pair.
           bindE (normalize_address E (pl_deployer v)) (\<lambda>deployer.
           bindE (normalize_address E (pl_creator_eoa v)) (\<lambda>eoa.
           bindE (if pl_creator_fee_recipient v = [] then Inr [] else normalize_address E (pl_creator_fee_recipient v)) (\<lambda>fee.
           bindE (if pl_pool_id v = [] then Inr [] else normalize_hash (pl_pool_id v) 32) (\<lambda>pool.
             Inr (v\<lparr>pl_token_address := token, pl_curve_address := curve, pl_pair_address := pair,
                  pl_deployer := deployer, pl_creator_eoa := eoa, pl_creator_fee_recipient := fee,
                  pl_pool_id := pool\<rparr>)))))))) of
        Inl e \<Rightarrow> (d, Inl e)
      | Inr w \<Rightarrow> write_tx fault (\<lambda>d. bindE (insert_launch_index E (pons_view w) d) (\<lambda>(inserted, d1).
          if inserted then bindE (insert_pons_row w d1) (\<lambda>d2. Inr (d2, True)) else Inr (d1, False))) d)"

definition insert_o1_crypto_launch :: "eth_common \<Rightarrow> err option \<Rightarrow> o1_crypto_launch \<Rightarrow> db \<Rightarrow> db \<times> bool res" where
  "insert_o1_crypto_launch E fault v d =
     (case bindE (normalize_address E (oc_token_address v)) (\<lambda>token.
           bindE (normalize_address E (oc_quote_address v)) (\<lambda>quote.
           bindE (normalize_address E (oc_creator_eoa v)) (\<lambda>eoa.
           bindE (normalize_address E (oc_creator_event v)) (\<lambda>event.
           bindE (normalize_address E (oc_hooks v)) (\<lambda>hooks.
           bindE (normalize_hash (oc_pool_id v) 32) (\<lambda>pool.
             Inr (v\<lparr>oc_token_address := token, oc_quote_address := quote, oc_creator_eoa := eoa,
                  oc_creator_event := event, oc_hooks := hooks, oc_pool_id := pool\<rparr>))))))) of
        Inl e \<Rightarrow> (d, Inl e)
      | Inr w \<Rightarrow> write_tx fault (\<lambda>d. bindE (insert_launch_index E (o1_crypto_view w) d) (\<lambda>(inserted, d1).
          if inserted then bindE (insert_o1_row w d1) (\<lambda>d2. Inr (d2, True)) else Inr (d1, False))) d)"

text \<open>The two updates of a graduation.\<close>

definition graduate_tx :: "string \<Rightarrow> string \<Rightarrow> time \<Rightarrow> db \<Rightarrow> db" where
  "graduate_tx token pool_id ts d =
     d\<lparr>db_pons := upd_where (\<lambda>r. equal_fold (pl_token_address r) token)
          (\<lambda>r. r\<lparr>pl_phase := ''graduated'', pl_graduated_at := Some (rfc3339 ts), pl_pool_id := pool_id\<rparr>) (db_pons d),
       db_index := upd_where (\<lambda>r. equal_fold (lr_token r) token \<and> lr_category r = ''pons'')
          (\<lambda>r. r\<lparr>lr_status := ''graduated''\<rparr>) (db_index d)\<rparr>"

definition graduate_pons_launch ::
  "eth_common \<Rightarrow> err option \<Rightarrow> string \<Rightarrow> string \<Rightarrow> time \<Rightarrow> db \<Rightarrow> db \<times> unit res" where
  "graduate_pons_launch E fault token pool_id ts d =
     (case bindE (normalize_address E token) (\<lambda>t. bindE (normalize_hash pool_id 32) (\<lambda>p. Inr (t, p))) of
        Inl e \<Rightarrow> (d, Inl e)
      | Inr (t, p) \<Rightarrow> write_tx fault (\<lambda>d. Inr (graduate_tx t p ts d, ())) d)"

definition get_pons_launch :: "eth_common \<Rightarrow> string \<Rightarrow> db \<Rightarrow> pons_launch res" where
  "get_pons_launch E token d =
     bindE (normalize_address E token) (\<lambda>t.
     (case find (\<lambda>r. equal_fold (pl_token_address r) t) (db_pons d) of None \<Rightarrow> Inl E_no_rows | Some v \<Rightarrow> Inr v))"

definition get_o1_crypto_launch :: "eth_common \<Rightarrow> string \<Rightarrow> db \<Rightarrow> o1_crypto_launch res" where
  "get_o1_crypto_launch E token d =
     bindE (normalize_address E token) (\<lambda>t.
     (case find (\<lambda>r. equal_fold (oc_token_address r) t) (db_o1 d) of None \<Rightarrow> Inl E_no_rows | Some v \<Rightarrow> Inr v))"

definition get_o1_stock_launch :: "eth_common \<Rightarrow> string \<Rightarrow> db \<Rightarrow> o1_stock_launch res" where
  "get_o1_stock_launch E token d =
     bindE (normalize_address E token) (\<lambda>t.
     (case find (\<lambda>r. equal_fold (os_token_address r) t) (db_o1_stock d) of None \<Rightarrow> Inl E_no_rows | Some v \<Rightarrow> Inr v))"

definition get_long_launch :: "eth_common \<Rightarrow> string \<Rightarrow> db \<Rightarrow> long_launch res" where
  "get_long_launch E token d =
     bindE (normalize_address E token) (\<lambda>t.
     (case find (\<lambda>r. equal_fold (ll_token_address r) t) (db_long d) of None \<Rightarrow> Inl E_no_rows | Some v \<Rightarrow> Inr v))"

section \<open>Quote assets and wallets\<close>

definition get_quote_asset :: "eth_common \<Rightarrow> string \<Rightarrow> db \<Rightarrow> quote_asset res" where
  "get_quote_asset E address d =
     bindE (normalize_address E address) (\<lambda>a.
     (case find (\<lambda>r. equal_fold (qa_address r) a) (db_assets d) of None \<Rightarrow> Inl E_no_rows | Some v \<Rightarrow> Inr v))"

definition upsert_quote_asset :: "eth_common \<Rightarrow> err option \<Rightarrow> quote_asset \<Rightarrow> db \<Rightarrow> db \<times> unit res" where
  "upsert_quote_asset E fault v d =
     (case normalize_address E (qa_address v) of
        Inl e \<Rightarrow> (d, Inl e)
      | Inr a \<Rightarrow> write_tx fault (\<lambda>d.
          guardE (qa_kind v \<notin> {''eth'', ''usdg'', ''stock''}) (E_store 1)
            (Inr (if \<exists>r\<in>set (db_assets d). equal_fold (qa_address r) a
                  then d\<lparr>db_assets := upd_where (\<lambda>r. equal_fold (qa_address r) a)
                     (\<lambda>r. r\<lparr>qa_symbol := qa_symbol v, qa_decimals := qa_decimals v, qa_kind := qa_kind v\<rparr>) (db_assets d)\<rparr>
                  else d\<lparr>db_assets := db_assets d @ [v\<lparr>qa_address := a\<rparr>]\<rparr>, ()))) d)"

text \<open>\<open>ORDER BY address\<close>, under \<open>NOCASE\<close>.\<close>

definition load_smart_wallets :: "db \<Rightarrow> smart_wallet list" where
  "load_smart_wallets d = sort_key (\<lambda>w. to_lower (sw_address w)) (db_wallets d)"

definition list_smart_wallets :: "int \<Rightarrow> db \<Rightarrow> smart_wallet list res" where
  "list_smart_wallets limit d =
     guardE (limit < 1 \<or> 5000 < limit) E_limit (Inr (take (nat limit) (load_smart_wallets d)))"

text \<open>A \<open>NaN\<close> is bound as \<open>NULL\<close>, which the column of the score does not allow.\<close>

definition nullable :: "float64 \<Rightarrow> float64 option" where
  "nullable x = (if x = Not_a_number then None else Some x)"

definition score_column :: "float64 \<Rightarrow> rat option" where
  "score_column x = (case x of Finite s \<Rightarrow> if 0 \<le> s \<and> s \<le> 100 then Some s else None | _ \<Rightarrow> None)"

definition update_wallet_score ::
  "eth_common \<Rightarrow> err option \<Rightarrow> string \<Rightarrow> score_result \<Rightarrow> time \<Rightarrow> db \<Rightarrow> db \<times> unit res" where
  "update_wallet_score E fault address r ts d =
     (case normalize_address E address of
        Inl e \<Rightarrow> (d, Inl e)
      | Inr a \<Rightarrow> write_tx fault (\<lambda>d.
          guardE (\<exists>w\<in>set (db_wallets d). equal_fold (sw_address w) a \<and>
                    (score_column (sc_score r) = None \<or>
                     \<not> sw_level_locked w \<and> sc_level r \<notin> {''S'', ''A'', ''B'', ''C'', ''D''})) (E_store 1)
            (Inr (d\<lparr>db_wallets := upd_where (\<lambda>w. equal_fold (sw_address w) a)
               (\<lambda>w. w\<lparr>sw_score := the (score_column (sc_score r)), sw_score_win_rate := nullable (sc_win_rate r),
                    sw_score_profit_usd := nullable (sc_profit_usd r), sw_score_sample_n := sc_sample_n r,
                    sw_level := (if sw_level_locked w then sw_level w else sc_level r),
                    sw_updated_at := rfc3339 ts\<rparr>) (db_wallets d)\<rparr>, ()))) d)"

end
