(* ===== verification/Store_Commit.thy ===== *)
theory Store_Commit
  imports Store_Db
begin

text \<open>
  \<open>CommitBlock\<close> of \<open>internal/store/writer.go\<close>: the changes of one block and its watermark in one
  transaction. The warnings of the result are the errors of over-wide event keys.
\<close>

section \<open>Data\<close>

record pons_graduation =
  pg_token :: string
  pg_pool_id :: string
  pg_at :: time

record block_changes =
  bc_pons :: "pons_launch list"
  bc_o1 :: "o1_crypto_launch list"
  bc_graduations :: "pons_graduation list"
  bc_events :: "wallet_event list"

type_synonym conflict = "string \<times> string \<times> string"

record block_write_result =
  bw_pons :: "pons_launch list"
  bw_o1 :: "o1_crypto_launch list"
  bw_events :: "wallet_event list"
  bw_conflicts :: "conflict list"
  bw_warnings :: "err list"

section \<open>The parts of the transaction\<close>

text \<open>
  The loop over the launches of one venue: \<open>view\<close> is the launch as a row of the catalog and
  \<open>detail\<close> the insertion into the venue's table. A category conflict is recorded and skipped.
\<close>

fun commit_launches ::
  "eth_common \<Rightarrow> ('l \<Rightarrow> launch_view) \<Rightarrow> ('l \<Rightarrow> db \<Rightarrow> db res) \<Rightarrow> 'l list \<Rightarrow> db \<Rightarrow> (db \<times> 'l list \<times> conflict list) res" where
  "commit_launches E view detail [] d = Inr (d, [], [])"
| "commit_launches E view detail (l # ls) d =
     (case insert_launch_index E (view l) d of
        Inl (E_conflict token existing incoming) \<Rightarrow>
          bindE (commit_launches E view detail ls d)
            (\<lambda>(d1, inserted, conflicts). Inr (d1, inserted, (token, existing, incoming) # conflicts))
      | Inl e \<Rightarrow> Inl e
      | Inr (False, d1) \<Rightarrow> commit_launches E view detail ls d1
      | Inr (True, d1) \<Rightarrow>
          bindE (detail l d1) (\<lambda>d2.
          bindE (commit_launches E view detail ls d2)
            (\<lambda>(d3, inserted, conflicts). Inr (d3, l # inserted, conflicts))))"

definition commit_graduations :: "pons_graduation list \<Rightarrow> db \<Rightarrow> db" where
  "commit_graduations gs d = foldl (\<lambda>d g. graduate_tx (pg_token g) (pg_pool_id g) (pg_at g) d) d gs"

text \<open>The event as it is stored: with its key and normalised addresses.\<close>

definition prepare_event :: "eth_common \<Rightarrow> wallet_event \<Rightarrow> (wallet_event \<times> err list) res" where
  "prepare_event E v =
     (let (key, warning) = (if we_id v = [] then calc_event_id (we_block_number v) (we_tx_index v) (we_log_index v)
                            else (we_id v, None))
      in bindE (normalize_address E (we_wallet v)) (\<lambda>wallet.
         bindE (normalize_address E (we_token v)) (\<lambda>token.
         bindE (if we_quote v = [] then Inr [] else normalize_address E (we_quote v)) (\<lambda>quote.
           Inr (v\<lparr>we_id := key, we_wallet := wallet, we_token := token, we_quote := quote\<rparr>,
                case warning of None \<Rightarrow> [] | Some e \<Rightarrow> [e])))))"

definition event_row :: "wallet_event \<Rightarrow> wallet_event" where
  "event_row v = v\<lparr>we_chain_time := rfc3339 (we_chain_time v), we_ingested_at := rfc3339 (we_ingested_at v)\<rparr>"

definition event_checks :: "wallet_event \<Rightarrow> bool" where
  "event_checks v \<longleftrightarrow> we_kind v \<in> {''launch'', ''buy'', ''sell''} \<and>
     we_category v \<in> {''pons'', ''o1_stock'', ''o1_crypto'', ''long''} \<and>
     we_direction v \<in> {''launch'', ''buy'', ''sell''} \<and>
     we_router v \<in> {''curve'', ''universal_router'', ''gmgn'', ''launch_and_buy'', ''relay'', ''unknown''}"

text \<open>\<open>INSERT OR IGNORE\<close>: a known key or a violated check skips the row.\<close>

definition insert_event_tx :: "wallet_event \<Rightarrow> db \<Rightarrow> (bool \<times> db) res" where
  "insert_event_tx v d =
     guardE (\<not> sql_uint (we_block_number v) \<or> \<not> sql_uint (we_tx_index v) \<or> \<not> sql_uint (we_log_index v)) (E_store 0)
       (if event_checks v \<and> (\<forall>r\<in>set (db_events d). we_id r \<noteq> we_id v)
        then Inr (True, d\<lparr>db_events := db_events d @ [event_row v]\<rparr>)
        else Inr (False, d))"

definition touch_wallet :: "(smart_wallet \<Rightarrow> bool) \<Rightarrow> string \<Rightarrow> time \<Rightarrow> db \<Rightarrow> db" where
  "touch_wallet P address ts d =
     d\<lparr>db_wallets := upd_where (\<lambda>w. equal_fold (sw_address w) address \<and> P w)
        (\<lambda>w. w\<lparr>sw_last_seen_at := Some (rfc3339 ts), sw_updated_at := rfc3339 ts\<rparr>) (db_wallets d)\<rparr>"

text \<open>Is this the launch event of a launch that was skipped for its category?\<close>

definition launch_conflicted :: "eth_common \<Rightarrow> conflict list \<Rightarrow> wallet_event \<Rightarrow> bool res" where
  "launch_conflicted E conflicts v =
     (if we_kind v = ''launch''
      then bindE (normalize_address E (we_token v)) (\<lambda>token.
             Inr (\<exists>(t, existing, incoming)\<in>set conflicts. t = token \<and> incoming = we_category v))
      else Inr False)"

text \<open>After an insertion the wallet counts as seen, if it is active.\<close>

definition seen_active :: "bool \<Rightarrow> wallet_event \<Rightarrow> db \<Rightarrow> db" where
  "seen_active inserted w d =
     (if inserted then touch_wallet (\<lambda>w. sw_status w = ''active'') (we_wallet w) (we_ingested_at w) d else d)"

fun commit_events ::
  "eth_common \<Rightarrow> conflict list \<Rightarrow> wallet_event list \<Rightarrow> db \<Rightarrow> (db \<times> wallet_event list \<times> err list) res" where
  "commit_events E conflicts [] d = Inr (d, [], [])"
| "commit_events E conflicts (v # vs) d =
     bindE (launch_conflicted E conflicts v) (\<lambda>conflicted.
     if conflicted then commit_events E conflicts vs d
     else bindE (prepare_event E v) (\<lambda>(w, warnings).
          bindE (insert_event_tx w d) (\<lambda>(inserted, d1).
          bindE (commit_events E conflicts vs (seen_active inserted w d1)) (\<lambda>(d2, events, more_warnings).
               Inr (d2, if inserted then w # events else events, warnings @ more_warnings)))))"

definition commit_block_tx ::
  "eth_common \<Rightarrow> block_changes \<Rightarrow> sync_state \<Rightarrow> db \<Rightarrow> (db \<times> block_write_result) res" where
  "commit_block_tx E ch wm d =
     bindE (commit_launches E pons_view insert_pons_row (bc_pons ch) d) (\<lambda>(d1, pons, conflicts1).
     bindE (commit_launches E o1_crypto_view insert_o1_row (bc_o1 ch) d1) (\<lambda>(d2, o1, conflicts2).
     bindE (commit_events E (conflicts1 @ conflicts2) (bc_events ch) (commit_graduations (bc_graduations ch) d2))
       (\<lambda>(d3, events, warnings).
     bindE (put_sync_state_tx wm d3) (\<lambda>d4.
       Inr (d4, \<lparr>bw_pons = pons, bw_o1 = o1, bw_events = events, bw_conflicts = conflicts1 @ conflicts2,
                 bw_warnings = warnings\<rparr>)))))"

definition commit_block ::
  "eth_common \<Rightarrow> err option \<Rightarrow> block_changes \<Rightarrow> sync_state \<Rightarrow> db \<Rightarrow> db \<times> block_write_result res" where
  "commit_block E fault ch wm = write_tx fault (commit_block_tx E ch wm)"

section \<open>Categories only grow\<close>

definition category_of :: "db \<Rightarrow> string \<Rightarrow> string option" where
  "category_of d token = map_option lr_category (find_launch token d)"

definition extends :: "db \<Rightarrow> db \<Rightarrow> bool" where
  "extends d e \<longleftrightarrow> (\<forall>t c. category_of d t = Some c \<longrightarrow> category_of e t = Some c)"

lemma extends_refl [simp]: "extends d d"
  by (simp add: extends_def)

lemma extends_trans: "extends a b \<Longrightarrow> extends b c \<Longrightarrow> extends a c"
  by (simp add: extends_def)

lemma extends_index: "db_index e = db_index d \<Longrightarrow> extends d e"
  by (simp add: extends_def category_of_def find_launch_def)

lemma find_append: "find P (xs @ ys) = (case find P xs of None \<Rightarrow> find P ys | Some x \<Rightarrow> Some x)"
  by (induction xs) auto

lemma find_map: "find P (map f xs) = map_option f (find (\<lambda>x. P (f x)) xs)"
  by (induction xs) auto

lemma find_upd_where:
  assumes "\<And>r. P (f r) = P r"
  shows "find P (upd_where Q f rows) = map_option (\<lambda>r. if Q r then f r else r) (find P rows)"
  using assms by (induction rows) (auto simp: upd_where_def)

lemma extends_append: "find_launch (lr_token r) d = None \<Longrightarrow> extends d (d\<lparr>db_index := db_index d @ [r]\<rparr>)"
  by (auto simp: extends_def category_of_def find_launch_def find_append split: option.splits)

lemma insert_launch_index_cases:
  assumes "insert_launch_index E v d = r"
  obtains (bad) e where "r = Inl e" "\<And>t x i. e \<noteq> E_conflict t x i"
  | (conflict) t x where "normalize_address E (lv_token v) = Inr t" "category_of d t = Some x"
      "x \<noteq> lv_category v" "r = Inl (E_conflict t x (lv_category v))"
  | (known) t where "normalize_address E (lv_token v) = Inr t" "category_of d t = Some (lv_category v)" "r = Inr (False, d)"
  | (new) t row where "normalize_address E (lv_token v) = Inr t" "find_launch t d = None" "lr_token row = t"
      "lr_category row = lv_category v" "lr_status row = ''active''" "r = Inr (True, d\<lparr>db_index := db_index d @ [row]\<rparr>)"
proof -
  have plain: "e \<noteq> E_conflict t x i" if "normalize_address E s = Inl e" for s e t x i
    using that by (auto simp: normalize_address_def guardE_def Let_def split: if_splits)
  have opt: "e \<noteq> E_conflict t x i" if "(if s = [] then Inr [] else normalize_address E s) = Inl e" for s e t x i
    using that plain by (auto split: if_splits)
  show thesis
  proof (cases "normalize_address E (lv_token v)")
    case (Inl e)
    show thesis by (rule bad [of e]) (use Inl assms plain [OF Inl] in \<open>simp_all add: insert_launch_index_def\<close>)
  next
    case t: (Inr t)
    show thesis
    proof (cases "find_launch t d")
      case (Some row)
      show thesis
      proof (cases "lr_category row = lv_category v")
        case True
        with t Some assms show thesis by (intro known [of t]) (simp_all add: insert_launch_index_def category_of_def)
      next
        case False
        with t Some assms show thesis
          by (intro conflict [of t "lr_category row"]) (simp_all add: insert_launch_index_def category_of_def)
      qed
    next
      case None
      let ?rest = "bindE (if fst (lv_pair v) = [] then Inr [] else normalize_address E (fst (lv_pair v))) (\<lambda>pair.
         bindE (normalize_address E (fst (lv_creators v))) (\<lambda>eoa.
         bindE (if snd (lv_creators v) = [] then Inr [] else normalize_address E (snd (lv_creators v))) (\<lambda>contract.
         guardE (\<not> sql_uint (fst (snd (lv_created v)))) (E_store 0)
           (Inr (True, d\<lparr>db_index := db_index d @ [launch_row_of v t pair eoa contract]\<rparr>)))))"
      have r: "r = ?rest" using assms t None by (simp add: insert_launch_index_def)
      show thesis
      proof (cases ?rest)
        case (Inl e)
        have "e \<noteq> E_conflict t' x i" for t' x i
          using Inl opt plain by (auto simp: res_simps) blast+
        with Inl r show thesis by (intro bad [of e]) simp_all
      next
        case (Inr a)
        then obtain pair eoa contract where
          "a = (True, d\<lparr>db_index := db_index d @ [launch_row_of v t pair eoa contract]\<rparr>)"
          by (auto simp: res_simps)
        with t None r Inr show thesis
          by (intro new [of t "launch_row_of v t pair eoa contract"])
            (simp_all add: launch_row_of_def split: prod.splits)
      qed
    qed
  qed
qed

text \<open>A detail insertion leaves the catalog alone.\<close>

lemma insert_pons_row_keeps: "insert_pons_row l d = Inr e \<Longrightarrow> db_index e = db_index d"
  by (auto simp: insert_pons_row_def res_simps)

lemma insert_o1_row_keeps: "insert_o1_row l d = Inr e \<Longrightarrow> db_index e = db_index d"
  by (auto simp: insert_o1_row_def res_simps)

lemma commit_launches_Cons:
  assumes "commit_launches E view detail (l # ls) d = Inr (e, ins, cs)"
  obtains (conflict) t x cs1 where "normalize_address E (lv_token (view l)) = Inr t" "category_of d t = Some x"
      "x \<noteq> lv_category (view l)" "cs = (t, x, lv_category (view l)) # cs1"
      "commit_launches E view detail ls d = Inr (e, ins, cs1)"
  | (known) t where "normalize_address E (lv_token (view l)) = Inr t" "category_of d t = Some (lv_category (view l))"
      "commit_launches E view detail ls d = Inr (e, ins, cs)"
  | (new) t row d2 ins1 where "normalize_address E (lv_token (view l)) = Inr t" "find_launch t d = None"
      "lr_token row = t" "lr_category row = lv_category (view l)" "lr_status row = ''active''"
      "detail l (d\<lparr>db_index := db_index d @ [row]\<rparr>) = Inr d2" "ins = l # ins1"
      "commit_launches E view detail ls d2 = Inr (e, ins1, cs)"
  using refl
proof (rule insert_launch_index_cases [of E "view l" d])
  fix x assume "insert_launch_index E (view l) d = Inl x" "\<And>t y i. x \<noteq> E_conflict t y i"
  with assms show thesis by (cases x) auto
next
  fix t x assume "normalize_address E (lv_token (view l)) = Inr t" "category_of d t = Some x"
      "x \<noteq> lv_category (view l)" "insert_launch_index E (view l) d = Inl (E_conflict t x (lv_category (view l)))"
  with assms conflict show thesis by (auto simp: res_simps)
next
  fix t assume "normalize_address E (lv_token (view l)) = Inr t" "category_of d t = Some (lv_category (view l))"
    "insert_launch_index E (view l) d = Inr (False, d)"
  with assms known show thesis by simp
next
  fix t row assume "normalize_address E (lv_token (view l)) = Inr t" "find_launch t d = None" "lr_token row = t"
      "lr_category row = lv_category (view l)" "lr_status row = ''active''"
      "insert_launch_index E (view l) d = Inr (True, d\<lparr>db_index := db_index d @ [row]\<rparr>)"
  with assms new show thesis by (auto simp: res_simps)
qed

lemma commit_launches_extends:
  assumes keeps: "\<And>l d e. detail l d = Inr e \<Longrightarrow> db_index e = db_index d"
  shows "commit_launches E view detail ls d = Inr (e, ins, cs) \<Longrightarrow> extends d e"
proof (induction ls arbitrary: d ins cs)
  case (Cons l ls)
  from Cons.prems show ?case
  proof (rule commit_launches_Cons)
    fix t row d2 ins1 assume a: "find_launch t d = None" "lr_token row = t"
      "detail l (d\<lparr>db_index := db_index d @ [row]\<rparr>) = Inr d2"
      "commit_launches E view detail ls d2 = Inr (e, ins1, cs)"
    have "extends d (d\<lparr>db_index := db_index d @ [row]\<rparr>)" using a(1,2) by (intro extends_append) simp
    moreover have "extends (d\<lparr>db_index := db_index d @ [row]\<rparr>) d2"
      using keeps [OF a(3)] by (intro extends_index) simp
    ultimately show ?thesis using Cons.IH [OF a(4)] extends_trans by blast
  qed (use Cons.IH in blast)+
qed simp

text \<open>Launches that went through once are all known, or the same conflicts, ever after.\<close>

lemma commit_launches_again:
  assumes keeps: "\<And>l d e. detail l d = Inr e \<Longrightarrow> db_index e = db_index d"
  shows "\<lbrakk>commit_launches E view detail ls d = Inr (e, ins, cs); extends e f\<rbrakk> \<Longrightarrow>
    commit_launches E view detail ls f = Inr (f, [], cs)"
proof (induction ls arbitrary: d ins cs)
  case (Cons l ls)
  have again: "commit_launches E view detail (l # ls) f = commit_launches E view detail ls f"
    if "normalize_address E (lv_token (view l)) = Inr t" "category_of f t = Some (lv_category (view l))" for t
    using that by (auto simp: insert_launch_index_def category_of_def)
  have ext: "category_of f t = Some c"
    if "commit_launches E view detail ls a = Inr (e, i, x)" "category_of a t = Some c" for a i x t c
  proof -
    have "extends a e" by (rule commit_launches_extends [OF _ that(1)]) (rule keeps)
    then show ?thesis using that(2) Cons.prems(2) unfolding extends_def by blast
  qed
  from Cons.prems(1) show ?case
  proof (rule commit_launches_Cons)
    fix t x cs1 assume a: "normalize_address E (lv_token (view l)) = Inr t" "category_of d t = Some x"
      "x \<noteq> lv_category (view l)" "cs = (t, x, lv_category (view l)) # cs1"
      "commit_launches E view detail ls d = Inr (e, ins, cs1)"
    from ext [OF a(5,2)] obtain row where "find_launch t f = Some row" "lr_category row = x"
      by (auto simp: category_of_def)
    with a Cons.IH [OF a(5) Cons.prems(2)] show ?thesis by (simp add: insert_launch_index_def)
  next
    fix t assume a: "normalize_address E (lv_token (view l)) = Inr t" "category_of d t = Some (lv_category (view l))"
      "commit_launches E view detail ls d = Inr (e, ins, cs)"
    show ?thesis using again [OF a(1) ext [OF a(3,2)]] Cons.IH [OF a(3) Cons.prems(2)] by simp
  next
    fix t row d2 ins1 assume a: "normalize_address E (lv_token (view l)) = Inr t" "find_launch t d = None"
      "lr_token row = t" "lr_category row = lv_category (view l)"
      "detail l (d\<lparr>db_index := db_index d @ [row]\<rparr>) = Inr d2"
      "commit_launches E view detail ls d2 = Inr (e, ins1, cs)"
    have "category_of d2 t = Some (lv_category (view l))"
      using a(2-4) keeps [OF a(5)] by (simp add: category_of_def find_launch_def find_append equal_fold_def)
    then show ?thesis using again [OF a(1) ext [OF a(6)]] Cons.IH [OF a(6) Cons.prems(2)] by simp
  qed
qed simp

section \<open>Graduations\<close>

definition graduate_row :: "pons_launch \<Rightarrow> pons_graduation \<Rightarrow> pons_launch" where
  "graduate_row r g = (if equal_fold (pl_token_address r) (pg_token g)
     then r\<lparr>pl_phase := ''graduated'', pl_graduated_at := Some (rfc3339 (pg_at g)), pl_pool_id := pg_pool_id g\<rparr> else r)"

definition graduate_status :: "launch_row \<Rightarrow> pons_graduation \<Rightarrow> launch_row" where
  "graduate_status r g = (if equal_fold (lr_token r) (pg_token g) \<and> lr_category r = ''pons''
     then r\<lparr>lr_status := ''graduated''\<rparr> else r)"

lemma commit_graduations_eq: "commit_graduations gs d =
    d\<lparr>db_pons := map (\<lambda>r. foldl graduate_row r gs) (db_pons d),
      db_index := map (\<lambda>r. foldl graduate_status r gs) (db_index d)\<rparr>"
proof (induction gs arbitrary: d)
  case Nil
  then show ?case by (simp add: commit_graduations_def)
next
  case (Cons g gs)
  have "graduate_tx (pg_token g) (pg_pool_id g) (pg_at g) d =
      d\<lparr>db_pons := map (\<lambda>r. graduate_row r g) (db_pons d), db_index := map (\<lambda>r. graduate_status r g) (db_index d)\<rparr>"
    by (simp add: graduate_tx_def upd_where_def graduate_row_def graduate_status_def)
  with Cons show ?case by (simp add: commit_graduations_def comp_def)
qed

lemma graduate_row_token [simp]: "pl_token_address (graduate_row r g) = pl_token_address r"
  "pl_token_address (foldl graduate_row r gs) = pl_token_address r"
  by (simp add: graduate_row_def, induction gs arbitrary: r) (simp_all add: graduate_row_def)

lemma graduate_status_keeps [simp]: "lr_token (graduate_status r g) = lr_token r"
  "lr_category (graduate_status r g) = lr_category r"
  "lr_token (foldl graduate_status r gs) = lr_token r"
  "lr_category (foldl graduate_status r gs) = lr_category r"
proof -
  show a: "lr_token (graduate_status r g) = lr_token r" "lr_category (graduate_status r g) = lr_category r" for r g
    by (simp_all add: graduate_status_def)
  show "lr_token (foldl graduate_status r gs) = lr_token r" by (induction gs arbitrary: r) (simp_all add: a)
  show "lr_category (foldl graduate_status r gs) = lr_category r" by (induction gs arbitrary: r) (simp_all add: a)
qed

text \<open>Only the last matching graduation counts, so applying all of them twice is applying them once.\<close>

lemma foldl_graduate_row: "foldl graduate_row r gs =
    (case find (\<lambda>g. equal_fold (pl_token_address r) (pg_token g)) (rev gs) of None \<Rightarrow> r
     | Some g \<Rightarrow> r\<lparr>pl_phase := ''graduated'', pl_graduated_at := Some (rfc3339 (pg_at g)), pl_pool_id := pg_pool_id g\<rparr>)"
  by (induction gs rule: rev_induct) (auto simp: graduate_row_def split: option.splits)

lemma foldl_graduate_row_twice: "foldl graduate_row (foldl graduate_row r gs) gs = foldl graduate_row r gs"
  unfolding foldl_graduate_row [of "foldl graduate_row r gs"] graduate_row_token
  by (simp add: foldl_graduate_row [of r] split: option.split)

lemma foldl_graduate_status: "foldl graduate_status r gs =
    (if lr_category r = ''pons'' \<and> (\<exists>g\<in>set gs. equal_fold (lr_token r) (pg_token g))
     then r\<lparr>lr_status := ''graduated''\<rparr> else r)"
proof (induction gs rule: rev_induct)
  case (snoc g gs)
  show ?case
    unfolding foldl_append foldl.simps snoc graduate_status_def [of _ g]
    by (cases "lr_category r = ''pons''"; cases "equal_fold (lr_token r) (pg_token g)";
        cases "\<exists>g\<in>set gs. equal_fold (lr_token r) (pg_token g)") simp_all
qed simp

lemma foldl_graduate_status_twice: "foldl graduate_status (foldl graduate_status r gs) gs = foldl graduate_status r gs"
proof (cases "lr_category r = ''pons'' \<and> (\<exists>g\<in>set gs. equal_fold (lr_token r) (pg_token g))")
  case True
  have "foldl graduate_status r gs = r\<lparr>lr_status := ''graduated''\<rparr>"
    unfolding foldl_graduate_status [of r gs] by (rule if_P [OF True])
  with True show ?thesis by (simp add: foldl_graduate_status [of "r\<lparr>lr_status := ''graduated''\<rparr>" gs])
next
  case False
  have "foldl graduate_status r gs = r" unfolding foldl_graduate_status [of r gs] by (rule if_not_P [OF False])
  then show ?thesis by simp
qed

lemma commit_graduations_extends: "extends d (commit_graduations gs d)"
proof -
  have "find_launch t (commit_graduations gs d) = map_option (\<lambda>r. foldl graduate_status r gs) (find_launch t d)" for t
    by (simp add: find_launch_def commit_graduations_eq find_map comp_def)
  then show ?thesis by (auto simp: extends_def category_of_def)
qed

lemma commit_graduations_again:
  assumes "db_pons e = db_pons (commit_graduations gs d)" "db_index e = db_index (commit_graduations gs d)"
  shows "commit_graduations gs e = e"
  using assms by (simp add: commit_graduations_eq [of gs e])
    (simp add: commit_graduations_eq comp_def foldl_graduate_row_twice foldl_graduate_status_twice)

section \<open>Events\<close>

definition event_ids :: "db \<Rightarrow> string set" where "event_ids d = we_id ` set (db_events d)"

definition same_launches :: "db \<Rightarrow> db \<Rightarrow> bool" where
  "same_launches d e \<longleftrightarrow> db_index e = db_index d \<and> db_pons e = db_pons d \<and> db_o1 e = db_o1 d"

lemma insert_event_tx_Inr:
  assumes "insert_event_tx v d = Inr (b, e)"
  shows "same_launches d e" "event_ids e = (if b then insert (we_id v) (event_ids d) else event_ids d)"
    "b \<or> \<not> event_checks v \<or> we_id v \<in> event_ids d" "\<not> b \<longrightarrow> e = d" "db_sync e = db_sync d"
    "b \<longrightarrow> event_checks v \<and> we_id v \<notin> event_ids d \<and> db_events e = db_events d @ [event_row v]"
  using assms by (auto simp: insert_event_tx_def event_ids_def event_row_def same_launches_def guardE_def image_iff split: if_splits) metis

lemma seen_active_keeps [simp]: "same_launches d (seen_active b w d)" "db_events (seen_active b w d) = db_events d"
  "event_ids (seen_active b w d) = event_ids d" "db_sync (seen_active b w d) = db_sync d"
  by (simp_all add: seen_active_def touch_wallet_def event_ids_def same_launches_def)

lemma same_launches_trans: "same_launches a b \<Longrightarrow> same_launches b c \<Longrightarrow> same_launches a c"
  by (simp add: same_launches_def)

text \<open>One event of the loop: skipped for a conflict, or prepared and inserted.\<close>

lemma commit_events_Cons:
  assumes "commit_events E cs (v # vs) d = Inr (e, evs, ws)"
  obtains (skip) "launch_conflicted E cs v = Inr True" "commit_events E cs vs d = Inr (e, evs, ws)"
  | (insert) w ws1 b d1 evs1 ws2 where "launch_conflicted E cs v = Inr False"
      "prepare_event E v = Inr (w, ws1)" "insert_event_tx w d = Inr (b, d1)"
      "commit_events E cs vs (seen_active b w d1) = Inr (e, evs1, ws2)"
      "evs = (if b then w # evs1 else evs1)" "ws = ws1 @ ws2"
proof -
  obtain c where c: "launch_conflicted E cs v = Inr c" using assms by (cases "launch_conflicted E cs v") auto
  show thesis
  proof (cases c)
    case True
    with c assms show thesis by (intro skip) simp_all
  next
    case False
    have cf: "launch_conflicted E cs v = Inr False" using c False by simp
    obtain w ws1 where p: "prepare_event E v = Inr (w, ws1)"
      using assms cf by (cases "prepare_event E v") auto
    obtain b d1 where i: "insert_event_tx w d = Inr (b, d1)"
      using assms cf p by (cases "insert_event_tx w d") auto
    obtain e1 evs1 ws2 where m: "commit_events E cs vs (seen_active b w d1) = Inr (e1, evs1, ws2)"
      using assms cf p i by (cases "commit_events E cs vs (seen_active b w d1)") auto
    have "e1 = e" "evs = (if b then w # evs1 else evs1)" "ws = ws1 @ ws2"
      using assms cf p i m by simp_all
    with insert cf p i m show thesis by blast
  qed
qed

lemma commit_events_keeps:
  "commit_events E cs vs d = Inr (e, evs, ws) \<Longrightarrow>
   same_launches d e \<and> event_ids d \<subseteq> event_ids e \<and> db_sync e = db_sync d"
proof (induction vs arbitrary: d evs ws)
  case Nil
  then show ?case by (simp add: same_launches_def)
next
  case (Cons v vs)
  from Cons.prems show ?case
  proof (rule commit_events_Cons)
    assume "commit_events E cs vs d = Inr (e, evs, ws)"
    then show ?thesis by (rule Cons.IH)
  next
    fix w ws1 b d1 evs1 ws2 assume a: "insert_event_tx w d = Inr (b, d1)"
      "commit_events E cs vs (seen_active b w d1) = Inr (e, evs1, ws2)"
    note i = insert_event_tx_Inr [OF a(1)]
    have "same_launches d (seen_active b w d1)" using same_launches_trans [OF i(1)] by simp
    moreover have "event_ids d \<subseteq> event_ids (seen_active b w d1)" using i(2) by auto
    ultimately show ?thesis using Cons.IH [OF a(2)] i(5) by (auto dest: same_launches_trans)
  qed
qed

text \<open>Events that went through once are all known, or skipped, ever after.\<close>

lemma commit_events_again:
  "\<lbrakk>commit_events E cs vs d = Inr (e, evs, ws); event_ids e \<subseteq> event_ids f\<rbrakk> \<Longrightarrow>
   \<exists>ws'. commit_events E cs vs f = Inr (f, [], ws')"
proof (induction vs arbitrary: d evs ws)
  case Nil
  then show ?case by simp
next
  case (Cons v vs)
  from Cons.prems(1) show ?case
  proof (rule commit_events_Cons)
    assume a: "launch_conflicted E cs v = Inr True" "commit_events E cs vs d = Inr (e, evs, ws)"
    from Cons.IH [OF a(2) Cons.prems(2)] show ?thesis by (simp add: a(1))
  next
    fix w ws1 b d1 evs1 ws2
    assume a: "launch_conflicted E cs v = Inr False" "prepare_event E v = Inr (w, ws1)"
      "insert_event_tx w d = Inr (b, d1)" "commit_events E cs vs (seen_active b w d1) = Inr (e, evs1, ws2)"
    have "event_ids d1 \<subseteq> event_ids e" using commit_events_keeps [OF a(4)] by simp
    then have "\<not> event_checks w \<or> we_id w \<in> event_ids f"
      using insert_event_tx_Inr(2,3) [OF a(3)] Cons.prems(2) by (auto split: if_splits)
    then have "insert_event_tx w f = Inr (False, f)"
      using a(3) by (auto simp: insert_event_tx_def event_ids_def guardE_def split: if_splits)
    then show ?thesis
      using Cons.IH [OF a(4) Cons.prems(2)] by (auto simp: a(1,2) seen_active_def)
  qed
qed

section \<open>Watermarks\<close>

lemma find_None_iff: "find P xs = None \<longleftrightarrow> (\<forall>x\<in>set xs. \<not> P x)"
  by (induction xs) auto

lemma put_sync_state_load:
  assumes "put_sync_state_tx wm d = Inr e"
  shows "load_watermark (ss_name wm) e = Some (ss_last_block wm, ss_last_hash wm)"
    "same_launches d e" "event_ids e = event_ids d"
proof -
  let ?row = "wm\<lparr>ss_updated_at := rfc3339 (ss_updated_at wm)\<rparr>"
  let ?P = "\<lambda>r. ss_name r = ss_name wm"
  have e: "e = (if \<exists>r\<in>set (db_sync d). ?P r then d\<lparr>db_sync := upd_where ?P (\<lambda>r. ?row) (db_sync d)\<rparr>
                else d\<lparr>db_sync := db_sync d @ [?row]\<rparr>)"
    using assms by (auto simp: put_sync_state_tx_def Let_def res_simps)
  have "find ?P (db_sync e) = Some ?row"
  proof (cases "find ?P (db_sync d)")
    case None
    then have "\<not> (\<exists>r\<in>set (db_sync d). ?P r)" by (simp add: find_None_iff)
    with None show ?thesis by (simp add: e find_append)
  next
    case (Some r)
    have "\<exists>r\<in>set (db_sync d). ?P r"
    proof (rule ccontr)
      assume "\<not> ?thesis"
      then have "find ?P (db_sync d) = None" by (simp add: find_None_iff)
      with Some show False by simp
    qed
    moreover have "?P r" using Some by (induction "db_sync d") (auto simp: find_Some_iff)
    moreover have "find ?P (upd_where ?P (\<lambda>r. ?row) (db_sync d)) = Some ?row"
      using Some \<open>?P r\<close> by (induction "db_sync d" arbitrary: d) (auto simp: upd_where_def find_map find_Some_iff intro!: exI)
    ultimately show ?thesis by (simp add: e)
  qed
  then show "load_watermark (ss_name wm) e = Some (ss_last_block wm, ss_last_hash wm)"
    by (simp add: load_watermark_def get_sync_state_def)
  show "same_launches d e" "event_ids e = event_ids d"
    by (simp_all add: e same_launches_def event_ids_def)
qed

lemma put_sync_state_again:
  assumes "put_sync_state_tx wm d = Inr e"
  shows "put_sync_state_tx wm e = Inr e"
proof -
  let ?row = "wm\<lparr>ss_updated_at := rfc3339 (ss_updated_at wm)\<rparr>"
  let ?P = "\<lambda>r. ss_name r = ss_name wm"
  let ?Q = "\<exists>r\<in>set (db_sync d). ?P r"
  have "sql_uint (ss_last_block wm)" and e: "e = (if ?Q then d\<lparr>db_sync := upd_where ?P (\<lambda>r. ?row) (db_sync d)\<rparr>
                else d\<lparr>db_sync := db_sync d @ [?row]\<rparr>)"
    using assms by (auto simp: put_sync_state_tx_def Let_def res_simps)
  moreover have "(\<exists>r\<in>set (db_sync e). ?P r) \<and> upd_where ?P (\<lambda>r. ?row) (db_sync e) = db_sync e"
  proof (cases ?Q)
    case True
    then have "?row \<in> set (db_sync e)" by (auto simp: e upd_where_def)
    then have "\<exists>r\<in>set (db_sync e). ?P r" by (rule bexI [rotated]) simp
    moreover have "upd_where ?P (\<lambda>r. ?row) (db_sync e) = db_sync e" using True by (simp add: e upd_where_def)
    ultimately show ?thesis by blast
  next
    case False
    then have "map (\<lambda>r. if ?P r then ?row else r) (db_sync d) = db_sync d" by (intro map_idI) auto
    with False show ?thesis by (simp add: e upd_where_def)
  qed
  ultimately show ?thesis by (simp add: put_sync_state_tx_def Let_def)
qed

section \<open>The whole transaction\<close>

lemma commit_block_tx_parts:
  assumes "commit_block_tx E ch wm d = Inr (e, r)"
  obtains d1 p cs1 d2 o1 cs2 d3 evs ws where
    "commit_launches E pons_view insert_pons_row (bc_pons ch) d = Inr (d1, p, cs1)"
    "commit_launches E o1_crypto_view insert_o1_row (bc_o1 ch) d1 = Inr (d2, o1, cs2)"
    "commit_events E (cs1 @ cs2) (bc_events ch) (commit_graduations (bc_graduations ch) d2) = Inr (d3, evs, ws)"
    "put_sync_state_tx wm d3 = Inr e"
    "r = \<lparr>bw_pons = p, bw_o1 = o1, bw_events = evs, bw_conflicts = cs1 @ cs2, bw_warnings = ws\<rparr>"
proof -
  obtain d1 p cs1 where a: "commit_launches E pons_view insert_pons_row (bc_pons ch) d = Inr (d1, p, cs1)"
    using assms by (cases "commit_launches E pons_view insert_pons_row (bc_pons ch) d") (auto simp: commit_block_tx_def)
  obtain d2 o1 cs2 where b: "commit_launches E o1_crypto_view insert_o1_row (bc_o1 ch) d1 = Inr (d2, o1, cs2)"
    using assms a by (cases "commit_launches E o1_crypto_view insert_o1_row (bc_o1 ch) d1") (auto simp: commit_block_tx_def)
  obtain d3 evs ws where c: "commit_events E (cs1 @ cs2) (bc_events ch) (commit_graduations (bc_graduations ch) d2)
      = Inr (d3, evs, ws)"
    using assms a b by (cases "commit_events E (cs1 @ cs2) (bc_events ch) (commit_graduations (bc_graduations ch) d2)")
      (auto simp: commit_block_tx_def)
  have "put_sync_state_tx wm d3 = Inr e"
    "r = \<lparr>bw_pons = p, bw_o1 = o1, bw_events = evs, bw_conflicts = cs1 @ cs2, bw_warnings = ws\<rparr>"
    using assms a b c by (cases "put_sync_state_tx wm d3"; simp add: commit_block_tx_def)+
  with that a b c show thesis by blast
qed

lemma commit_block_tx_again:
  assumes "commit_block_tx E ch wm d = Inr (e, r)"
  shows "\<exists>ws. commit_block_tx E ch wm e =
    Inr (e, \<lparr>bw_pons = [], bw_o1 = [], bw_events = [], bw_conflicts = bw_conflicts r, bw_warnings = ws\<rparr>)"
proof -
  from assms obtain d1 p cs1 d2 o1 cs2 d3 evs ws where
    s: "commit_launches E pons_view insert_pons_row (bc_pons ch) d = Inr (d1, p, cs1)"
    "commit_launches E o1_crypto_view insert_o1_row (bc_o1 ch) d1 = Inr (d2, o1, cs2)"
    "commit_events E (cs1 @ cs2) (bc_events ch) (commit_graduations (bc_graduations ch) d2) = Inr (d3, evs, ws)"
    "put_sync_state_tx wm d3 = Inr e"
    "r = \<lparr>bw_pons = p, bw_o1 = o1, bw_events = evs, bw_conflicts = cs1 @ cs2, bw_warnings = ws\<rparr>"
    by (rule commit_block_tx_parts)
  note k = commit_events_keeps [OF s(3)] put_sync_state_load(2,3) [OF s(4)]
  have same: "db_index e = db_index (commit_graduations (bc_graduations ch) d2)"
    "db_pons e = db_pons (commit_graduations (bc_graduations ch) d2)"
    using k by (simp_all add: same_launches_def)
  have "extends d2 e"
    using commit_graduations_extends extends_index [OF same(1)] extends_trans by blast
  moreover have "extends d1 d2" by (rule commit_launches_extends [OF _ s(2)]) (rule insert_o1_row_keeps)
  ultimately have x: "extends d1 e" "extends d2 e" using extends_trans by blast+
  have p: "commit_launches E pons_view insert_pons_row (bc_pons ch) e = Inr (e, [], cs1)"
    by (rule commit_launches_again [OF _ s(1) x(1)]) (rule insert_pons_row_keeps)
  have o: "commit_launches E o1_crypto_view insert_o1_row (bc_o1 ch) e = Inr (e, [], cs2)"
    by (rule commit_launches_again [OF _ s(2) x(2)]) (rule insert_o1_row_keeps)
  have g: "commit_graduations (bc_graduations ch) e = e"
    by (rule commit_graduations_again [OF same(2,1)])
  have "event_ids d3 \<subseteq> event_ids e" using k(3) by simp
  from commit_events_again [OF s(3) this] obtain ws' where
    "commit_events E (cs1 @ cs2) (bc_events ch) e = Inr (e, [], ws')" by blast
  with p o g put_sync_state_again [OF s(4)] s(5) show ?thesis
    by (simp add: commit_block_tx_def)
qed

section \<open>Properties\<close>

text \<open>C39. Committing a block a second time, as after a crash between the commit and the next tick,
  changes nothing in the database and reports nothing as new; only the category conflicts are
  reported again.\<close>

theorem committing_again_changes_nothing:
  assumes "commit_block E None ch wm d = (e, Inr r)"
  shows "\<exists>ws. commit_block E None ch wm e =
    (e, Inr \<lparr>bw_pons = [], bw_o1 = [], bw_events = [], bw_conflicts = bw_conflicts r, bw_warnings = ws\<rparr>)"
proof -
  have "commit_block_tx E ch wm d = Inr (e, r)"
    using assms by (auto simp: commit_block_def write_tx_def split: sum.splits)
  from commit_block_tx_again [OF this] show ?thesis by (auto simp: commit_block_def write_tx_def)
qed

text \<open>A block is committed as a whole or not at all: a failed commit leaves the database alone,
  and a successful one has stored the block's watermark.\<close>

theorem commit_is_atomic:
  "case commit_block E fault ch wm d of
     (e, Inl x) \<Rightarrow> e = d
   | (e, Inr r) \<Rightarrow> fault = None \<and> load_watermark (ss_name wm) e = Some (ss_last_block wm, ss_last_hash wm)"
proof (cases "commit_block E fault ch wm d")
  case (Pair e x)
  show ?thesis
  proof (cases x)
    case (Inl y)
    with Pair show ?thesis by (auto simp: commit_block_def write_tx_def split: option.splits sum.splits)
  next
    case (Inr r)
    with Pair have t: "fault = None" "commit_block_tx E ch wm d = Inr (e, r)"
      by (auto simp: commit_block_def write_tx_def split: option.splits sum.splits)
    from t(2) obtain d3 where "put_sync_state_tx wm d3 = Inr e" by (rule commit_block_tx_parts)
    with put_sync_state_load(1) t(1) Pair Inr show ?thesis by simp
  qed
qed

text \<open>A sale of a listed wallet, and its block's watermark.\<close>

definition ex_wallet :: string where "ex_wallet = ''0x1111111111111111111111111111111111111111''"
definition ex_token :: string where "ex_token = ''0x2222222222222222222222222222222222222222''"

definition ex_event :: wallet_event where
  "ex_event = \<lparr>we_id = [], we_block_number = 7, we_tx_index = 0, we_log_index = 1, we_tx_hash = ''0x7'',
     we_chain_time = 100, we_ingested_at = 200, we_wallet = ex_wallet, we_kind = ''sell'', we_category = ''pons'',
     we_token = ex_token, we_direction = ''sell'', we_quote = [], we_quote_symbol = [], we_quote_amount_raw = ''5'',
     we_quote_decimals = None, we_token_amount_raw = ''9'', we_token_decimals = Some 18, we_exec_quote = None,
     we_exec_usd = None, we_quote_usd = None, we_router = ''curve''\<rparr>"

definition ex_sync :: sync_state where
  "ex_sync = \<lparr>ss_name = ''rh_4663'', ss_last_block = 7, ss_last_hash = ''0xa'', ss_updated_at = 0\<rparr>"

definition ex_changes :: block_changes where
  "ex_changes = \<lparr>bc_pons = [], bc_o1 = [], bc_graduations = [], bc_events = [ex_event]\<rparr>"

definition empty_db :: db where
  "empty_db = \<lparr>db_sync = [], db_index = [], db_pons = [], db_o1 = [], db_o1_stock = [], db_long = [],
     db_events = [], db_assets = [], db_wallets = []\<rparr>"

theorem committing_again_changes_nothing_witness:
  "\<exists>e r. commit_block eth_plain None ex_changes ex_sync empty_db = (e, Inr r) \<and>
     map we_id (bw_events r) = [''0000000700000001''] \<and>
     (\<exists>ws. commit_block eth_plain None ex_changes ex_sync e =
       (e, Inr \<lparr>bw_pons = [], bw_o1 = [], bw_events = [], bw_conflicts = [], bw_warnings = ws\<rparr>))"
proof -
  have ok: "(case commit_block eth_plain None ex_changes ex_sync empty_db of
      (e, Inl x) \<Rightarrow> False | (e, Inr r) \<Rightarrow> map we_id (bw_events r) = [''0000000700000001''] \<and> bw_conflicts r = [])"
    by code_simp
  then obtain e r where c: "commit_block eth_plain None ex_changes ex_sync empty_db = (e, Inr r)"
    "map we_id (bw_events r) = [''0000000700000001'']" "bw_conflicts r = []"
    by (auto split: prod.splits sum.splits)
  from committing_again_changes_nothing [OF c(1)] c show ?thesis by auto
qed

end
