(* ===== verification/Store_Events.thy ===== *)
theory Store_Events
  imports Store_Commit
begin

text \<open>
  \<open>internal/store/wallet_events.go\<close>, \<open>purge.go\<close> and the queries of \<open>launch_index.go\<close>: single
  event writes, the inputs of the FIFO replay and of the scores, the retention of events, and the
  pages of the launch list. \<open>ListSignals\<close> is in App_Signals.
  \<open>shortest\<close> is the shortest decimal of a float (\<open>strconv.FormatFloat\<close>), read back.
\<close>

section \<open>Single events\<close>

text \<open>The result is Go's pair: was a row inserted, and the error, which may be a mere width warning.\<close>

definition insert_wallet_event ::
  "eth_common \<Rightarrow> err option \<Rightarrow> wallet_event \<Rightarrow> db \<Rightarrow> db \<times> bool \<times> err option" where
  "insert_wallet_event E fault v d =
     (case prepare_event E v of
        Inl e \<Rightarrow> (d, False, Some e)
      | Inr (w, warnings) \<Rightarrow>
          (case write_tx fault (\<lambda>d. bindE (insert_event_tx w d) (\<lambda>(inserted, d1).
                  Inr (if inserted then touch_wallet (\<lambda>_. True) (we_wallet w) (we_ingested_at w) d1 else d1, inserted))) d of
             (d1, Inl e) \<Rightarrow> (d1, False, Some e)
           | (d1, Inr inserted) \<Rightarrow> (d1, inserted, case warnings of [] \<Rightarrow> None | e # _ \<Rightarrow> Some e)))"

section \<open>Reading events\<close>

definition trades_of :: "(wallet_event \<Rightarrow> bool) \<Rightarrow> db \<Rightarrow> wallet_event list" where
  "trades_of P d = sort_key we_id (filter (\<lambda>e. P e \<and> (we_kind e = ''buy'' \<or> we_kind e = ''sell'')) (db_events d))"

definition fifo_events :: "eth_common \<Rightarrow> (rat \<Rightarrow> rat) \<Rightarrow> string \<Rightarrow> string \<Rightarrow> db \<Rightarrow> fifo_event list res" where
  "fifo_events E shortest wallet token d =
     bindE (normalize_address E wallet) (\<lambda>w.
     bindE (normalize_address E token) (\<lambda>t.
       mapE (\<lambda>e. case we_token_decimals e of
               None \<Rightarrow> Inl (E_decimals (we_id e))
             | Some decimals \<Rightarrow>
                 Inr \<lparr>fe_id = we_id e, fe_direction = we_direction e, fe_quantity_raw = we_token_amount_raw e,
                      fe_decimals = decimals, fe_price_usd = map_option shortest (we_exec_usd e)\<rparr>)
         (trades_of (\<lambda>e. equal_fold (we_wallet e) w \<and> equal_fold (we_token e) t) d)))"

record score_event =
  se_token :: string
  se_id :: string
  se_direction :: string
  se_quantity_raw :: string
  se_token_decimals :: byte
  se_price_usd :: "rat option"
  se_chain_time :: time

text \<open>\<open>ORDER BY token_address, id\<close>: a stable sort of the rows in the order of their keys.\<close>

definition score_events :: "eth_common \<Rightarrow> (rat \<Rightarrow> rat) \<Rightarrow> string \<Rightarrow> db \<Rightarrow> score_event list res" where
  "score_events E shortest wallet d =
     bindE (normalize_address E wallet) (\<lambda>w.
       mapE (\<lambda>e. case we_token_decimals e of
               None \<Rightarrow> Inl (E_decimals (we_id e))
             | Some decimals \<Rightarrow>
                 Inr \<lparr>se_token = we_token e, se_id = we_id e, se_direction = we_direction e,
                      se_quantity_raw = we_token_amount_raw e, se_token_decimals = decimals,
                      se_price_usd = map_option shortest (we_exec_usd e), se_chain_time = we_chain_time e\<rparr>)
         (sort_key (\<lambda>e. to_lower (we_token e)) (trades_of (\<lambda>e. equal_fold (we_wallet e) w) d)))"

definition list_wallet_events :: "eth_common \<Rightarrow> string \<Rightarrow> string \<Rightarrow> int \<Rightarrow> db \<Rightarrow> wallet_event list res" where
  "list_wallet_events E wallet kind limit d =
     guardE (limit < 1 \<or> 200 < limit) E_limit
       (bindE (normalize_address E wallet) (\<lambda>w.
          Inr (take (nat limit) (rev (sort_key we_id
            (filter (\<lambda>e. equal_fold (we_wallet e) w \<and> (kind \<noteq> [] \<longrightarrow> we_kind e = kind)) (db_events d)))))))"

section \<open>Retention (purge.go)\<close>

record purge_result =
  pu_deleted :: nat
  pu_limited :: bool

definition expired :: "time \<Rightarrow> wallet_event \<Rightarrow> bool" where
  "expired cutoff e \<longleftrightarrow> we_chain_time e < rfc3339 cutoff"

text \<open>\<open>ORDER BY chain_time ASC, id ASC LIMIT size\<close>.\<close>

definition doomed :: "time \<Rightarrow> nat \<Rightarrow> db \<Rightarrow> wallet_event list" where
  "doomed cutoff n d = take n (sort_key we_chain_time (sort_key we_id (filter (expired cutoff) (db_events d))))"

definition purge_batch :: "time \<Rightarrow> nat \<Rightarrow> nat \<Rightarrow> nat \<Rightarrow> db \<Rightarrow> (db \<times> nat \<times> bool) res" where
  "purge_batch cutoff n deleted max_per_run d =
     (let ids = we_id ` set (doomed cutoff n d);
          rest = filter (\<lambda>e. we_id e \<notin> ids) (db_events d);
          k = length (db_events d) - length rest
      in Inr (d\<lparr>db_events := rest\<rparr>, k,
              max_per_run \<le> deleted + k \<and> (\<exists>e\<in>set rest. expired cutoff e)))"

text \<open>\<open>faults\<close> and \<open>cancelled\<close> tell what happens to the i-th write and in the pause after it.\<close>

partial_function (option) purge_loop ::
  "time \<Rightarrow> nat \<Rightarrow> nat \<Rightarrow> (nat \<Rightarrow> err option) \<Rightarrow> (nat \<Rightarrow> bool) \<Rightarrow> nat \<Rightarrow> nat \<Rightarrow> db \<Rightarrow>
   (db \<times> purge_result \<times> err option) option" where
  "purge_loop cutoff batch max_per_run faults cancelled i deleted d =
     (if max_per_run \<le> deleted then Some (d, \<lparr>pu_deleted = deleted, pu_limited = False\<rparr>, None)
      else let n = min batch (max_per_run - deleted)
           in case write_tx (faults i) (purge_batch cutoff n deleted max_per_run) d of
                (d1, Inl e) \<Rightarrow> Some (d1, \<lparr>pu_deleted = deleted, pu_limited = False\<rparr>, Some e)
              | (d1, Inr (k, more_left)) \<Rightarrow>
                  if k < n then Some (d1, \<lparr>pu_deleted = deleted + k, pu_limited = False\<rparr>, None)
                  else if max_per_run \<le> deleted + k
                  then Some (d1, \<lparr>pu_deleted = deleted + k, pu_limited = more_left\<rparr>, None)
                  else if cancelled i
                  then Some (d1, \<lparr>pu_deleted = deleted + k, pu_limited = False\<rparr>, Some E_cancelled)
                  else purge_loop cutoff batch max_per_run faults cancelled (i + 1) (deleted + k) d1)"

definition day :: duration where "day = 24 * 3600 * second"

definition purge_expired_wallet_events ::
  "time \<Rightarrow> int \<Rightarrow> int \<Rightarrow> int \<Rightarrow> (nat \<Rightarrow> err option) \<Rightarrow> (nat \<Rightarrow> bool) \<Rightarrow> db \<Rightarrow> (db \<times> purge_result \<times> err option) option" where
  "purge_expired_wallet_events now retention_days batch max_per_run faults cancelled d =
     (if retention_days < 1 \<or> batch < 1 \<or> 5000 < batch \<or> max_per_run < 1
      then Some (d, \<lparr>pu_deleted = 0, pu_limited = False\<rparr>, Some E_config)
      else purge_loop (now + int64 (- retention_days * day)) (nat batch) (nat max_per_run) faults cancelled 0 0 d)"

section \<open>Pages of the launch list (launch_index.go)\<close>

text \<open>\<open>ORDER BY created_at DESC, token_address DESC\<close>.\<close>

definition launches_desc :: "string \<Rightarrow> db \<Rightarrow> launch_row list" where
  "launches_desc category d =
     rev (sort_key lr_created_at (sort_key (\<lambda>r. to_lower (lr_token r))
       (filter (\<lambda>r. category \<noteq> [] \<longrightarrow> lr_category r = category) (db_index d))))"

definition after_cursor :: "time \<times> string \<Rightarrow> launch_row \<Rightarrow> bool" where
  "after_cursor c r \<longleftrightarrow> (case c of (at_time, token) \<Rightarrow>
     lr_created_at r < at_time \<or> lr_created_at r = at_time \<and> to_lower (lr_token r) < to_lower token)"

definition list_launches ::
  "eth_common \<Rightarrow> string \<Rightarrow> (time \<times> string) option \<Rightarrow> int \<Rightarrow> db \<Rightarrow> launch_row list res" where
  "list_launches E category cursor limit d =
     guardE (limit < 1 \<or> 200 < limit) E_limit
       (case cursor of
          None \<Rightarrow> Inr (take (nat limit) (launches_desc category d))
        | Some (at_time, token) \<Rightarrow>
            bindE (normalize_address E token) (\<lambda>t.
              Inr (take (nat limit) (filter (after_cursor (at_time, t)) (launches_desc category d)))))"

section \<open>One batch\<close>

abbreviation overdue :: "time \<Rightarrow> db \<Rightarrow> wallet_event list" where
  "overdue cutoff d \<equiv> filter (expired cutoff) (db_events d)"

text \<open>The rows named by some keys of distinct rows.\<close>

lemma filter_ids_length:
  assumes "distinct (map we_id xs)" "set ys \<subseteq> set xs" "distinct ys"
  shows "length (filter (\<lambda>e. we_id e \<in> we_id ` set ys) xs) = length ys"
    "length (filter (\<lambda>e. we_id e \<notin> we_id ` set ys) xs) + length ys = length xs"
proof -
  have "set (filter (\<lambda>e. we_id e \<in> we_id ` set ys) xs) = set ys"
    using assms(1,2) by (auto simp: distinct_map inj_on_def)
  moreover have "distinct (filter (\<lambda>e. we_id e \<in> we_id ` set ys) xs)"
    using assms(1) by (simp add: distinct_map)
  ultimately show a: "length (filter (\<lambda>e. we_id e \<in> we_id ` set ys) xs) = length ys"
    using assms(3) by (metis distinct_card)
  show "length (filter (\<lambda>e. we_id e \<notin> we_id ` set ys) xs) + length ys = length xs"
    using a sum_length_filter_compl [of "\<lambda>e. we_id e \<in> we_id ` set ys" xs] by simp
qed

lemma doomed_facts:
  assumes "distinct (map we_id (db_events d))"
  shows "set (doomed cutoff n d) \<subseteq> set (overdue cutoff d)" "distinct (doomed cutoff n d)"
    "length (doomed cutoff n d) = min n (length (overdue cutoff d))"
    "\<lbrakk>a \<in> set (doomed cutoff n d); b \<in> set (overdue cutoff d) - set (doomed cutoff n d)\<rbrakk> \<Longrightarrow>
      we_chain_time a \<le> we_chain_time b"
proof -
  let ?ys = "sort_key we_chain_time (sort_key we_id (overdue cutoff d))"
  have d: "doomed cutoff n d = take n ?ys" by (simp add: doomed_def)
  show "set (doomed cutoff n d) \<subseteq> set (overdue cutoff d)" using set_take_subset [of n ?ys] by (auto simp: d)
  show "distinct (doomed cutoff n d)" using assms by (simp add: d distinct_map)
  show "length (doomed cutoff n d) = min n (length (overdue cutoff d))" by (simp add: d min.commute)
  have "sorted (map we_chain_time ?ys)" by simp
  then have "sorted (map we_chain_time (take n ?ys) @ map we_chain_time (drop n ?ys))"
    by (metis append_take_drop_id map_append)
  moreover assume "a \<in> set (doomed cutoff n d)" "b \<in> set (overdue cutoff d) - set (doomed cutoff n d)"
  moreover have "b \<in> set (drop n ?ys)"
  proof -
    have "b \<in> set (take n ?ys @ drop n ?ys)" using calculation(3) by simp
    then show ?thesis using calculation(3) unfolding d set_append by blast
  qed
  ultimately show "we_chain_time a \<le> we_chain_time b" by (auto simp: d sorted_append)
qed

lemma purge_batch_facts:
  assumes "purge_batch cutoff n deleted m d = Inr (e, k, left)" and "distinct (map we_id (db_events d))"
  shows "e = d\<lparr>db_events := db_events e\<rparr>" "distinct (map we_id (db_events e))"
    "k = min n (length (overdue cutoff d))" "length (overdue cutoff e) + k = length (overdue cutoff d)"
    "filter (\<lambda>x. \<not> expired cutoff x) (db_events e) = filter (\<lambda>x. \<not> expired cutoff x) (db_events d)"
    "left \<longleftrightarrow> m \<le> deleted + k \<and> overdue cutoff e \<noteq> []"
    "\<lbrakk>a \<in> set (overdue cutoff d) - set (overdue cutoff e); b \<in> set (overdue cutoff e)\<rbrakk> \<Longrightarrow>
      we_chain_time a \<le> we_chain_time b"
    "set (db_events e) \<subseteq> set (db_events d)"
proof -
  let ?D = "doomed cutoff n d"
  let ?in = "\<lambda>x. we_id x \<in> we_id ` set ?D"
  note f = doomed_facts [OF assms(2), where cutoff = cutoff and n = n]
  have e: "e = d\<lparr>db_events := filter (\<lambda>x. \<not> ?in x) (db_events d)\<rparr>"
    and k0: "k = length (db_events d) - length (db_events e)"
    and l: "left \<longleftrightarrow> m \<le> deleted + k \<and> (\<exists>x\<in>set (db_events e). expired cutoff x)"
    using assms(1) by (auto simp: purge_batch_def Let_def)
  then show "e = d\<lparr>db_events := db_events e\<rparr>" by simp
  show "set (db_events e) \<subseteq> set (db_events d)" by (auto simp: e)
  show "distinct (map we_id (db_events e))" using assms(2) by (simp add: e distinct_map_filter)
  have "set ?D \<subseteq> set (db_events d)" using f(1) by auto
  from filter_ids_length(2) [OF assms(2) this f(2)] have "length (db_events e) + length ?D = length (db_events d)"
    by (simp add: e)
  then show k: "k = min n (length (overdue cutoff d))" using k0 f(3) by simp
  have "distinct (map we_id (overdue cutoff d))" using assms(2) by (simp add: distinct_map_filter)
  from filter_ids_length(2) [OF this f(1,2)] show "length (overdue cutoff e) + k = length (overdue cutoff d)"
    using k f(3) by (simp add: e filter_filter conj_commute)
  have eq: "x \<in> set ?D" if "?in x" "x \<in> set (db_events d)" for x
    using that f(1) assms(2) by (auto simp: distinct_map inj_on_def)
  have "\<not> ?in x" if "x \<in> set (db_events d)" "\<not> expired cutoff x" for x
    using eq [OF _ that(1)] f(1) that(2) by auto
  then show "filter (\<lambda>x. \<not> expired cutoff x) (db_events e) = filter (\<lambda>x. \<not> expired cutoff x) (db_events d)"
    unfolding e by (simp add: filter_filter) (intro filter_cong, auto)
  show "left \<longleftrightarrow> m \<le> deleted + k \<and> overdue cutoff e \<noteq> []" using l by (auto simp: filter_empty_conv)
  assume ab: "a \<in> set (overdue cutoff d) - set (overdue cutoff e)" "b \<in> set (overdue cutoff e)"
  then have "a \<in> set ?D" using eq [of a] by (auto simp: e)
  moreover have "b \<in> set (overdue cutoff d) - set ?D" using ab(2) by (auto simp: e)
  ultimately show "we_chain_time a \<le> we_chain_time b" by (rule f(4))
qed

section \<open>The whole run\<close>

definition purged :: "time \<Rightarrow> nat \<Rightarrow> db \<Rightarrow> db \<Rightarrow> nat \<Rightarrow> bool \<Rightarrow> bool" where
  "purged cutoff m d e k limited \<longleftrightarrow> e = d\<lparr>db_events := db_events e\<rparr> \<and> k \<le> m \<and>
     set (db_events e) \<subseteq> set (db_events d) \<and>
     length (overdue cutoff e) + k = length (overdue cutoff d) \<and> (limited \<longleftrightarrow> overdue cutoff e \<noteq> []) \<and> (limited \<longrightarrow> k = m) \<and>
     filter (\<lambda>x. \<not> expired cutoff x) (db_events e) = filter (\<lambda>x. \<not> expired cutoff x) (db_events d) \<and>
     (\<forall>a\<in>set (overdue cutoff d) - set (overdue cutoff e). \<forall>b\<in>set (overdue cutoff e).
        we_chain_time a \<le> we_chain_time b)"

lemma purged_batch:
  assumes "purge_batch cutoff n deleted m d = Inr (e, k, left)" and "distinct (map we_id (db_events d))"
    and "k \<le> j" and "limited \<longleftrightarrow> overdue cutoff e \<noteq> []" and "limited \<longrightarrow> k = j"
  shows "purged cutoff j d e k limited"
  unfolding purged_def
proof (intro conjI ballI)
  note f = purge_batch_facts [OF assms(1,2)]
  show "e = d\<lparr>db_events := db_events e\<rparr>" "set (db_events e) \<subseteq> set (db_events d)"
    "length (overdue cutoff e) + k = length (overdue cutoff d)"
    "filter (\<lambda>x. \<not> expired cutoff x) (db_events e) = filter (\<lambda>x. \<not> expired cutoff x) (db_events d)"
    by (rule f)+
  show "limited \<longleftrightarrow> overdue cutoff e \<noteq> []" "k \<le> j" "limited \<longrightarrow> k = j" by (rule assms)+
  show "we_chain_time a \<le> we_chain_time b"
    if "a \<in> set (overdue cutoff d) - set (overdue cutoff e)" "b \<in> set (overdue cutoff e)" for a b
    using that by (rule f(7))
qed

lemma purged_trans:
  assumes "purged cutoff k d e k x" and "purged cutoff m e f l limited"
  shows "purged cutoff (k + m) d f (k + l) limited"
proof -
  have sub: "set (overdue cutoff f) \<subseteq> set (overdue cutoff e)" using assms(2) by (auto simp: purged_def)
  have "we_chain_time a \<le> we_chain_time b"
    if a: "a \<in> set (overdue cutoff d) - set (overdue cutoff f)" and b: "b \<in> set (overdue cutoff f)" for a b
  proof (cases "a \<in> set (overdue cutoff e)")
    case True
    then have "a \<in> set (overdue cutoff e) - set (overdue cutoff f)" using a by blast
    then show ?thesis using assms(2) b unfolding purged_def by blast
  next
    case False
    then have "a \<in> set (overdue cutoff d) - set (overdue cutoff e)" "b \<in> set (overdue cutoff e)" using a b sub by blast+
    then show ?thesis using assms(1) unfolding purged_def by blast
  qed
  moreover have "f = d\<lparr>db_events := db_events f\<rparr>"
    using assms unfolding purged_def by (metis db.update_convs(7) db.surjective)
  ultimately show ?thesis using assms unfolding purged_def by auto
qed

text \<open>Every run returns, and only ever deletes events.\<close>

definition keeps_only :: "db \<Rightarrow> db \<Rightarrow> bool" where
  "keeps_only d e \<longleftrightarrow> (\<exists>P. e = d\<lparr>db_events := filter P (db_events d)\<rparr>)"

lemma keeps_only_refl: "keeps_only d d"
  unfolding keeps_only_def by (rule exI [of _ "\<lambda>_. True"]) simp

lemma keeps_only_trans: "keeps_only d e \<Longrightarrow> keeps_only e f \<Longrightarrow> keeps_only d f"
  unfolding keeps_only_def by (elim exE) (rule_tac x = "\<lambda>x. P x \<and> Pa x" in exI, simp add: conj_commute)

lemma purge_write_keeps:
  assumes "write_tx fault (purge_batch cutoff n deleted m) d = (e, x)"
  shows "keeps_only d e"
proof -
  have "e = d \<or> (\<exists>y. purge_batch cutoff n deleted m d = Inr (e, y))"
    using assms by (auto simp: write_tx_def split: option.splits sum.splits)
  then show ?thesis
    using keeps_only_refl by (auto simp: purge_batch_def Let_def keeps_only_def)
qed

lemma purge_loop_returns:
  assumes "0 < batch"
  shows "\<exists>e pr x. purge_loop cutoff batch m faults cancelled i deleted d = Some (e, pr, x) \<and> keeps_only d e"
proof (induction "m - deleted" arbitrary: i deleted d rule: less_induct)
  case less
  show ?case
  proof (cases "m \<le> deleted")
    case True
    then show ?thesis using keeps_only_refl by (simp add: purge_loop.simps)
  next
    case False
    define n where n: "n = min batch (m - deleted)"
    obtain d1 x where w: "write_tx (faults i) (purge_batch cutoff n deleted m) d = (d1, x)"
      by (cases "write_tx (faults i) (purge_batch cutoff n deleted m) d")
    note k1 = purge_write_keeps [OF w]
    show ?thesis
    proof (cases x)
      case (Inl e)
      with False w k1 show ?thesis by (subst purge_loop.simps) (simp add: Let_def n [symmetric])
    next
      case (Inr p)
      obtain k left where p: "p = (k, left)" by (cases p)
      show ?thesis
      proof (cases "k < n \<or> m \<le> deleted + k \<or> cancelled i")
        case True
        with False w Inr p k1 show ?thesis by (subst purge_loop.simps) (auto simp: Let_def n [symmetric])
      next
        case go: False
        then have "\<not> k < n" by blast
        then have "m - (deleted + k) < m - deleted" using assms False by (auto simp: n min_def split: if_splits)
        from less [OF this, of "i + 1" d1] obtain e pr y where
          "purge_loop cutoff batch m faults cancelled (i + 1) (deleted + k) d1 = Some (e, pr, y)" "keeps_only d1 e"
          by blast
        with False w Inr p go keeps_only_trans [OF k1] show ?thesis
          by (subst purge_loop.simps) (simp add: Let_def n [symmetric])
      qed
    qed
  qed
qed

lemma purge_loop_purges:
  assumes "0 < batch"
  shows "\<lbrakk>deleted < m; distinct (map we_id (db_events d))\<rbrakk> \<Longrightarrow>
    \<exists>e k limited. purge_loop cutoff batch m (\<lambda>_. None) (\<lambda>_. False) i deleted d =
      Some (e, \<lparr>pu_deleted = deleted + k, pu_limited = limited\<rparr>, None) \<and> purged cutoff (m - deleted) d e k limited"
proof (induction "m - deleted" arbitrary: i deleted d rule: less_induct)
  case less
  define n where n: "n = min batch (m - deleted)"
  obtain d1 k left where b: "purge_batch cutoff n deleted m d = Inr (d1, k, left)"
    by (simp add: purge_batch_def Let_def)
  note f = purge_batch_facts [OF b less.prems(2)]
  have w: "write_tx None (purge_batch cutoff n deleted m) d = (d1, Inr (k, left))" by (simp add: write_tx_def b)
  have km: "k \<le> m - deleted" using f(3) by (simp add: n)
  consider "k < n" | "\<not> k < n" "m \<le> deleted + k" | "\<not> k < n" "\<not> m \<le> deleted + k" by linarith
  then show ?case
  proof cases
    case 1
    have "length (overdue cutoff d1) = 0" using 1 f(3,4) by linarith
    then have "purged cutoff (m - deleted) d d1 k False"
      by (intro purged_batch [OF b less.prems(2) km]) simp_all
    moreover have "purge_loop cutoff batch m (\<lambda>_. None) (\<lambda>_. False) i deleted d =
        Some (d1, \<lparr>pu_deleted = deleted + k, pu_limited = False\<rparr>, None)"
      using 1 w less.prems(1) by (subst purge_loop.simps) (simp add: Let_def n [symmetric])
    ultimately show ?thesis by blast
  next
    case 2
    have "purged cutoff (m - deleted) d d1 k left"
      using 2 f(6) km less.prems(1) by (intro purged_batch [OF b less.prems(2) km]) auto
    moreover have "purge_loop cutoff batch m (\<lambda>_. None) (\<lambda>_. False) i deleted d =
        Some (d1, \<lparr>pu_deleted = deleted + k, pu_limited = left\<rparr>, None)"
      using 2 w less.prems(1) by (subst purge_loop.simps) (simp add: Let_def n [symmetric])
    ultimately show ?thesis by blast
  next
    case 3
    then have "m - (deleted + k) < m - deleted" using assms less.prems(1) by (auto simp: n min_def split: if_splits)
    from less.hyps [OF this _ f(2), of "i + 1"] 3 obtain e k2 limited where
      e: "purge_loop cutoff batch m (\<lambda>_. None) (\<lambda>_. False) (i + 1) (deleted + k) d1 =
        Some (e, \<lparr>pu_deleted = deleted + k + k2, pu_limited = limited\<rparr>, None)"
      "purged cutoff (m - (deleted + k)) d1 e k2 limited" by auto
    have "purge_loop cutoff batch m (\<lambda>_. None) (\<lambda>_. False) i deleted d =
        Some (e, \<lparr>pu_deleted = deleted + (k + k2), pu_limited = limited\<rparr>, None)"
      using w less.prems(1) 3 e(1) by (subst purge_loop.simps) (simp add: Let_def add.assoc n [symmetric])
    moreover have "purged cutoff (k + (m - (deleted + k))) d e (k + k2) limited"
      by (rule purged_trans [OF purged_batch [OF b less.prems(2) order_refl refl] e(2)]) simp
    moreover have "k + (m - (deleted + k)) = m - deleted" using 3 by simp
    ultimately show ?thesis by auto
  qed
qed

end
