(* ===== verification/Store_Invariant.thy ===== *)
theory Store_Invariant
  imports Store_Events Chain_Receipts
begin

text \<open>
  What holds of the database whatever sequence of the store's operations produced it, and the
  properties of purging and paging that rest on it.
\<close>

section \<open>Reachable databases\<close>

text \<open>A fresh database has the quote assets of the migrations and any wallets.\<close>

definition fresh_db :: "db \<Rightarrow> bool" where
  "fresh_db d \<longleftrightarrow> db_sync d = [] \<and> db_index d = [] \<and> db_pons d = [] \<and> db_o1 d = [] \<and> db_events d = []"

inductive reachable_db :: "eth_common \<Rightarrow> db \<Rightarrow> bool" for E where
  start: "fresh_db d \<Longrightarrow> reachable_db E d"
| commit: "\<lbrakk>reachable_db E d; commit_block E fault ch wm d = (e, r)\<rbrakk> \<Longrightarrow> reachable_db E e"
| watermark: "\<lbrakk>reachable_db E d; put_sync_state fault wm d = (e, r)\<rbrakk> \<Longrightarrow> reachable_db E e"
| pons: "\<lbrakk>reachable_db E d; insert_pons_launch E fault v d = (e, r)\<rbrakk> \<Longrightarrow> reachable_db E e"
| o1: "\<lbrakk>reachable_db E d; insert_o1_crypto_launch E fault w d = (e, r)\<rbrakk> \<Longrightarrow> reachable_db E e"
| graduate: "\<lbrakk>reachable_db E d; graduate_pons_launch E fault token pool t d = (e, r')\<rbrakk> \<Longrightarrow> reachable_db E e"
| price: "\<lbrakk>reachable_db E d; update_launch_price E fault token p block hash t d = (e, r')\<rbrakk> \<Longrightarrow> reachable_db E e"
| event: "\<lbrakk>reachable_db E d; insert_wallet_event E fault x d = (e, b)\<rbrakk> \<Longrightarrow> reachable_db E e"
| score: "\<lbrakk>reachable_db E d; update_wallet_score E fault address s t d = (e, r')\<rbrakk> \<Longrightarrow> reachable_db E e"
| asset: "\<lbrakk>reachable_db E d; upsert_quote_asset E fault a d = (e, r')\<rbrakk> \<Longrightarrow> reachable_db E e"
| purge: "\<lbrakk>reachable_db E d; purge_expired_wallet_events now days batch m faults cancelled d = Some (e, pr, r')\<rbrakk>
    \<Longrightarrow> reachable_db E e"

section \<open>The invariant\<close>

definition launches_ok :: "db \<Rightarrow> bool" where
  "launches_ok d \<longleftrightarrow>
     (\<forall>r\<in>set (db_index d). canonical_address (lr_token r) \<and> lr_category r \<in> {''pons'', ''o1_crypto''}) \<and>
     distinct (map lr_token (db_index d)) \<and>
     (\<forall>p\<in>set (db_pons d). category_of d (pl_token_address p) = Some ''pons'') \<and>
     (\<forall>q\<in>set (db_o1 d). category_of d (oc_token_address q) = Some ''o1_crypto'')"

definition events_ok :: "db \<Rightarrow> bool" where
  "events_ok d \<longleftrightarrow> distinct (map we_id (db_events d)) \<and>
     (\<forall>v\<in>set (db_events d). event_checks v \<and> canonical_address (we_wallet v) \<and> canonical_address (we_token v))"

lemma launches_ok_same: "same_launches d e \<Longrightarrow> launches_ok e = launches_ok d"
  by (simp add: launches_ok_def same_launches_def category_of_def find_launch_def)

lemma equal_fold_lower: "equal_fold a b \<Longrightarrow> category_of d a = category_of d b"
  by (simp add: category_of_def find_launch_def equal_fold_def)

lemma canonical_fold_normalize:
  assumes "eth_ok E" "canonical_address a" "equal_fold a s"
  shows "normalize_address E s = Inr a"
proof -
  have "to_lower s = a" using assms(2,3) by (simp add: equal_fold_def)
  moreover have "plain_text a" using assms(2) by (rule canonical_plain)
  moreover from calculation have "plain_text s" using plain_lower by simp
  ultimately have "normalize_address E s = normalize_address E a"
    using assms(2) by (intro normalize_address_fold [OF assms(1)]) simp_all
  with normalize_address_id [OF assms(1,2)] show ?thesis by simp
qed

text \<open>The foreign key of a detail row, made precise: it names the row of its normal form.\<close>

lemma foreign_key:
  assumes "eth_ok E" "launches_ok d" "find_launch s d \<noteq> None" "normalize_address E s = Inr t"
  shows "category_of d s = category_of d t"
proof -
  obtain r where r: "find_launch s d = Some r" using assms(3) by blast
  then have "r \<in> set (db_index d)" "equal_fold (lr_token r) s"
    by (auto simp: find_launch_def find_Some_iff in_set_conv_nth)
  with assms(2) have "normalize_address E s = Inr (lr_token r)"
    by (intro canonical_fold_normalize [OF assms(1)]) (auto simp: launches_ok_def)
  with assms(4) \<open>equal_fold (lr_token r) s\<close> have "equal_fold t s" by simp
  then show ?thesis by (rule equal_fold_lower [symmetric])
qed

lemma launches_ok_new:
  assumes "launches_ok d" "canonical_address t" "find_launch t d = None" "lr_token row = t"
    "lr_category row \<in> {''pons'', ''o1_crypto''}"
  shows "launches_ok (d\<lparr>db_index := db_index d @ [row]\<rparr>)"
    "category_of (d\<lparr>db_index := db_index d @ [row]\<rparr>) t = Some (lr_category row)"
proof -
  let ?e = "d\<lparr>db_index := db_index d @ [row]\<rparr>"
  have x: "extends d ?e" using assms(3,4) by (intro extends_append) simp
  have "t \<notin> set (map lr_token (db_index d))"
    using assms(3) by (auto simp: find_launch_def find_None_iff equal_fold_def)
  with assms x show "launches_ok ?e" by (auto simp: launches_ok_def extends_def)
  show "category_of ?e t = Some (lr_category row)"
    using assms(3,4) by (simp add: category_of_def find_launch_def find_append equal_fold_def)
qed

text \<open>What a venue's detail insertion must respect, for its launches to keep the invariant.\<close>

locale detail_table =
  fixes E :: eth_common and view :: "'l \<Rightarrow> launch_view" and detail :: "'l \<Rightarrow> db \<Rightarrow> db res" and cat :: string
  assumes cat: "cat \<in> {''pons'', ''o1_crypto''}" "lv_category (view l) = cat"
    and keeps_index: "detail l d = Inr e \<Longrightarrow> db_index e = db_index d"
    and keeps_events: "detail l d = Inr e \<Longrightarrow> db_events e = db_events d"
    and keeps_ok: "\<lbrakk>eth_ok E; detail l d = Inr e; launches_ok d; normalize_address E (lv_token (view l)) = Inr t;
        category_of d t = Some cat\<rbrakk> \<Longrightarrow> launches_ok e"
begin

lemma commit_launches_ok:
  "\<lbrakk>commit_launches E view detail ls d = Inr (e, ins, cs); launches_ok d; eth_ok E\<rbrakk> \<Longrightarrow>
   launches_ok e \<and> db_events e = db_events d"
proof (induction ls arbitrary: d ins cs)
  case (Cons l ls)
  from Cons.prems(1) show ?case
  proof (rule commit_launches_Cons)
    fix t row d2 ins1 assume a: "normalize_address E (lv_token (view l)) = Inr t" "find_launch t d = None"
      "lr_token row = t" "lr_category row = lv_category (view l)"
      "detail l (d\<lparr>db_index := db_index d @ [row]\<rparr>) = Inr d2"
      "commit_launches E view detail ls d2 = Inr (e, ins1, cs)"
    have "canonical_address t" by (rule normalize_address_canonical [OF Cons.prems(3) a(1)])
    note n = launches_ok_new [OF Cons.prems(2) this a(2,3)]
    have "launches_ok d2" using n a(4) cat by (intro keeps_ok [OF Cons.prems(3) a(5) _ a(1)]) auto
    with Cons.IH [OF a(6)] Cons.prems(3) keeps_events [OF a(5)] show ?thesis by simp
  qed (use Cons.IH Cons.prems(2,3) in blast)+
qed simp

lemma single_insert_ok:
  assumes "bindE (insert_launch_index E (view l) d) (\<lambda>(inserted, d1).
      if inserted then bindE (detail l d1) (\<lambda>d2. Inr (d2, True)) else Inr (d1, False)) = Inr (e, b)"
    and "launches_ok d" and "eth_ok E"
  shows "launches_ok e \<and> db_events e = db_events d"
  using refl
proof (rule insert_launch_index_cases [of E "view l" d])
  fix t row assume a: "normalize_address E (lv_token (view l)) = Inr t" "find_launch t d = None" "lr_token row = t"
    "lr_category row = lv_category (view l)" "insert_launch_index E (view l) d = Inr (True, d\<lparr>db_index := db_index d @ [row]\<rparr>)"
  have d: "detail l (d\<lparr>db_index := db_index d @ [row]\<rparr>) = Inr e" using assms(1) a(5) by (auto simp: res_simps)
  have "canonical_address t" by (rule normalize_address_canonical [OF assms(3) a(1)])
  note n = launches_ok_new [OF assms(2) this a(2,3)]
  have "launches_ok e" using n a(4) cat by (intro keeps_ok [OF assms(3) d _ a(1)]) auto
  with keeps_events [OF d] show ?thesis by simp
qed (use assms in \<open>auto simp: res_simps\<close>)

end

lemma insert_pons_row_ok:
  assumes "eth_ok E" "insert_pons_row v d = Inr e" "launches_ok d"
    "normalize_address E (pl_token_address v) = Inr t" "category_of d t = Some ''pons''"
  shows "launches_ok e"
proof -
  from assms(2) have e: "e = d\<lparr>db_pons := db_pons d @ [v\<lparr>pl_created_at := rfc3339 (pl_created_at v)\<rparr>]\<rparr>"
    and fk: "find_launch (pl_token_address v) d \<noteq> None" by (auto simp: insert_pons_row_def res_simps)
  have "category_of d (pl_token_address v) = Some ''pons''"
    using foreign_key [OF assms(1,3) fk assms(4)] assms(5) by simp
  moreover have "category_of e = category_of d" by (simp add: e fun_eq_iff category_of_def find_launch_def)
  ultimately show ?thesis using assms(3) by (simp add: launches_ok_def e)
qed

lemma insert_o1_row_ok:
  assumes "eth_ok E" "insert_o1_row v d = Inr e" "launches_ok d"
    "normalize_address E (oc_token_address v) = Inr t" "category_of d t = Some ''o1_crypto''"
  shows "launches_ok e"
proof -
  from assms(2) have e: "e = d\<lparr>db_o1 := db_o1 d @ [v\<lparr>oc_created_at := rfc3339 (oc_created_at v), oc_hook_warning := False\<rparr>]\<rparr>"
    and fk: "find_launch (oc_token_address v) d \<noteq> None" by (auto simp: insert_o1_row_def res_simps)
  have "category_of d (oc_token_address v) = Some ''o1_crypto''"
    using foreign_key [OF assms(1,3) fk assms(4)] assms(5) by simp
  moreover have "category_of e = category_of d" by (simp add: e fun_eq_iff category_of_def find_launch_def)
  ultimately show ?thesis using assms(3) by (simp add: launches_ok_def e)
qed

lemma insert_rows_events: "insert_pons_row v d = Inr e \<Longrightarrow> db_events e = db_events d"
  "insert_o1_row w d = Inr e \<Longrightarrow> db_events e = db_events d"
  by (auto simp: insert_pons_row_def insert_o1_row_def res_simps)

interpretation pons_table: detail_table E pons_view insert_pons_row "''pons''" for E
  by unfold_locales
    (auto simp: pons_view_def insert_pons_row_keeps insert_rows_events intro: insert_pons_row_ok)

interpretation o1_table: detail_table E o1_crypto_view insert_o1_row "''o1_crypto''" for E
  by unfold_locales
    (auto simp: o1_crypto_view_def insert_o1_row_keeps insert_rows_events intro: insert_o1_row_ok)

section \<open>The other writes\<close>

lemma launches_ok_map:
  assumes "launches_ok d" and "db_index e = map f (db_index d)" "db_pons e = map g (db_pons d)" "db_o1 e = db_o1 d"
    and "\<And>r. lr_token (f r) = lr_token r \<and> lr_category (f r) = lr_category r"
    and "\<And>v. pl_token_address (g v) = pl_token_address v"
  shows "launches_ok e"
proof -
  have "find_launch t e = map_option f (find_launch t d)" for t
    using assms(5) by (simp add: find_launch_def assms(2) find_map comp_def)
  then have "category_of e t = category_of d t" for t
    using assms(5) by (simp add: category_of_def option.map_comp comp_def)
  then show ?thesis using assms by (auto simp: launches_ok_def comp_def)
qed

lemma graduations_ok: "launches_ok d \<Longrightarrow> launches_ok (commit_graduations gs d)"
  by (erule launches_ok_map [where f = "\<lambda>r. foldl graduate_status r gs" and g = "\<lambda>r. foldl graduate_row r gs"])
    (simp_all add: commit_graduations_eq)

lemma insert_event_ok:
  assumes "eth_ok E" "events_ok d" "prepare_event E v = Inr (w, ws)" "insert_event_tx w d = Inr (b, e)"
  shows "events_ok e"
proof -
  have "canonical_address (we_wallet w)" "canonical_address (we_token w)"
    using assms(3) normalize_address_canonical [OF assms(1)]
    by (auto simp: prepare_event_def Let_def res_simps split: prod.splits if_splits)
  moreover have "b \<longrightarrow> event_checks w \<and> we_id w \<notin> event_ids d \<and> db_events e = db_events d @ [event_row w]"
    "\<not> b \<longrightarrow> e = d" using insert_event_tx_Inr [OF assms(4)] by blast+
  ultimately show ?thesis using assms(2)
    by (cases b) (auto simp: events_ok_def event_ids_def event_row_def event_checks_def)
qed

lemma commit_events_ok:
  "\<lbrakk>commit_events E cs vs d = Inr (e, evs, ws); eth_ok E; events_ok d\<rbrakk> \<Longrightarrow> events_ok e"
proof (induction vs arbitrary: d evs ws)
  case (Cons v vs)
  from Cons.prems(1) show ?case
  proof (rule commit_events_Cons)
    fix w ws1 b d1 evs1 ws2 assume a: "prepare_event E v = Inr (w, ws1)" "insert_event_tx w d = Inr (b, d1)"
      "commit_events E cs vs (seen_active b w d1) = Inr (e, evs1, ws2)"
    have "events_ok (seen_active b w d1)"
      using insert_event_ok [OF Cons.prems(2,3) a(1,2)] by (simp add: events_ok_def)
    then show ?thesis by (rule Cons.IH [OF a(3) Cons.prems(2)])
  qed (use Cons.IH Cons.prems in blast)
qed simp

lemma put_sync_events: "put_sync_state_tx wm d = Inr e \<Longrightarrow> db_events e = db_events d"
  by (auto simp: put_sync_state_tx_def Let_def res_simps)

lemma events_ok_same: "db_events e = db_events d \<Longrightarrow> events_ok e = events_ok d"
  by (simp add: events_ok_def)

abbreviation db_ok :: "db \<Rightarrow> bool" where "db_ok d \<equiv> launches_ok d \<and> events_ok d"

lemma commit_block_ok:
  assumes "eth_ok E" "commit_block_tx E ch wm d = Inr (e, r)" "db_ok d"
  shows "db_ok e"
proof -
  from assms(2) obtain d1 p cs1 d2 o1 cs2 d3 evs ws where
    s: "commit_launches E pons_view insert_pons_row (bc_pons ch) d = Inr (d1, p, cs1)"
    "commit_launches E o1_crypto_view insert_o1_row (bc_o1 ch) d1 = Inr (d2, o1, cs2)"
    "commit_events E (cs1 @ cs2) (bc_events ch) (commit_graduations (bc_graduations ch) d2) = Inr (d3, evs, ws)"
    "put_sync_state_tx wm d3 = Inr e"
    by (rule commit_block_tx_parts)
  have l1: "launches_ok d1" "db_events d1 = db_events d"
    using pons_table.commit_launches_ok [OF s(1) _ assms(1)] assms(3) by blast+
  have l2: "launches_ok d2" "db_events d2 = db_events d"
    using o1_table.commit_launches_ok [OF s(2) l1(1) assms(1)] l1(2) by simp_all
  have "launches_ok d3"
    using commit_events_keeps [OF s(3)] launches_ok_same graduations_ok [OF l2(1)] by blast
  moreover have "events_ok d3"
    using l2(2) assms(3) by (intro commit_events_ok [OF s(3) assms(1)]) (simp add: events_ok_def commit_graduations_eq)
  ultimately show ?thesis
    using launches_ok_same [OF put_sync_state_load(2) [OF s(4)]] events_ok_same [OF put_sync_events [OF s(4)]] by blast
qed

lemma write_tx_cases:
  assumes "write_tx fault f d = (e, r)"
  obtains "e = d" | x where "f d = Inr (e, x)" "r = Inr x"
  using assms by (auto simp: write_tx_def split: option.splits sum.splits)

lemma db_ok_kept: "\<lbrakk>db_ok d; db_index e = db_index d; db_pons e = db_pons d; db_o1 e = db_o1 d; db_events e = db_events d\<rbrakk>
    \<Longrightarrow> db_ok e"
  using launches_ok_same [of d e] events_ok_same [of e d] by (simp add: same_launches_def)

lemma launch_insert_ok:
  assumes "write_tx fault f d = (e, r)" "db_ok d"
    and "\<And>e b. \<lbrakk>f d = Inr (e, b); launches_ok d\<rbrakk> \<Longrightarrow> launches_ok e \<and> db_events e = db_events d"
  shows "db_ok e"
  using assms(1)
proof (rule write_tx_cases)
  fix x assume "f d = Inr (e, x)"
  from assms(3) [OF this] assms(2) show ?thesis using events_ok_same by blast
qed (use assms(2) in simp)

lemma insert_pons_launch_ok:
  assumes "eth_ok E" "insert_pons_launch E fault v d = (e, r)" "db_ok d"
  shows "db_ok e"
proof -
  have "e = d \<or> (\<exists>w. write_tx fault (\<lambda>d. bindE (insert_launch_index E (pons_view w) d) (\<lambda>(inserted, d1).
      if inserted then bindE (insert_pons_row w d1) (\<lambda>d2. Inr (d2, True)) else Inr (d1, False))) d = (e, r))"
    using assms(2) unfolding insert_pons_launch_def by (auto split: sum.splits)
  then show ?thesis
  proof (elim disjE exE)
    fix w assume "write_tx fault (\<lambda>d. bindE (insert_launch_index E (pons_view w) d) (\<lambda>(inserted, d1).
      if inserted then bindE (insert_pons_row w d1) (\<lambda>d2. Inr (d2, True)) else Inr (d1, False))) d = (e, r)"
    then show ?thesis
      by (rule launch_insert_ok) (use assms(3) pons_table.single_insert_ok [OF _ _ assms(1)] in blast)+
  qed (use assms(3) in simp)
qed

lemma insert_o1_launch_ok:
  assumes "eth_ok E" "insert_o1_crypto_launch E fault v d = (e, r)" "db_ok d"
  shows "db_ok e"
proof -
  have "e = d \<or> (\<exists>w. write_tx fault (\<lambda>d. bindE (insert_launch_index E (o1_crypto_view w) d) (\<lambda>(inserted, d1).
      if inserted then bindE (insert_o1_row w d1) (\<lambda>d2. Inr (d2, True)) else Inr (d1, False))) d = (e, r))"
    using assms(2) unfolding insert_o1_crypto_launch_def by (auto split: sum.splits)
  then show ?thesis
  proof (elim disjE exE)
    fix w assume "write_tx fault (\<lambda>d. bindE (insert_launch_index E (o1_crypto_view w) d) (\<lambda>(inserted, d1).
      if inserted then bindE (insert_o1_row w d1) (\<lambda>d2. Inr (d2, True)) else Inr (d1, False))) d = (e, r)"
    then show ?thesis
      by (rule launch_insert_ok) (use assms(3) o1_table.single_insert_ok [OF _ _ assms(1)] in blast)+
  qed (use assms(3) in simp)
qed

lemma graduate_ok:
  assumes "graduate_pons_launch E fault token pool t d = (e, r)" "db_ok d"
  shows "db_ok e"
proof -
  have "e = d \<or> (\<exists>a p. e = graduate_tx a p t d)"
    using assms(1) by (auto simp: graduate_pons_launch_def write_tx_def split: sum.splits option.splits) blast
  moreover have "db_ok (graduate_tx a p t d)" for a p
    using graduations_ok [of d "[\<lparr>pg_token = a, pg_pool_id = p, pg_at = t\<rparr>]"] assms(2)
    by (simp add: commit_graduations_def events_ok_def graduate_tx_def)
  ultimately show ?thesis using assms(2) by auto
qed

lemma update_price_ok:
  assumes "update_launch_price E fault token p block hash t d = (e, r)" "db_ok d"
  shows "db_ok e"
proof -
  define f where f: "f = (\<lambda>r :: launch_row. r\<lparr>lr_price_usd := Some p, lr_price_block := block, lr_price_tx := hash,
    lr_price_at := Some (rfc3339 t)\<rparr>)"
  have "e = d \<or> (\<exists>a. e = d\<lparr>db_index := upd_where (\<lambda>r. equal_fold (lr_token r) a) f (db_index d)\<rparr>)"
    using assms(1) unfolding f
    by (auto simp: update_launch_price_def write_tx_def guardE_def split: sum.splits option.splits if_splits)
  then show ?thesis
  proof (elim disjE exE)
    fix a assume e: "e = d\<lparr>db_index := upd_where (\<lambda>r. equal_fold (lr_token r) a) f (db_index d)\<rparr>"
    have "launches_ok e"
      by (rule launches_ok_map [of d e "\<lambda>r. if equal_fold (lr_token r) a then f r else r" "\<lambda>v. v"])
        (use assms(2) in \<open>simp_all add: e f upd_where_def\<close>)
    then show ?thesis using assms(2) by (simp add: e events_ok_def)
  qed (use assms(2) in simp)
qed

lemma insert_wallet_event_ok:
  assumes "eth_ok E" "insert_wallet_event E fault v d = (e, b)" "db_ok d"
  shows "db_ok e"
proof -
  have "e = d \<or> (\<exists>w ws i d1. prepare_event E v = Inr (w, ws) \<and> insert_event_tx w d = Inr (i, d1) \<and>
      same_launches d1 e \<and> db_events e = db_events d1)"
    using assms(2)
    by (auto simp: insert_wallet_event_def write_tx_def res_simps same_launches_def touch_wallet_def
        split: sum.splits option.splits prod.splits if_splits)
  then show ?thesis
  proof (elim disjE exE conjE)
    fix w ws i d1 assume a: "prepare_event E v = Inr (w, ws)" "insert_event_tx w d = Inr (i, d1)"
      "same_launches d1 e" "db_events e = db_events d1"
    have "events_ok d1" by (rule insert_event_ok [OF assms(1) _ a(1,2)]) (use assms(3) in blast)
    moreover have "launches_ok d1" using launches_ok_same insert_event_tx_Inr(1) [OF a(2)] assms(3) by blast
    ultimately show ?thesis using launches_ok_same [OF a(3)] events_ok_same [OF a(4)] by blast
  qed (use assms(3) in simp)
qed

lemma keeps_only_ok: "keeps_only d e \<Longrightarrow> db_ok d \<Longrightarrow> db_ok e"
  by (auto simp: keeps_only_def events_ok_def distinct_map_filter launches_ok_def category_of_def find_launch_def)

lemma purge_ok:
  assumes "purge_expired_wallet_events now days batch m faults cancelled d = Some (e, pr, x)" "db_ok d"
  shows "db_ok e"
proof (cases "days < 1 \<or> batch < 1 \<or> 5000 < batch \<or> m < 1")
  case True
  with assms show ?thesis by (simp add: purge_expired_wallet_events_def)
next
  case False
  then have "0 < nat batch" by simp
  from purge_loop_returns [OF this] obtain e' pr' x' where
    "purge_loop (now + int64 (- days * day)) (nat batch) (nat m) faults cancelled 0 0 d = Some (e', pr', x')" "keeps_only d e'"
    by blast
  with False assms keeps_only_ok [of d e] show ?thesis by (simp add: purge_expired_wallet_events_def)
qed

lemma reachable_db_ok:
  assumes "reachable_db E d" and "eth_ok E"
  shows "db_ok d"
  using assms(1)
proof (induction rule: reachable_db.induct)
  case (start d)
  then show ?case by (simp add: fresh_db_def launches_ok_def events_ok_def)
next
  case (commit d fault ch wm e r)
  from commit.hyps(2) [unfolded commit_block_def] show ?case
    by (rule write_tx_cases) (use commit.IH commit_block_ok [OF assms(2)] in blast)+
next
  case (watermark d fault wm e r)
  from watermark.hyps(2) [unfolded put_sync_state_def] show ?case
  proof (rule write_tx_cases)
    fix x assume "bindE (put_sync_state_tx wm d) (\<lambda>d1. Inr (d1, ())) = Inr (e, x)"
    then have p: "put_sync_state_tx wm d = Inr e" by (auto simp: res_simps)
    show ?thesis using launches_ok_same [OF put_sync_state_load(2) [OF p]] events_ok_same [OF put_sync_events [OF p]]
        watermark.IH by blast
  qed (use watermark.IH in simp)
next
  case (pons d fault v e r)
  show ?case by (rule insert_pons_launch_ok [OF assms(2) pons.hyps(2) pons.IH])
next
  case (o1 d fault w e r)
  show ?case by (rule insert_o1_launch_ok [OF assms(2) o1.hyps(2) o1.IH])
next
  case (graduate d fault token pool t e r')
  show ?case by (rule graduate_ok [OF graduate.hyps(2) graduate.IH])
next
  case (price d fault token p block hash t e r')
  show ?case by (rule update_price_ok [OF price.hyps(2) price.IH])
next
  case (event d fault x e b)
  show ?case by (rule insert_wallet_event_ok [OF assms(2) event.hyps(2) event.IH])
next
  case (score d fault address s t e r')
  from score.hyps(2) show ?case
    by (intro db_ok_kept [OF score.IH])
      (auto simp: update_wallet_score_def write_tx_def guardE_def split: sum.splits option.splits if_splits)
next
  case (asset d fault a e r')
  from asset.hyps(2) show ?case
    by (intro db_ok_kept [OF asset.IH])
      (auto simp: upsert_quote_asset_def write_tx_def guardE_def split: sum.splits option.splits if_splits)
next
  case (purge d now days batch m faults cancelled e pr r')
  show ?case by (rule purge_ok [OF purge.hyps(2) purge.IH])
qed

section \<open>Pages\<close>

definition comes_before :: "launch_row \<Rightarrow> launch_row \<Rightarrow> bool" where
  "comes_before a b \<longleftrightarrow> after_cursor (lr_created_at a, lr_token a) b"

text \<open>A stable sort by a second key orders by both.\<close>

lemma insort_key_lex:
  fixes f :: "'r \<Rightarrow> 'k :: linorder" and g :: "'r \<Rightarrow> 'l :: linorder"
  shows "\<lbrakk>sorted_wrt (\<lambda>a b. f a < f b \<or> f a = f b \<and> g a \<le> g b) ys; \<forall>y\<in>set ys. g x \<le> g y\<rbrakk> \<Longrightarrow>
    sorted_wrt (\<lambda>a b. f a < f b \<or> f a = f b \<and> g a \<le> g b) (insort_key f x ys)"
proof (induction ys)
  case (Cons y ys)
  show ?case
  proof (cases "f x \<le> f y")
    case True
    with Cons.prems show ?thesis by (auto simp: le_less)
  next
    case False
    with Cons show ?thesis by (auto simp: set_insort_key)
  qed
qed simp

lemma sort_key_lex:
  fixes f :: "'r \<Rightarrow> 'k :: linorder" and g :: "'r \<Rightarrow> 'l :: linorder"
  shows "sorted (map g xs) \<Longrightarrow> sorted_wrt (\<lambda>a b. f a < f b \<or> f a = f b \<and> g a \<le> g b) (sort_key f xs)"
  by (induction xs) (auto intro!: insort_key_lex)

lemma distinct_pairwise: "distinct xs = sorted_wrt (\<lambda>a b. a \<noteq> b) xs"
  by (induction xs) auto

lemma sorted_wrt_both: "sorted_wrt P xs \<Longrightarrow> sorted_wrt Q xs \<Longrightarrow> sorted_wrt (\<lambda>a b. P a b \<and> Q a b) xs"
  by (induction xs) auto

lemma launches_desc_ordered:
  assumes "launches_ok d"
  shows "sorted_wrt comes_before (launches_desc category d)"
proof -
  let ?xs = "filter (\<lambda>r. category \<noteq> [] \<longrightarrow> lr_category r = category) (db_index d)"
  let ?ys = "sort_key (\<lambda>r. to_lower (lr_token r)) ?xs"
  let ?zs = "sort_key lr_created_at ?ys"
  have low: "to_lower (lr_token r) = lr_token r" if "r \<in> set (db_index d)" for r
    using assms that canonical_lower by (auto simp: launches_ok_def)
  have "sorted (map (\<lambda>r. to_lower (lr_token r)) ?ys)" by (rule sorted_sort_key)
  from sort_key_lex [OF this, of lr_created_at] have
    a: "sorted_wrt (\<lambda>a b. lr_created_at a < lr_created_at b \<or> lr_created_at a = lr_created_at b \<and>
         to_lower (lr_token a) \<le> to_lower (lr_token b)) ?zs" .
  have "mset (map lr_token ?zs) = mset (map lr_token ?xs)" by simp
  moreover have "distinct (map lr_token ?xs)" using assms by (simp add: launches_ok_def distinct_map_filter)
  ultimately have "distinct (map lr_token ?zs)" by (metis mset_eq_imp_distinct_iff)
  then have b: "sorted_wrt (\<lambda>a b. lr_token a \<noteq> lr_token b) ?zs"
    by (simp add: distinct_pairwise sorted_wrt_map)
  have "sorted_wrt (\<lambda>a b. comes_before b a) ?zs"
  proof (rule sorted_wrt_mono_rel [OF _ sorted_wrt_both [OF a b]])
    fix x y assume "x \<in> set ?zs" "y \<in> set ?zs"
    then have "to_lower (lr_token x) = lr_token x" "to_lower (lr_token y) = lr_token y" by (simp_all add: low)
    moreover assume "(lr_created_at x < lr_created_at y \<or> lr_created_at x = lr_created_at y \<and>
        to_lower (lr_token x) \<le> to_lower (lr_token y)) \<and> lr_token x \<noteq> lr_token y"
    ultimately show "comes_before y x" by (auto simp: comes_before_def after_cursor_def)
  qed
  then show ?thesis by (simp add: launches_desc_def sorted_wrt_rev)
qed

lemma filter_after:
  assumes "sorted_wrt R xs" "k < length xs" "\<And>x. \<not> R x x" "\<And>x y z. R x y \<Longrightarrow> R y z \<Longrightarrow> R x z"
  shows "filter (R (xs ! k)) xs = drop (Suc k) xs"
proof -
  have xs: "xs = take k xs @ xs ! k # drop (Suc k) xs" by (rule id_take_nth_drop [OF assms(2)])
  have s: "sorted_wrt R (take k xs @ xs ! k # drop (Suc k) xs)" using assms(1) xs by simp
  have "\<not> R (xs ! k) x" if "x \<in> set (take k xs)" for x
  proof -
    have "R x (xs ! k)" using s that by (simp add: sorted_wrt_append)
    then show ?thesis using assms(3) assms(4) [of x "xs ! k" x] by blast
  qed
  then have "filter (R (xs ! k)) (take k xs) = []" by (simp add: filter_empty_conv)
  moreover have "filter (R (xs ! k)) (drop (Suc k) xs) = drop (Suc k) xs"
    using s by (simp add: sorted_wrt_append filter_id_conv)
  ultimately have "filter (R (xs ! k)) (take k xs @ xs ! k # drop (Suc k) xs) = drop (Suc k) xs"
    using assms(3) by simp
  then show ?thesis using xs by simp
qed

lemma comes_before_order: "\<not> comes_before x x" "comes_before x y \<Longrightarrow> comes_before y z \<Longrightarrow> comes_before x z"
  by (auto simp: comes_before_def after_cursor_def)

lemma purge_returns:
  assumes "reachable_db E d" and "eth_ok E" and "1 \<le> days" and "1 \<le> batch" and "batch \<le> 5000" and "1 \<le> m"
  shows "\<exists>e k limited. purge_expired_wallet_events now days batch m (\<lambda>_. None) (\<lambda>_. False) d =
      Some (e, \<lparr>pu_deleted = k, pu_limited = limited\<rparr>, None) \<and>
    purged (now + int64 (- days * day)) (nat m) d e k limited"
proof -
  have "distinct (map we_id (db_events d))" using reachable_db_ok [OF assms(1,2)] by (simp add: events_ok_def)
  moreover have "0 < nat batch" "0 < nat m" using assms(4,6) by simp_all
  ultimately show ?thesis
    using purge_loop_purges [of "nat batch" 0 "nat m" d "now + int64 (- days * day)" 0] assms(3-6)
    by (simp add: purge_expired_wallet_events_def)
qed

section \<open>Properties\<close>

text \<open>Whatever the indexer has written, the catalog of launches and the tables of the venues agree:
  every detail row belongs to a catalog entry of its venue's category, so no token is in two venues.\<close>

theorem details_match_the_catalog:
  assumes "eth_ok E" and "reachable_db E d"
  shows "(\<forall>p\<in>set (db_pons d). category_of d (pl_token_address p) = Some ''pons'') \<and>
    (\<forall>q\<in>set (db_o1 d). category_of d (oc_token_address q) = Some ''o1_crypto'') \<and>
    (\<forall>p\<in>set (db_pons d). \<forall>q\<in>set (db_o1 d). \<not> equal_fold (pl_token_address p) (oc_token_address q))"
proof -
  have ok: "launches_ok d" using reachable_db_ok [OF assms(2,1)] by simp
  have False if "p \<in> set (db_pons d)" "q \<in> set (db_o1 d)" "equal_fold (pl_token_address p) (oc_token_address q)" for p q
    using ok that(1,2) equal_fold_lower [OF that(3), of d] by (auto simp: launches_ok_def)
  then show ?thesis using ok by (auto simp: launches_ok_def)
qed

text \<open>Every stored trade has its own key, lowercase addresses of twenty bytes, and a kind,
  category, direction and router of the schema.\<close>

theorem stored_events_are_well_formed:
  assumes "eth_ok E" and "reachable_db E d"
  shows "distinct (map we_id (db_events d)) \<and>
    (\<forall>v\<in>set (db_events d). event_checks v \<and> canonical_address (we_wallet v) \<and> canonical_address (we_token v))"
  using reachable_db_ok [OF assms(2,1)] by (simp add: events_ok_def)

text \<open>C40. A purge that is neither interrupted nor failing returns. It deletes nothing but expired
  events, at most as many as allowed and the oldest of them first, and it reports that it stopped
  early exactly when expired events are left.\<close>

theorem purge_deletes_the_oldest:
  assumes "eth_ok E" and "reachable_db E d"
    and "1 \<le> days" and "days \<le> 106751" and "1 \<le> batch" and "batch \<le> 5000" and "1 \<le> m"
  shows "\<exists>e k limited. purge_expired_wallet_events now days batch m (\<lambda>_. None) (\<lambda>_. False) d =
      Some (e, \<lparr>pu_deleted = k, pu_limited = limited\<rparr>, None) \<and>
    purged (now - days * day) (nat m) d e k limited"
proof -
  have "int64 (- days * day) = - days * day" using assms(3,4) by (intro int64_id) (simp_all add: day_def second_def)
  with purge_returns [OF assms(2,1,3,5-7), of now] show ?thesis by simp
qed

text \<open>The retention has no upper bound, and its conversion to a duration overflows: with a
  retention of 106752 days the cutoff lies 292 years ahead, and a purge deletes every event of the
  present, as far as its row limit reaches.\<close>

theorem long_retention_deletes_everything:
  assumes "eth_ok E" and "reachable_db E d" and "\<forall>v\<in>set (db_events d). we_chain_time v \<le> now"
    and "1 \<le> batch" and "batch \<le> 5000" and "length (db_events d) \<le> nat m" and "1 \<le> m"
  shows "\<exists>pr. purge_expired_wallet_events now 106752 batch m (\<lambda>_. None) (\<lambda>_. False) d =
    Some (d\<lparr>db_events := []\<rparr>, pr, None)"
proof -
  let ?c = "now + int64 (- 106752 * day)"
  have c: "?c = now + 9223371273709551616"
    by (simp add: int64_def day_def second_def)
  have "now \<le> rfc3339 ?c - 1"
    using pos_mod_bound [of "10 ^ 9" ?c] unfolding c rfc3339_def second_def by (simp flip: minus_mod_eq_div_mult)
  then have all: "overdue ?c d = db_events d" using assms(3) by (auto simp: expired_def filter_id_conv)
  from purge_returns [OF assms(2,1) _ assms(4,5,7), of 106752 now] obtain e k limited where
    e: "purge_expired_wallet_events now 106752 batch m (\<lambda>_. None) (\<lambda>_. False) d =
      Some (e, \<lparr>pu_deleted = k, pu_limited = limited\<rparr>, None)" and p: "purged ?c (nat m) d e k limited"
    by auto
  have "length (overdue ?c e) + k = length (db_events d)" "overdue ?c e \<noteq> [] \<longrightarrow> k = nat m"
    "e = d\<lparr>db_events := db_events e\<rparr>" "set (db_events e) \<subseteq> set (db_events d)"
    using p unfolding purged_def all by simp_all
  moreover from this(1,2) assms(6) have "overdue ?c e = []" by (cases "overdue ?c e") auto
  moreover have "overdue ?c e = db_events e" using calculation(4) all by (auto simp: filter_id_conv)
  ultimately have "e = d\<lparr>db_events := []\<rparr>" by simp
  with e show ?thesis by blast
qed

text \<open>The pages of the launch list partition it: the cursor of any row selects exactly the rows
  after that row, in the order of the list, up to the limit.\<close>

lemma page_after_cursor:
  assumes "eth_ok E" and "reachable_db E d" and "1 \<le> limit" and "limit \<le> 200"
    and "k < length (launches_desc category d)"
  shows "list_launches E category (Some (lr_created_at (launches_desc category d ! k), lr_token (launches_desc category d ! k)))
      limit d = Inr (take (nat limit) (drop (Suc k) (launches_desc category d)))"
proof -
  let ?L = "launches_desc category d"
  have ok: "launches_ok d" using reachable_db_ok [OF assms(2,1)] by simp
  have "?L ! k \<in> set ?L" using assms(5) by simp
  then have "?L ! k \<in> set (db_index d)" by (simp add: launches_desc_def)
  then have "canonical_address (lr_token (?L ! k))" using ok by (simp add: launches_ok_def)
  then have n: "normalize_address E (lr_token (?L ! k)) = Inr (lr_token (?L ! k))"
    by (rule normalize_address_id [OF assms(1)])
  have "filter (comes_before (?L ! k)) ?L = drop (Suc k) ?L"
    by (rule filter_after [OF launches_desc_ordered [OF ok] assms(5) comes_before_order(1)]) (erule (1) comes_before_order(2))
  then show ?thesis using n assms(3,4) by (simp add: list_launches_def comes_before_def [abs_def])
qed

section \<open>Witnesses\<close>

definition ex_launch :: "string \<Rightarrow> pons_launch" where
  "ex_launch token = \<lparr>pl_token_address = token, pl_symbol = ''T'', pl_name = ''Token'', pl_logo = [],
     pl_description = [], pl_curve_address = token, pl_pair_address = ex_wallet, pl_pair_symbol = ''ETH'',
     pl_pair_decimals = 18, pl_launch_config_id = ''1'', pl_graduation_threshold = ''1'', pl_first_buy_quote = ''0'',
     pl_deployer = ex_wallet, pl_creator_eoa = ex_wallet, pl_creator_fee_recipient = [], pl_launch_entry = ''factory'',
     pl_first_buy_tokens = ''0'', pl_phase = ''curve'', pl_pool_id = [], pl_tx_hash = token, pl_graduated_at = None,
     pl_block_number = 7, pl_log_index = 1, pl_created_at = 5 * second\<rparr>"

definition one_launch_db :: db where
  "one_launch_db = fst (insert_pons_launch eth_plain None (ex_launch ex_token) empty_db)"

definition two_launch_db :: db where
  "two_launch_db = fst (insert_pons_launch eth_plain None (ex_launch ex_wallet) one_launch_db)"

definition one_event_db :: db where
  "one_event_db = fst (insert_wallet_event eth_plain None ex_event empty_db)"

lemma ex_reachable: "reachable_db eth_plain empty_db" "reachable_db eth_plain one_launch_db"
  "reachable_db eth_plain two_launch_db" "reachable_db eth_plain one_event_db"
proof -
  show e: "reachable_db eth_plain empty_db" by (rule reachable_db.start) (simp add: fresh_db_def empty_db_def)
  show l1: "reachable_db eth_plain one_launch_db"
    unfolding one_launch_db_def by (rule reachable_db.pons [OF e prod.collapse [symmetric]])
  show "reachable_db eth_plain two_launch_db"
    unfolding two_launch_db_def by (rule reachable_db.pons [OF l1 prod.collapse [symmetric]])
  show "reachable_db eth_plain one_event_db"
    unfolding one_event_db_def by (rule reachable_db.event [OF e prod.collapse [symmetric]])
qed

theorem details_match_the_catalog_witness:
  "db_pons one_launch_db \<noteq> [] \<and>
   list_all (\<lambda>p. category_of one_launch_db (pl_token_address p) = Some ''pons'') (db_pons one_launch_db)"
proof -
  have "db_pons one_launch_db \<noteq> []" by code_simp
  with details_match_the_catalog [OF eth_plain_ok ex_reachable(2)] show ?thesis by (simp add: list_all_iff)
qed

theorem stored_events_are_well_formed_witness:
  "length (db_events one_event_db) = 1 \<and> list_all (\<lambda>v. canonical_address (we_wallet v)) (db_events one_event_db)"
proof -
  have "length (db_events one_event_db) = 1" by code_simp
  with stored_events_are_well_formed [OF eth_plain_ok ex_reachable(4)] show ?thesis by (simp add: list_all_iff)
qed

theorem purge_deletes_the_oldest_witness:
  "length (overdue (3 * day - 1 * day) one_event_db) = 1 \<and>
   (\<exists>e k limited. purge_expired_wallet_events (3 * day) 1 500 1 (\<lambda>_. None) (\<lambda>_. False) one_event_db =
      Some (e, \<lparr>pu_deleted = k, pu_limited = limited\<rparr>, None) \<and> purged (3 * day - 1 * day) (nat 1) one_event_db e k limited)"
proof -
  have "length (overdue (3 * day - 1 * day) one_event_db) = 1" by code_simp
  with purge_deletes_the_oldest [OF eth_plain_ok ex_reachable(4), of 1 500 1 "3 * day"] show ?thesis by simp
qed

theorem long_retention_deletes_everything_witness:
  "length (db_events one_event_db) = 1 \<and>
   (\<exists>pr. purge_expired_wallet_events (3 * day) 106752 500 5000 (\<lambda>_. None) (\<lambda>_. False) one_event_db =
      Some (one_event_db\<lparr>db_events := []\<rparr>, pr, None))"
proof -
  have "length (db_events one_event_db) = 1" "\<forall>v\<in>set (db_events one_event_db). we_chain_time v \<le> 3 * day" by code_simp+
  with long_retention_deletes_everything [OF eth_plain_ok ex_reachable(4), of "3 * day" 500 5000] show ?thesis by simp
qed

end
