(* ===== verification/Price_Exec.thy ===== *)
theory Price_Exec
  imports Store_Invariant Chain_Pool
begin

text \<open>
  \<open>internal/price\<close>: the execution price of a trade (\<open>exec.go\<close>), the cached ETH price
  (\<open>binance.go\<close>) and the set of prices to display (\<open>dirty.go\<close>). A \<open>big.Rat\<close> is a rational
  number; \<open>F\<close> is the rounding of \<open>big.Rat.Float64\<close>, with \<open>None\<close> for an infinite result. A \<open>NaN\<close>
  cannot arise. The HTTP client and the JSON decoder of the price feed are parameters, and so is
  \<open>big.Rat.SetString\<close>.
\<close>

section \<open>Execution prices (exec.go)\<close>

definition exec_quote_per_token :: "string \<Rightarrow> string \<Rightarrow> byte \<Rightarrow> byte \<Rightarrow> rat res" where
  "exec_quote_per_token meme_raw quote_raw token_decimals quote_decimals =
     (case parse_big 10 meme_raw of
        None \<Rightarrow> Inl E_price
      | Some meme \<Rightarrow> guardE (meme \<le> 0) E_price
          (case parse_big 10 quote_raw of
             None \<Rightarrow> Inl E_price
           | Some quote \<Rightarrow> guardE (quote \<le> 0) E_price
               (Inr (of_int (quote * 10 ^ unat token_decimals) / of_int (meme * 10 ^ unat quote_decimals)))))"

definition rat_float64 :: "to_float \<Rightarrow> rat \<Rightarrow> rat res" where
  "rat_float64 F v = guardE (v \<le> 0) E_price
     (case F v of None \<Rightarrow> Inl E_price | Some out \<Rightarrow> guardE (out \<le> 0) E_price (Inr out))"

definition quote_usd :: "eth_common \<Rightarrow> rat res \<Rightarrow> string \<Rightarrow> db \<Rightarrow> rat res" where
  "quote_usd E feed quote_address d =
     (case get_quote_asset E quote_address d of
        Inl _ \<Rightarrow> Inl E_no_feed
      | Inr asset \<Rightarrow>
          if qa_kind asset = ''usdg'' then Inr 1
          else if qa_kind asset = ''eth'' then feed
          else Inl E_no_feed)"

definition exec_usd :: "eth_common \<Rightarrow> to_float \<Rightarrow> rat res \<Rightarrow> rat \<Rightarrow> string \<Rightarrow> db \<Rightarrow> (rat \<times> rat) res" where
  "exec_usd E F feed exec_quote quote_address d =
     guardE (exec_quote \<le> 0) E_price
       (bindE (quote_usd E feed quote_address d) (\<lambda>usd.
        guardE (usd \<le> 0) E_no_feed
          (let exec = exec_quote * usd
           in bindE (rat_float64 F exec) (\<lambda>_. Inr (exec, usd)))))"

section \<open>The ETH price (binance.go)\<close>

record feed =
  fd_poll :: duration
  fd_ttl :: duration
  fd_stale :: duration
  fd_price :: "rat option"
  fd_fetched_at :: time
  fd_last_failed :: bool

text \<open>\<open>url_parse\<close> is \<open>url.Parse\<close>; a base URL carries neither a user, nor a query, nor a fragment.\<close>

definition feed_url_ok :: "(string \<Rightarrow> parsed_url option) \<Rightarrow> string \<Rightarrow> bool" where
  "feed_url_ok url_parse base \<longleftrightarrow>
     (case url_parse (trim_space base) of
        None \<Rightarrow> False
      | Some u \<Rightarrow> (pu_scheme u = ''http'' \<or> pu_scheme u = ''https'') \<and> pu_host u \<noteq> [] \<and> \<not> pu_has_user u \<and>
          pu_query u = [] \<and> pu_fragment u = [])"

definition new_binance_feed :: "(string \<Rightarrow> parsed_url option) \<Rightarrow> string \<Rightarrow> string \<Rightarrow> duration \<Rightarrow> duration \<Rightarrow> duration \<Rightarrow> duration \<Rightarrow> feed res" where
  "new_binance_feed url_parse base symbol poll ttl stale timeout =
     guardE (\<not> feed_url_ok url_parse base) E_config
    (guardE (trim_space symbol = [] \<or> poll \<le> 0 \<or> ttl \<le> 0 \<or> stale < ttl \<or> timeout \<le> 0) E_config
       (Inr \<lparr>fd_poll = poll, fd_ttl = ttl, fd_stale = stale, fd_price = None, fd_fetched_at = zero_time,
             fd_last_failed = False\<rparr>))"

definition eth_usd :: "time \<Rightarrow> feed \<Rightarrow> rat res" where
  "eth_usd now f =
     (case fd_price f of
        None \<Rightarrow> Inl E_no_feed
      | Some p \<Rightarrow> let age = now - fd_fetched_at f
          in if age > fd_stale f \<or> (age > fd_ttl f \<and> \<not> fd_last_failed f) then Inl E_no_feed else Inr p)"

text \<open>
  One HTTP answer: a transport error, or a status and a body; \<open>json_price\<close> decodes the body's
  field \<open>price\<close> and \<open>parse_rat\<close> its text.
\<close>

definition fetch_price ::
  "('b \<Rightarrow> string res) \<Rightarrow> (string \<Rightarrow> rat option) \<Rightarrow> (nat \<times> 'b) res \<Rightarrow> time \<Rightarrow> feed \<Rightarrow> feed \<times> bool \<times> err option" where
  "fetch_price json_price parse_rat answer now f =
     (case answer of
        Inl e \<Rightarrow> (f, False, Some e)
      | Inr (status, body) \<Rightarrow>
          if status \<noteq> 200 then (f, status = 429, Some (E_http status))
          else case json_price body of
            Inl e \<Rightarrow> (f, False, Some e)
          | Inr text \<Rightarrow>
              (case parse_rat text of
                 None \<Rightarrow> (f, False, Some E_price)
               | Some v \<Rightarrow> if v \<le> 0 then (f, False, Some E_price)
                   else (f\<lparr>fd_price := Some v, fd_fetched_at := now, fd_last_failed := False\<rparr>, False, None)))"

text \<open>One turn of the loop: the feed, the pause before the next turn and the next backoff.\<close>

definition feed_turn ::
  "('b \<Rightarrow> string res) \<Rightarrow> (string \<Rightarrow> rat option) \<Rightarrow> (nat \<times> 'b) res \<Rightarrow> time \<Rightarrow> duration \<Rightarrow> feed \<Rightarrow> feed \<times> duration \<times> duration" where
  "feed_turn json_price parse_rat answer now backoff f =
     (case fetch_price json_price parse_rat answer now f of
        (f1, rate_limited, e) \<Rightarrow>
          (let f2 = (case e of None \<Rightarrow> f1 | Some _ \<Rightarrow> f1\<lparr>fd_last_failed := True\<rparr>)
           in if rate_limited then (f2, backoff, min (backoff * 2) (60 * second))
              else (f2, fd_poll f2, second)))"

text \<open>The answers until the context is cancelled; the result has the pause after every turn.\<close>

fun feed_run ::
  "('b \<Rightarrow> string res) \<Rightarrow> (string \<Rightarrow> rat option) \<Rightarrow> ((nat \<times> 'b) res \<times> time) list \<Rightarrow> duration \<Rightarrow> feed \<Rightarrow> feed \<times> duration list" where
  "feed_run json_price parse_rat [] backoff f = (f, [])"
| "feed_run json_price parse_rat ((answer, now) # rest) backoff f =
     (case feed_turn json_price parse_rat answer now backoff f of
        (f1, delay, backoff1) \<Rightarrow>
          (case feed_run json_price parse_rat rest backoff1 f1 of (f2, delays) \<Rightarrow> (f2, delay # delays)))"

section \<open>Prices to display (dirty.go)\<close>

record point =
  dp_token :: string
  dp_tx :: string
  dp_price :: rat
  dp_block :: u64
  dp_at :: time
  dp_version :: u64

text \<open>The map from tokens to points is an association list; \<open>ds_order\<close> is the queue of its keys.\<close>

record dirty_set =
  ds_cap :: nat
  ds_items :: "(string \<times> point) list"
  ds_order :: "string list"
  ds_next :: u64

definition new_dirty_set :: "int \<Rightarrow> dirty_set res" where
  "new_dirty_set capacity =
     guardE (capacity < 1) E_config (Inr \<lparr>ds_cap = nat capacity, ds_items = [], ds_order = [], ds_next = 0\<rparr>)"

definition mark :: "eth_common \<Rightarrow> db \<Rightarrow> point \<Rightarrow> dirty_set \<Rightarrow> dirty_set \<times> err option" where
  "mark E d p s =
     (if dp_price p \<le> 0 \<or> dp_token p = [] \<or> dp_tx p = [] \<or> dp_at p = zero_time then (s, Some E_price)
      else case get_launch_index E (dp_token p) d of
        Inl e \<Rightarrow> (s, Some e)
      | Inr row \<Rightarrow>
          (let token = lr_token row;
               next = ds_next s + 1;
               q = p\<lparr>dp_token := token, dp_version := next\<rparr>;
               s1 = s\<lparr>ds_next := next\<rparr>
           in if map_of (ds_items s) token \<noteq> None
              then (s1\<lparr>ds_items := AList.update token q (ds_items s),
                       ds_order := remove1 token (ds_order s) @ [token]\<rparr>, None)
              else (let s2 = (if ds_cap s \<le> length (ds_items s)
                              then s1\<lparr>ds_items := AList.delete (hd (ds_order s)) (ds_items s), ds_order := tl (ds_order s)\<rparr>
                              else s1)
                    in (s2\<lparr>ds_items := AList.update token q (ds_items s2), ds_order := ds_order s2 @ [token]\<rparr>, None))))"

definition remove_version :: "point \<Rightarrow> dirty_set \<Rightarrow> dirty_set" where
  "remove_version p s =
     (case map_of (ds_items s) (dp_token p) of
        None \<Rightarrow> s
      | Some current \<Rightarrow>
          if dp_version current = dp_version p
          then s\<lparr>ds_items := AList.delete (dp_token p) (ds_items s), ds_order := remove1 (dp_token p) (ds_order s)\<rparr>
          else s)"

text \<open>
  One point of a flush. \<open>meanwhile\<close> is what other goroutines do to the set while the database is
  at work.
\<close>

definition flush_point ::
  "eth_common \<Rightarrow> err option \<Rightarrow> (dirty_set \<Rightarrow> dirty_set) \<Rightarrow> point \<Rightarrow> db \<times> dirty_set \<Rightarrow> (db \<times> dirty_set) \<times> err option" where
  "flush_point E fault meanwhile p w =
     (case w of (d, s) \<Rightarrow>
       case get_launch_index E (dp_token p) d of
         Inl e \<Rightarrow> ((d, meanwhile s), Some e)
       | Inr row \<Rightarrow>
           if lr_price_usd row = Some (dp_price p) \<and> lr_price_block row = dp_block p \<and> lr_price_tx row = dp_tx p
           then ((d, remove_version p (meanwhile s)), None)
           else (case update_launch_price E fault (dp_token p) (dp_price p) (dp_block p) (dp_tx p) (dp_at p) d of
                   (d1, Inl e) \<Rightarrow> ((d1, meanwhile s), Some e)
                 | (d1, Inr _) \<Rightarrow> ((d1, remove_version p (meanwhile s)), None)))"

fun flush_points ::
  "eth_common \<Rightarrow> (nat \<Rightarrow> err option) \<Rightarrow> (nat \<Rightarrow> dirty_set \<Rightarrow> dirty_set) \<Rightarrow> nat \<Rightarrow> point list \<Rightarrow> db \<times> dirty_set \<Rightarrow>
   (db \<times> dirty_set) \<times> err option" where
  "flush_points E faults meanwhile i [] w = (w, None)"
| "flush_points E faults meanwhile i (p # ps) w =
     (case flush_point E (faults i) (meanwhile i) p w of
        (w1, e) \<Rightarrow> (case flush_points E faults meanwhile (i + 1) ps w1 of
                     (w2, e2) \<Rightarrow> (w2, case e of None \<Rightarrow> e2 | Some x \<Rightarrow> Some x)))"

text \<open>\<open>visit\<close> is the order in which \<open>range\<close> goes through the map.\<close>

definition flush ::
  "eth_common \<Rightarrow> (point list \<Rightarrow> point list) \<Rightarrow> (nat \<Rightarrow> err option) \<Rightarrow> (nat \<Rightarrow> dirty_set \<Rightarrow> dirty_set) \<Rightarrow>
   db \<times> dirty_set \<Rightarrow> (db \<times> dirty_set) \<times> err option" where
  "flush E visit faults meanwhile w =
     flush_points E faults meanwhile 0 (visit (map snd (ds_items (snd w)))) w"

section \<open>The price of a trade\<close>

lemma human_quantity_parse: "parse_big 10 raw = Some n \<Longrightarrow> human_quantity raw k = Some (of_int n / 10 ^ unat k)"
  by (simp add: human_quantity_def)

lemma exec_quote_per_token_Inr:
  assumes "exec_quote_per_token m q td qd = Inr r"
  obtains a b where "parse_big 10 m = Some a" "parse_big 10 q = Some b" "0 < a" "0 < b"
    "r = of_int (b * 10 ^ unat td) / of_int (a * 10 ^ unat qd)"
  using assms by (auto simp: exec_quote_per_token_def guardE_def split: option.splits if_splits)

section \<open>The last quotation\<close>

definition quotation ::
  "('b \<Rightarrow> string res) \<Rightarrow> (string \<Rightarrow> rat option) \<Rightarrow> (nat \<times> 'b) res \<Rightarrow> rat option" where
  "quotation json_price parse_rat answer =
     (case answer of
        Inl _ \<Rightarrow> None
      | Inr (status, body) \<Rightarrow>
          if status \<noteq> 200 then None
          else case json_price body of Inl _ \<Rightarrow> None
          | Inr text \<Rightarrow> (case parse_rat text of None \<Rightarrow> None | Some v \<Rightarrow> if v \<le> 0 then None else Some v))"

text \<open>The last price that was quoted, when, and whether a later request has failed.\<close>

fun last_quotation ::
  "('b \<Rightarrow> string res) \<Rightarrow> (string \<Rightarrow> rat option) \<Rightarrow> ((nat \<times> 'b) res \<times> time) list \<Rightarrow> (rat \<times> time \<times> bool) option" where
  "last_quotation json_price parse_rat [] = None"
| "last_quotation json_price parse_rat ((answer, now) # rest) =
     (case last_quotation json_price parse_rat rest of
        Some x \<Rightarrow> Some x
      | None \<Rightarrow> (case quotation json_price parse_rat answer of
                  None \<Rightarrow> None | Some v \<Rightarrow> Some (v, now, rest \<noteq> [])))"

lemma feed_turn_spec:
  assumes "feed_turn jp pr answer now backoff f = (f1, delay, backoff1)"
  shows "fd_ttl f1 = fd_ttl f" "fd_stale f1 = fd_stale f"
    "fd_price f1 = (case quotation jp pr answer of None \<Rightarrow> fd_price f | Some v \<Rightarrow> Some v)"
    "fd_fetched_at f1 = (case quotation jp pr answer of None \<Rightarrow> fd_fetched_at f | Some v \<Rightarrow> now)"
    "fd_last_failed f1 = (quotation jp pr answer = None)"
  using assms
  by (auto simp: feed_turn_def fetch_price_def quotation_def Let_def split: sum.splits prod.splits option.splits if_splits)

lemma feed_run_spec:
  "feed_run jp pr answers backoff f = (f1, delays) \<Longrightarrow>
   fd_ttl f1 = fd_ttl f \<and> fd_stale f1 = fd_stale f \<and>
   (case last_quotation jp pr answers of
      None \<Rightarrow> fd_price f1 = fd_price f \<and> fd_fetched_at f1 = fd_fetched_at f \<and>
        fd_last_failed f1 = (answers \<noteq> [] \<or> fd_last_failed f)
    | Some (p, t, failing) \<Rightarrow> fd_price f1 = Some p \<and> fd_fetched_at f1 = t \<and> fd_last_failed f1 = failing)"
proof (induction jp pr answers backoff f arbitrary: f1 delays rule: feed_run.induct)
  case (2 jp pr answer now rest backoff f)
  obtain f2 delay backoff1 where t: "feed_turn jp pr answer now backoff f = (f2, delay, backoff1)"
    by (cases "feed_turn jp pr answer now backoff f") auto
  obtain ds where r: "feed_run jp pr rest backoff1 f2 = (f1, ds)"
    using "2.prems" t by (auto split: prod.splits)
  note s = feed_turn_spec [OF t]
  note IH = "2.IH" [OF t [symmetric] refl r]
  show ?case
  proof (cases "last_quotation jp pr rest")
    case None
    with IH s show ?thesis by (cases "quotation jp pr answer") auto
  next
    case (Some x)
    with IH s show ?thesis by (cases x) auto
  qed
qed simp

section \<open>The set of prices\<close>

definition dirty_ok :: "dirty_set \<Rightarrow> bool" where
  "dirty_ok s \<longleftrightarrow> 1 \<le> ds_cap s \<and> length (ds_items s) \<le> ds_cap s \<and> distinct (map fst (ds_items s)) \<and>
     distinct (ds_order s) \<and> set (ds_order s) = fst ` set (ds_items s) \<and>
     (\<forall>(t, p)\<in>set (ds_items s). dp_token p = t \<and> 0 < dp_price p)"

lemma update_length: "length (AList.update k v xs) = (if k \<in> fst ` set xs then length xs else length xs + 1)"
  by (induction xs) auto

lemma delete_length: "distinct (map fst xs) \<Longrightarrow> k \<in> fst ` set xs \<Longrightarrow> length (AList.delete k xs) = length xs - 1"
  by (metis delete_keys distinct_remove1_removeAll length_map length_remove1 list.set_map)

lemma set_update: "(t, p) \<in> set (AList.update k v xs) \<Longrightarrow> (t, p) = (k, v) \<or> (t, p) \<in> set xs"
  by (induction xs) (auto split: if_splits)

lemma dirty_ok_new: "new_dirty_set n = Inr s \<Longrightarrow> dirty_ok s"
  by (auto simp: new_dirty_set_def dirty_ok_def res_simps)

lemma dirty_ok_delete:
  assumes "dirty_ok s"
  shows "dirty_ok (s\<lparr>ds_items := AList.delete t (ds_items s), ds_order := remove1 t (ds_order s)\<rparr>)"
proof -
  have "length (AList.delete t (ds_items s)) \<le> length (ds_items s)" by (simp add: AList.delete_eq)
  moreover have "set (AList.delete t (ds_items s)) \<subseteq> set (ds_items s)" by (auto simp: AList.delete_eq)
  moreover have "fst ` set (AList.delete t (ds_items s)) = fst ` set (ds_items s) - {t}"
    using arg_cong [OF delete_keys [of t "ds_items s"], of set] by simp
  ultimately show ?thesis
    using assms unfolding dirty_ok_def by (auto simp: distinct_delete set_remove1_eq)
qed

lemma dirty_ok_next: "dirty_ok (s\<lparr>ds_next := n\<rparr>) = dirty_ok s"
  by (simp add: dirty_ok_def)

text \<open>Adding a key that is new, with room for it, and replacing the point of a known key.\<close>

lemma dirty_ok_add:
  assumes "dirty_ok s" "t \<notin> fst ` set (ds_items s)" "length (ds_items s) < ds_cap s" "dp_token q = t" "0 < dp_price q"
  shows "dirty_ok (s\<lparr>ds_items := AList.update t q (ds_items s), ds_order := ds_order s @ [t]\<rparr>)"
proof -
  have "fst ` set (AList.update t q (ds_items s)) = insert t (fst ` set (ds_items s))"
    using arg_cong [OF update_keys [of t q "ds_items s"], of set] by auto
  then show ?thesis
    using assms unfolding dirty_ok_def by (auto simp: update_length distinct_update dest!: set_update)
qed

lemma dirty_ok_replace:
  assumes "dirty_ok s" "t \<in> fst ` set (ds_items s)" "dp_token q = t" "0 < dp_price q"
  shows "dirty_ok (s\<lparr>ds_items := AList.update t q (ds_items s), ds_order := remove1 t (ds_order s) @ [t]\<rparr>)"
proof -
  have "fst ` set (AList.update t q (ds_items s)) = fst ` set (ds_items s)"
    using arg_cong [OF update_keys [of t q "ds_items s"], of set] assms(2) by auto
  then show ?thesis
    using assms unfolding dirty_ok_def by (auto simp: update_length distinct_update set_remove1_eq dest!: set_update)
qed

lemma mark_ok:
  assumes "dirty_ok s" "mark E d p s = (s1, e)"
  shows "dirty_ok s1"
proof (cases "dp_price p \<le> 0 \<or> dp_token p = [] \<or> dp_tx p = [] \<or> dp_at p = zero_time")
  case True
  with assms show ?thesis by (simp add: mark_def)
next
  case good: False
  show ?thesis
  proof (cases "get_launch_index E (dp_token p) d")
    case (Inl e)
    with good assms show ?thesis by (simp add: mark_def)
  next
    case (Inr row)
    define t where t: "t = lr_token row"
    define q where q: "q = p\<lparr>dp_token := t, dp_version := ds_next s + 1\<rparr>"
    have q2: "dp_token q = t" "0 < dp_price q" using good by (simp_all add: q)
    have s0: "dirty_ok (s\<lparr>ds_next := ds_next s + 1\<rparr>)" using assms(1) by (simp add: dirty_ok_next)
    show ?thesis
    proof (cases "t \<in> fst ` set (ds_items s)")
      case True
      then have "map_of (ds_items s) t \<noteq> None" by (simp add: map_of_eq_None_iff)
      with good Inr assms(2) have "s1 = s\<lparr>ds_next := ds_next s + 1, ds_items := AList.update t q (ds_items s),
          ds_order := remove1 t (ds_order s) @ [t]\<rparr>"
        by (simp add: mark_def Let_def t [symmetric] q [symmetric])
      with dirty_ok_replace [OF s0 _ q2] True show ?thesis by simp
    next
      case False
      then have m: "map_of (ds_items s) t = None" by (simp add: map_of_eq_None_iff)
      show ?thesis
      proof (cases "ds_cap s \<le> length (ds_items s)")
        case full: True
        with assms(1) have "ds_items s \<noteq> []" by (auto simp: dirty_ok_def)
        then have ne: "ds_order s \<noteq> []" using assms(1) by (auto simp: dirty_ok_def)
        define h where h: "h = hd (ds_order s)"
        have oh: "ds_order s = h # tl (ds_order s)" using ne by (simp add: h)
        have "h \<in> set (ds_order s)" using ne by (simp add: h)
        then have hin: "h \<in> fst ` set (ds_items s)" using assms(1) by (simp add: dirty_ok_def)
        let ?s2 = "s\<lparr>ds_next := ds_next s + 1, ds_items := AList.delete h (ds_items s), ds_order := tl (ds_order s)\<rparr>"
        have "tl (ds_order s) = remove1 h (ds_order s)" by (subst (2) oh) simp
        then have ok2: "dirty_ok ?s2" using dirty_ok_delete [OF s0, of h] by simp
        have "t \<notin> fst ` set (AList.delete h (ds_items s))"
          using arg_cong [OF delete_keys [of h "ds_items s"], of set] False by auto
        moreover have "length (AList.delete h (ds_items s)) < ds_cap s"
          using assms(1) hin delete_length [of "ds_items s" h] \<open>ds_items s \<noteq> []\<close>
          by (cases "ds_items s") (auto simp: dirty_ok_def)
        moreover have "s1 = ?s2\<lparr>ds_items := AList.update t q (ds_items ?s2), ds_order := ds_order ?s2 @ [t]\<rparr>"
          using good Inr assms(2) m full by (simp add: mark_def Let_def t [symmetric] q [symmetric] h [symmetric])
        ultimately show ?thesis using dirty_ok_add [OF ok2 _ _ q2] by simp
      next
        case room: False
        have "s1 = s\<lparr>ds_next := ds_next s + 1, ds_items := AList.update t q (ds_items s), ds_order := ds_order s @ [t]\<rparr>"
          using good Inr assms(2) m room by (simp add: mark_def Let_def t [symmetric] q [symmetric])
        with dirty_ok_add [OF s0 _ _ q2] False room show ?thesis by simp
      qed
    qed
  qed
qed

lemma remove_version_ok: "dirty_ok s \<Longrightarrow> dirty_ok (remove_version p s)"
  using dirty_ok_delete by (auto simp: remove_version_def split: option.splits)

text \<open>Whatever is marked and flushed, in any interleaving.\<close>

inductive reachable_dirty :: "eth_common \<Rightarrow> int \<Rightarrow> dirty_set \<Rightarrow> bool" for E capacity where
  start: "new_dirty_set capacity = Inr s \<Longrightarrow> reachable_dirty E capacity s"
| mark: "\<lbrakk>reachable_dirty E capacity s; mark E d p s = (s1, e)\<rbrakk> \<Longrightarrow> reachable_dirty E capacity s1"
| remove: "reachable_dirty E capacity s \<Longrightarrow> reachable_dirty E capacity (remove_version p s)"

lemma reachable_dirty_ok: "reachable_dirty E capacity s \<Longrightarrow> dirty_ok s \<and> ds_cap s = nat capacity"
proof (induction rule: reachable_dirty.induct)
  case (start s)
  then show ?case using dirty_ok_new [OF start] by (auto simp: new_dirty_set_def res_simps)
next
  case (mark s d p s1 e)
  have "ds_cap s1 = ds_cap s" using mark.hyps(2) by (auto simp: mark_def Let_def split: sum.splits if_splits)
  with mark mark_ok [of s E d p s1 e] show ?case by simp
next
  case (remove s p)
  then show ?case using remove_version_ok by (auto simp: remove_version_def split: option.splits)
qed

section \<open>Flushing\<close>

text \<open>The catalog shows the price of a point.\<close>

definition shows_price :: "db \<Rightarrow> point \<Rightarrow> bool" where
  "shows_price d p \<longleftrightarrow> (\<exists>row. find_launch (dp_token p) d = Some row \<and> lr_price_usd row = Some (dp_price p) \<and>
     lr_price_block row = dp_block p \<and> lr_price_tx row = dp_tx p)"

text \<open>The points of the set are of launches in the catalog.\<close>

definition marks_ok :: "db \<Rightarrow> dirty_set \<Rightarrow> bool" where
  "marks_ok d s \<longleftrightarrow> dirty_ok s \<and>
     (\<forall>(t, p)\<in>set (ds_items s). canonical_address t \<and> find_launch t d \<noteq> None \<and> sql_uint (dp_block p))"

lemma canonical_fold_eq: "canonical_address a \<Longrightarrow> canonical_address b \<Longrightarrow> equal_fold a b \<longleftrightarrow> a = b"
  by (simp add: equal_fold_def)

lemma find_launch_token: "find_launch t d = Some row \<Longrightarrow> equal_fold (lr_token row) t \<and> row \<in> set (db_index d)"
  by (auto simp: find_launch_def find_Some_iff in_set_conv_nth)

lemma remove_version_map:
  assumes "map_of (ds_items s) (dp_token p) = Some p" "distinct (map fst (ds_items s))"
  shows "map_of (ds_items (remove_version p s)) t = (if t = dp_token p then None else map_of (ds_items s) t)"
  using assms by (simp add: remove_version_def AList.delete_conv)

text \<open>The update of a price touches one row of the catalog.\<close>

lemma update_price_find:
  assumes "eth_ok E" "launches_ok d" "canonical_address t" "0 < price" "sql_uint block" "find_launch t d = Some row"
  obtains e where "update_launch_price E None t price block hash ts d = (e, Inr ())" "launches_ok e"
    "find_launch t e = Some (row\<lparr>lr_price_usd := Some price, lr_price_block := block, lr_price_tx := hash,
       lr_price_at := Some (rfc3339 ts)\<rparr>)"
    "\<And>u. canonical_address u \<Longrightarrow> u \<noteq> t \<Longrightarrow> find_launch u e = find_launch u d"
proof -
  let ?f = "\<lambda>r :: launch_row. r\<lparr>lr_price_usd := Some price, lr_price_block := block, lr_price_tx := hash,
    lr_price_at := Some (rfc3339 ts)\<rparr>"
  let ?e = "d\<lparr>db_index := upd_where (\<lambda>r. equal_fold (lr_token r) t) ?f (db_index d)\<rparr>"
  have u: "update_launch_price E None t price block hash ts d = (?e, Inr ())"
    using assms(4,5) normalize_address_id [OF assms(1,3)] by (simp add: update_launch_price_def write_tx_def)
  have f: "find_launch u ?e = map_option (\<lambda>r. if equal_fold (lr_token r) t then ?f r else r) (find_launch u d)" for u
    by (simp add: find_launch_def find_upd_where)
  have "launches_ok ?e"
    by (rule launches_ok_map [of d ?e "\<lambda>r. if equal_fold (lr_token r) t then ?f r else r" "\<lambda>v. v"])
      (use assms(2) in \<open>simp_all add: upd_where_def\<close>)
  moreover have "find_launch t ?e = Some (?f row)"
    using assms(6) find_launch_token [OF assms(6)] by (simp add: f)
  moreover have "find_launch u ?e = find_launch u d" if "canonical_address u" "u \<noteq> t" for u
  proof (cases "find_launch u d")
    case (Some r)
    have "equal_fold (lr_token r) u" using find_launch_token [OF Some] by simp
    then have "\<not> equal_fold (lr_token r) t" using canonical_fold_eq [OF that(1) assms(3)] that(2) by (simp add: equal_fold_def)
    with Some show ?thesis by (simp add: f)
  qed (simp add: f)
  ultimately show thesis using that [OF u] by simp
qed

lemma flush_point_effect:
  assumes "eth_ok E" "launches_ok d" "dirty_ok s" "map_of (ds_items s) (dp_token p) = Some p"
    and "canonical_address (dp_token p)" "find_launch (dp_token p) d \<noteq> None" "sql_uint (dp_block p)" "0 < dp_price p"
    and "flush_point E fault (\<lambda>s. s) p (d, s) = ((d1, s1), e)"
  shows "launches_ok d1 \<and> dirty_ok s1 \<and>
    (\<forall>t. canonical_address t \<and> t \<noteq> dp_token p \<longrightarrow>
      find_launch t d1 = find_launch t d \<and> map_of (ds_items s1) t = map_of (ds_items s) t) \<and>
    (shows_price d1 p \<and> map_of (ds_items s1) (dp_token p) = None \<and> e = None \<or>
     fault \<noteq> None \<and> map_of (ds_items s1) (dp_token p) = Some p \<and> e = fault)"
proof -
  obtain row where row: "find_launch (dp_token p) d = Some row" using assms(6) by blast
  have g: "get_launch_index E (dp_token p) d = Inr row"
    using row normalize_address_id [OF assms(1,5)] by (simp add: get_launch_index_def)
  have dist: "distinct (map fst (ds_items s))" using assms(3) by (simp add: dirty_ok_def)
  note rm = remove_version_map [OF assms(4) dist] remove_version_ok [OF assms(3), of p]
  show ?thesis
  proof (cases "lr_price_usd row = Some (dp_price p) \<and> lr_price_block row = dp_block p \<and> lr_price_tx row = dp_tx p")
    case True
    then have "d1 = d" "s1 = remove_version p s" "e = None" using assms(9) g by (simp_all add: flush_point_def)
    moreover have "shows_price d p" using True row by (simp add: shows_price_def)
    ultimately show ?thesis using assms(2) rm by simp
  next
    case stale: False
    show ?thesis
    proof (cases fault)
      case None
      obtain d2 where u: "update_launch_price E None (dp_token p) (dp_price p) (dp_block p) (dp_tx p) (dp_at p) d = (d2, Inr ())"
        "launches_ok d2" "find_launch (dp_token p) d2 = Some (row\<lparr>lr_price_usd := Some (dp_price p),
          lr_price_block := dp_block p, lr_price_tx := dp_tx p, lr_price_at := Some (rfc3339 (dp_at p))\<rparr>)"
        "\<And>u. canonical_address u \<Longrightarrow> u \<noteq> dp_token p \<Longrightarrow> find_launch u d2 = find_launch u d"
        by (rule update_price_find [OF assms(1,2,5,8,7) row]) blast
      have eq: "d1 = d2" "s1 = remove_version p s" "e = None"
        using assms(9) g stale None u(1) by (auto simp: flush_point_def)
      have "shows_price d2 p" using u(3) by (simp add: shows_price_def)
      with u(2,4) rm show ?thesis unfolding eq by simp
    next
      case (Some x)
      have "update_launch_price E fault (dp_token p) (dp_price p) (dp_block p) (dp_tx p) (dp_at p) d = (d, Inl x)"
        using assms(8) normalize_address_id [OF assms(1,5)] Some by (simp add: update_launch_price_def write_tx_def)
      then have "d1 = d" "s1 = s" "e = Some x" using assms(9) g stale by (auto simp: flush_point_def)
      with Some assms(2,3,4) show ?thesis by simp
    qed
  qed
qed

text \<open>What a flush makes of one point: shown and forgotten, or kept after a failed write.\<close>

definition flushed :: "(nat \<Rightarrow> err option) \<Rightarrow> db \<Rightarrow> dirty_set \<Rightarrow> point \<Rightarrow> bool" where
  "flushed faults d s p \<longleftrightarrow>
     shows_price d p \<and> map_of (ds_items s) (dp_token p) = None \<or>
     (\<exists>i. faults i \<noteq> None) \<and> map_of (ds_items s) (dp_token p) = Some p"

lemma flush_points_effect:
  assumes "eth_ok E"
  shows "\<lbrakk>launches_ok d; dirty_ok s; distinct (map dp_token ps);
     \<forall>p\<in>set ps. map_of (ds_items s) (dp_token p) = Some p \<and> canonical_address (dp_token p) \<and>
       find_launch (dp_token p) d \<noteq> None \<and> sql_uint (dp_block p) \<and> 0 < dp_price p;
     flush_points E faults (\<lambda>_ s. s) i ps (d, s) = ((d1, s1), e)\<rbrakk> \<Longrightarrow>
   dirty_ok s1 \<and> (\<forall>p\<in>set ps. flushed faults d1 s1 p) \<and> (e \<noteq> None \<longrightarrow> (\<exists>i. faults i \<noteq> None)) \<and>
   (\<forall>t. canonical_address t \<and> t \<notin> dp_token ` set ps \<longrightarrow>
      find_launch t d1 = find_launch t d \<and> map_of (ds_items s1) t = map_of (ds_items s) t)"
proof (induction ps arbitrary: d s i e)
  case Nil
  then show ?case by simp
next
  case (Cons p ps)
  obtain d2 s2 e2 where f: "flush_point E (faults i) (\<lambda>s. s) p (d, s) = ((d2, s2), e2)"
    by (cases "flush_point E (faults i) (\<lambda>s. s) p (d, s)") auto
  obtain e3 where r: "flush_points E faults (\<lambda>_ s. s) (i + 1) ps (d2, s2) = ((d1, s1), e3)"
    and e: "e = (case e2 of None \<Rightarrow> e3 | Some x \<Rightarrow> Some x)"
    using Cons.prems(5) f by (auto split: prod.splits)
  have pp: "map_of (ds_items s) (dp_token p) = Some p" "canonical_address (dp_token p)"
    "find_launch (dp_token p) d \<noteq> None" "sql_uint (dp_block p)" "0 < dp_price p" using Cons.prems(4) by simp_all
  note step = flush_point_effect [OF assms Cons.prems(1,2) pp f]
  have other: "find_launch t d2 = find_launch t d \<and> map_of (ds_items s2) t = map_of (ds_items s) t"
    if "canonical_address t" "t \<noteq> dp_token p" for t using step that by blast
  have "\<forall>q\<in>set ps. map_of (ds_items s2) (dp_token q) = Some q \<and> canonical_address (dp_token q) \<and>
       find_launch (dp_token q) d2 \<noteq> None \<and> sql_uint (dp_block q) \<and> 0 < dp_price q"
  proof
    fix q assume q: "q \<in> set ps"
    have c: "canonical_address (dp_token q)" using Cons.prems(4) q by simp
    have "dp_token q \<in> set (map dp_token ps)" using q by simp
    then have ne: "dp_token q \<noteq> dp_token p" using Cons.prems(3) unfolding list.map distinct.simps(2) by metis
    from other [OF c ne] show "map_of (ds_items s2) (dp_token q) = Some q \<and> canonical_address (dp_token q) \<and>
       find_launch (dp_token q) d2 \<noteq> None \<and> sql_uint (dp_block q) \<and> 0 < dp_price q" using Cons.prems(4) q by simp
  qed
  moreover have d2: "launches_ok d2" "dirty_ok s2" using step by blast+
  moreover have "distinct (map dp_token ps)" using Cons.prems(3) by simp
  ultimately have IH: "dirty_ok s1 \<and> (\<forall>q\<in>set ps. flushed faults d1 s1 q) \<and> (e3 \<noteq> None \<longrightarrow> (\<exists>i. faults i \<noteq> None)) \<and>
    (\<forall>t. canonical_address t \<and> t \<notin> dp_token ` set ps \<longrightarrow>
      find_launch t d1 = find_launch t d2 \<and> map_of (ds_items s1) t = map_of (ds_items s2) t)"
    using r by (intro Cons.IH)
  have "dp_token p \<notin> dp_token ` set ps" using Cons.prems(3) by simp
  with IH pp(2) have p: "find_launch (dp_token p) d1 = find_launch (dp_token p) d2"
    "map_of (ds_items s1) (dp_token p) = map_of (ds_items s2) (dp_token p)" by blast+
  have "flushed faults d1 s1 p" using step p unfolding flushed_def shows_price_def by metis
  moreover have "e2 \<noteq> None \<longrightarrow> (\<exists>i. faults i \<noteq> None)" using step by metis
  moreover have "find_launch t d1 = find_launch t d \<and> map_of (ds_items s1) t = map_of (ds_items s) t"
    if "canonical_address t" "t \<notin> dp_token ` set (p # ps)" for t using IH other [of t] that by simp
  ultimately show ?case using IH unfolding e by (cases e2) auto
qed

section \<open>Properties\<close>

text \<open>C19. The execution price of a trade is exact: the price times the tokens traded is the quote
  paid, and the dollar price times the tokens is the quote paid times its dollar price. All of
  these are positive.\<close>

theorem execution_price_balances:
  assumes "exec_quote_per_token m q td qd = Inr r" and "exec_usd E F feed r address d = Inr (e, u)"
  shows "\<exists>tokens paid. human_quantity m td = Some tokens \<and> human_quantity q qd = Some paid \<and>
    0 < tokens \<and> 0 < paid \<and> 0 < u \<and> r * tokens = paid \<and> e * tokens = paid * u"
proof -
  from assms(1) obtain a b where p: "parse_big 10 m = Some a" "parse_big 10 q = Some b" "0 < a" "0 < b"
    "r = of_int (b * 10 ^ unat td) / of_int (a * 10 ^ unat qd)" by (rule exec_quote_per_token_Inr)
  have u: "0 < u" "e = r * u" using assms(2) by (auto simp: exec_usd_def Let_def res_simps)
  have h: "r * (of_int a / 10 ^ unat td) = of_int b / 10 ^ unat qd" using p(3) by (simp add: p(5))
  moreover have "e * (of_int a / 10 ^ unat td) = of_int b / 10 ^ unat qd * u"
    unfolding u(2) h [symmetric] by (simp only: mult.assoc mult.commute mult.left_commute)
  ultimately show ?thesis
    using u(1) p(3,4) human_quantity_parse [OF p(1), of td] human_quantity_parse [OF p(2), of qd] by auto
qed

text \<open>C20. The price feed serves the last price that was quoted, as long as it is not older than the
  stale limit, and after its time to live only while requests are failing.\<close>

theorem feed_serves_the_last_quotation:
  assumes "new_binance_feed url_parse base symbol poll ttl stale timeout = Inr f0"
    and "feed_run json_price parse_rat answers second f0 = (f, delays)"
  shows "eth_usd now f =
    (case last_quotation json_price parse_rat answers of
       None \<Rightarrow> Inl E_no_feed
     | Some (p, at_time, failing) \<Rightarrow>
         if now - at_time \<le> stale \<and> (now - at_time \<le> ttl \<or> failing) then Inr p else Inl E_no_feed)"
proof -
  have f0: "fd_price f0 = None" "fd_ttl f0 = ttl" "fd_stale f0 = stale"
    using assms(1) by (auto simp: new_binance_feed_def res_simps)
  from feed_run_spec [OF assms(2)] f0 show ?thesis
    by (cases "last_quotation json_price parse_rat answers") (auto simp: eth_usd_def Let_def)
qed

text \<open>C18. A flush that no other goroutine disturbs leaves every marked price either shown in the
  catalog and forgotten, or, only if some write failed, still marked for the next flush.\<close>

theorem flush_shows_or_keeps:
  assumes "eth_ok E" and "reachable_db E d" and "marks_ok d s" and "mset (visit (map snd (ds_items s))) = mset (map snd (ds_items s))"
    and "flush E visit faults (\<lambda>_ s. s) (d, s) = ((d1, s1), e)" and "(t, p) \<in> set (ds_items s)"
  shows "shows_price d1 p \<and> map_of (ds_items s1) t = None \<or>
    (\<exists>i. faults i \<noteq> None) \<and> map_of (ds_items s1) t = Some p"
proof -
  let ?ps = "visit (map snd (ds_items s))"
  have ok: "dirty_ok s" "launches_ok d" using assms(3) reachable_db_ok [OF assms(2,1)] by (simp_all add: marks_ok_def)
  have tok: "dp_token q = u" "0 < dp_price q" if "(u, q) \<in> set (ds_items s)" for u q
    using ok(1) that by (auto simp: dirty_ok_def)
  have "map dp_token (map snd (ds_items s)) = map fst (ds_items s)" using tok by auto
  then have "distinct (map dp_token (map snd (ds_items s)))" using ok(1) unfolding dirty_ok_def by metis
  then have dist: "distinct (map dp_token ?ps)"
    by (metis mset_eq_imp_distinct_iff mset_map assms(4))
  have mem: "set ?ps = snd ` set (ds_items s)" using mset_eq_setD [OF assms(4)] by simp
  have all: "\<forall>q\<in>set ?ps. map_of (ds_items s) (dp_token q) = Some q \<and> canonical_address (dp_token q) \<and>
       find_launch (dp_token q) d \<noteq> None \<and> sql_uint (dp_block q) \<and> 0 < dp_price q"
    using ok(1) assms(3) tok unfolding mem by (auto simp: dirty_ok_def marks_ok_def)
  have "flush_points E faults (\<lambda>_ s. s) 0 ?ps (d, s) = ((d1, s1), e)" using assms(5) by (simp add: flush_def)
  from flush_points_effect [OF assms(1) ok(2,1) dist all this] have "\<forall>q\<in>set ?ps. flushed faults d1 s1 q" by blast
  moreover have "p \<in> set ?ps" using assms(6) unfolding mem by (metis image_eqI snd_conv)
  ultimately have "flushed faults d1 s1 p" by blast
  then show ?thesis using tok(1) [OF assms(6)] by (simp add: flushed_def)
qed

text \<open>However prices are marked and flushed, the set never holds more tokens than its capacity,
  and its queue names every token of the set exactly once, so there is always an oldest one to
  give up.\<close>

theorem dirty_set_is_bounded:
  assumes "reachable_dirty E capacity s"
  shows "length (ds_items s) \<le> nat capacity \<and> distinct (ds_order s) \<and> set (ds_order s) = fst ` set (ds_items s)"
  using reachable_dirty_ok [OF assms] by (simp add: dirty_ok_def)

section \<open>Witnesses\<close>

definition ex_usdg_db :: db where
  "ex_usdg_db = empty_db\<lparr>db_assets := [\<lparr>qa_address = usdg_address, qa_symbol = ''USDG'', qa_kind = ''usdg'', qa_decimals = 6\<rparr>]\<rparr>"

theorem execution_price_balances_witness:
  "\<exists>r e u tokens paid. exec_quote_per_token ''20'' ''30'' 1 0 = Inr r \<and> human_quantity ''20'' 1 = Some tokens \<and>
    human_quantity ''30'' 0 = Some paid \<and> 0 < tokens \<and> 0 < u \<and> e * tokens = paid * u"
proof -
  have "is_ok (exec_quote_per_token ''20'' ''30'' 1 0)" by code_simp
  then obtain r where r: "exec_quote_per_token ''20'' ''30'' 1 0 = Inr r"
    by (cases "exec_quote_per_token ''20'' ''30'' 1 0") (auto simp: is_ok_def)
  have "is_ok (bindE (exec_quote_per_token ''20'' ''30'' 1 0)
    (\<lambda>r. exec_usd eth_plain Some (Inl E_no_feed) r usdg_address ex_usdg_db))" by code_simp
  then obtain e u where "exec_usd eth_plain Some (Inl E_no_feed) r usdg_address ex_usdg_db = Inr (e, u)"
    by (cases "exec_usd eth_plain Some (Inl E_no_feed) r usdg_address ex_usdg_db") (auto simp: is_ok_def r)
  from execution_price_balances [OF r this] r show ?thesis by blast
qed

definition ex_url_parse :: "string \<Rightarrow> parsed_url option" where
  "ex_url_parse s = Some \<lparr>pu_text = s, pu_scheme = ''https'', pu_host = s, pu_path = [], pu_has_user = False, pu_query = [],
     pu_fragment = []\<rparr>"

theorem feed_serves_the_last_quotation_witness:
  "\<exists>f0 f delays. new_binance_feed ex_url_parse ''u'' ''s'' 1 30 300 1 = Inr f0 \<and>
     feed_run Inr (\<lambda>_. Some 5) [(Inr (200, ''p''), 10), (Inr (429, ''p''), 20)] second f0 = (f, delays) \<and>
     eth_usd 100 f = Inr 5"
proof -
  have "is_ok (new_binance_feed ex_url_parse ''u'' ''s'' 1 30 300 1)" by code_simp
  then obtain f0 where f0: "new_binance_feed ex_url_parse ''u'' ''s'' 1 30 300 1 = Inr f0"
    by (cases "new_binance_feed ex_url_parse ''u'' ''s'' 1 30 300 1") (auto simp: is_ok_def)
  obtain f delays where f: "feed_run Inr (\<lambda>_. Some 5) [(Inr (200, ''p''), 10), (Inr (429, ''p''), 20)] second f0 = (f, delays)"
    by (cases "feed_run Inr (\<lambda>_. Some 5) [(Inr (200, ''p''), 10), (Inr (429, ''p''), 20)] second f0") auto
  have "eth_usd 100 f = Inr 5"
    using feed_serves_the_last_quotation [OF f0 f, of 100] by (simp add: quotation_def)
  with f0 f show ?thesis by blast
qed

definition ex_point :: point where
  "ex_point = \<lparr>dp_token = ex_token, dp_tx = ''0x7'', dp_price = 3, dp_block = 7, dp_at = 100, dp_version = 0\<rparr>"

definition ex_dirty :: dirty_set where
  "ex_dirty = fst (mark eth_plain one_launch_db ex_point \<lparr>ds_cap = 1, ds_items = [], ds_order = [], ds_next = 0\<rparr>)"

theorem flush_shows_or_keeps_witness:
  "\<exists>d1 s1 e. flush eth_plain rev (\<lambda>_. None) (\<lambda>_ s. s) (one_launch_db, ex_dirty) = ((d1, s1), e) \<and>
     shows_price d1 (ex_point\<lparr>dp_version := 1\<rparr>) \<and> map_of (ds_items s1) ex_token = None"
proof -
  obtain d1 s1 e where f: "flush eth_plain rev (\<lambda>_. None) (\<lambda>_ s. s) (one_launch_db, ex_dirty) = ((d1, s1), e)"
    by (cases "flush eth_plain rev (\<lambda>_. None) (\<lambda>_ s. s) (one_launch_db, ex_dirty)") auto
  have i: "ds_items ex_dirty = [(ex_token, ex_point\<lparr>dp_version := 1\<rparr>)]" "ds_order ex_dirty = [ex_token]" "ds_cap ex_dirty = 1"
    by code_simp+
  have "canonical_address ex_token"
    by (rule normalize_address_canonical [OF eth_plain_ok, of ex_token]) code_simp
  moreover have "find_launch ex_token one_launch_db \<noteq> None" "sql_uint 7" by code_simp+
  ultimately have "marks_ok one_launch_db ex_dirty"
    by (simp add: marks_ok_def dirty_ok_def i ex_point_def)
  from flush_shows_or_keeps [OF eth_plain_ok ex_reachable(2) this _ f, of ex_token "ex_point\<lparr>dp_version := 1\<rparr>"] i f
  show ?thesis by simp
qed

theorem dirty_set_is_bounded_witness:
  "\<exists>s. new_dirty_set 1 = Inr s \<and>
     length (ds_items (fst (mark eth_plain two_launch_db (ex_point\<lparr>dp_token := ex_wallet\<rparr>)
       (fst (mark eth_plain two_launch_db ex_point s))))) \<le> nat 1"
proof -
  have n: "new_dirty_set 1 = Inr \<lparr>ds_cap = 1, ds_items = [], ds_order = [], ds_next = 0\<rparr>" by code_simp
  have "reachable_dirty eth_plain 1 \<lparr>ds_cap = 1, ds_items = [], ds_order = [], ds_next = 0\<rparr>"
    by (rule reachable_dirty.start [OF n])
  then have "reachable_dirty eth_plain 1 (fst (mark eth_plain two_launch_db (ex_point\<lparr>dp_token := ex_wallet\<rparr>)
       (fst (mark eth_plain two_launch_db ex_point \<lparr>ds_cap = 1, ds_items = [], ds_order = [], ds_next = 0\<rparr>))))"
    by (intro reachable_dirty.mark [OF _ prod.collapse [symmetric]])
  from dirty_set_is_bounded [OF this] n show ?thesis by blast
qed

end
