(* ===== verification/Price_Queue.thy ===== *)
theory Price_Queue
  imports Price_Exec
begin

text \<open>
  The set of prices to display (\<open>price/dirty.go\<close>) as what it promises: a bounded queue of points,
  the one that was not updated for the longest time first, with one point per token.
\<close>

section \<open>The specification\<close>

text \<open>A new point goes to the end, in place of an older one of its token; a new token in a full queue
  drives out the first.\<close>

definition queue_mark :: "nat \<Rightarrow> point \<Rightarrow> point list \<Rightarrow> point list" where
  "queue_mark cap p q =
     (let others = filter (\<lambda>x. dp_token x \<noteq> dp_token p) q
      in (if length others = length q \<and> cap \<le> length q then tl others else others) @ [p])"

definition queue_remove :: "point \<Rightarrow> point list \<Rightarrow> point list" where
  "queue_remove p q = filter (\<lambda>x. \<not> (dp_token x = dp_token p \<and> dp_version x = dp_version p)) q"

text \<open>The abstraction: the points in the order of the code's second structure.\<close>

definition queue :: "dirty_set \<Rightarrow> point list" where
  "queue s = map (\<lambda>t. the (map_of (ds_items s) t)) (ds_order s)"

section \<open>The refinement\<close>

lemma ordered_items:
  assumes "dirty_ok s" "t \<in> set (ds_order s)"
  obtains p where "map_of (ds_items s) t = Some p" "dp_token p = t"
proof -
  from assms obtain p where "(t, p) \<in> set (ds_items s)" by (auto simp: dirty_ok_def)
  moreover from this have "map_of (ds_items s) t = Some p" using assms(1) by (simp add: dirty_ok_def)
  ultimately show thesis using assms(1) that by (auto simp: dirty_ok_def)
qed

lemma queue_tokens: "dirty_ok s \<Longrightarrow> map dp_token (queue s) = ds_order s"
  unfolding queue_def map_map by (rule map_idI) (auto elim: ordered_items)

lemma filter_queue:
  assumes "dirty_ok s"
  shows "filter (\<lambda>x. dp_token x \<noteq> t) (queue s) = map (\<lambda>u. the (map_of (ds_items s) u)) (remove1 t (ds_order s))"
proof -
  have "filter (\<lambda>x. dp_token x \<noteq> t) (queue s) =
      map (\<lambda>u. the (map_of (ds_items s) u)) (filter (\<lambda>u. dp_token (the (map_of (ds_items s) u)) \<noteq> t) (ds_order s))"
    by (simp add: queue_def filter_map comp_def)
  also have "filter (\<lambda>u. dp_token (the (map_of (ds_items s) u)) \<noteq> t) (ds_order s) = filter (\<lambda>u. u \<noteq> t) (ds_order s)"
    by (rule filter_cong [OF refl]) (auto elim: ordered_items [OF assms])
  also have "\<dots> = remove1 t (ds_order s)"
    using assms distinct_remove1_removeAll [of "ds_order s" t]
    by (simp add: dirty_ok_def removeAll_filter_not_eq) (metis (mono_tags) filter_cong)
  finally show ?thesis .
qed

text \<open>Appending a token whose point was just stored.\<close>

lemma queue_append:
  "t \<notin> set order \<Longrightarrow> map (\<lambda>u. the (map_of (AList.update t q items) u)) (order @ [t]) =
   map (\<lambda>u. the (map_of items u)) order @ [q]"
  by (auto simp: update_conv)

lemma mark_queue:
  assumes ok: "dirty_ok s" and m: "mark E d p s = (s1, None)"
  obtains row where "get_launch_index E (dp_token p) d = Inr row"
    "queue s1 = queue_mark (ds_cap s) (p\<lparr>dp_token := lr_token row, dp_version := ds_next s + 1\<rparr>) (queue s)"
proof -
  have good: "\<not> (dp_price p \<le> 0 \<or> dp_token p = [] \<or> dp_tx p = [] \<or> dp_at p = zero_time)"
    using m by (auto simp: mark_def)
  then obtain row where r: "get_launch_index E (dp_token p) d = Inr row"
    using m by (cases "get_launch_index E (dp_token p) d") (auto simp: mark_def)
  define t where t: "t = lr_token row"
  define q where q: "q = p\<lparr>dp_token := t, dp_version := ds_next s + 1\<rparr>"
  have qt: "dp_token q = t" by (simp add: q)
  have len: "length (queue s) = length (ds_order s)" by (simp add: queue_def)
  have items: "length (ds_items s) = length (ds_order s)"
    using ok unfolding dirty_ok_def by (metis distinct_card length_map list.set_map)
  have "queue s1 = queue_mark (ds_cap s) q (queue s)"
  proof (cases "t \<in> set (ds_order s)")
    case True
    then have "map_of (ds_items s) t \<noteq> None" using ok by (simp add: dirty_ok_def map_of_eq_None_iff)
    with good r m have s1: "s1 = s\<lparr>ds_next := ds_next s + 1, ds_items := AList.update t q (ds_items s),
        ds_order := remove1 t (ds_order s) @ [t]\<rparr>"
      by (simp add: mark_def Let_def t [symmetric] q [symmetric])
    have n: "t \<notin> set (remove1 t (ds_order s))" using ok by (simp add: dirty_ok_def)
    have "length (remove1 t (ds_order s)) < length (ds_order s)"
      using True by (metis length_remove1 length_pos_if_in_set One_nat_def diff_less zero_less_one)
    then show ?thesis
      using filter_queue [OF ok, of t] len queue_append [OF n, of q "ds_items s"]
      by (simp add: queue_mark_def Let_def qt s1 queue_def [of "s\<lparr>ds_next := _, ds_items := _, ds_order := _\<rparr>"])
  next
    case False
    then have m0: "map_of (ds_items s) t = None" using ok by (simp add: dirty_ok_def map_of_eq_None_iff)
    have all: "filter (\<lambda>x. dp_token x \<noteq> t) (queue s) = queue s"
      using filter_queue [OF ok, of t] False by (simp add: remove1_idem queue_def)
    show ?thesis
    proof (cases "ds_cap s \<le> length (ds_items s)")
      case full: True
      have "ds_order s \<noteq> []" using ok full items by (auto simp: dirty_ok_def)
      then obtain h rest where o: "ds_order s = h # rest" by (cases "ds_order s") auto
      have s1: "s1 = s\<lparr>ds_next := ds_next s + 1, ds_items := AList.update t q (AList.delete h (ds_items s)),
          ds_order := rest @ [t]\<rparr>"
        using good r m m0 full by (simp add: mark_def Let_def t [symmetric] q [symmetric] o)
      have hr: "h \<notin> set rest" using ok o by (simp add: dirty_ok_def)
      have "map (\<lambda>u. the (map_of (AList.delete h (ds_items s)) u)) rest = map (\<lambda>u. the (map_of (ds_items s) u)) rest"
        using hr by (auto simp: delete_conv')
      moreover have "t \<notin> set rest" using False o by simp
      ultimately show ?thesis
        using all full items len queue_append [of t rest q "AList.delete h (ds_items s)"]
        by (simp add: queue_mark_def Let_def qt s1 queue_def o)
    next
      case room: False
      have s1: "s1 = s\<lparr>ds_next := ds_next s + 1, ds_items := AList.update t q (ds_items s), ds_order := ds_order s @ [t]\<rparr>"
        using good r m m0 room by (simp add: mark_def Let_def t [symmetric] q [symmetric])
      show ?thesis
        using all room items len queue_append [OF False, of q "ds_items s"]
        by (simp add: queue_mark_def Let_def qt s1 queue_def)
    qed
  qed
  with that [OF r] show thesis by (simp add: q t)
qed

lemma remove_queue:
  assumes ok: "dirty_ok s"
  shows "queue (remove_version p s) = queue_remove p (queue s)"
proof (cases "map_of (ds_items s) (dp_token p)")
  case None
  then have "dp_token p \<notin> set (ds_order s)" using ok by (simp add: dirty_ok_def map_of_eq_None_iff)
  then have "\<forall>x\<in>set (queue s). dp_token x \<noteq> dp_token p"
    using queue_tokens [OF ok] by (metis image_eqI list.set_map)
  then have "queue_remove p (queue s) = queue s" by (auto simp: queue_remove_def filter_id_conv)
  with None show ?thesis by (simp add: remove_version_def)
next
  case (Some current)
  then have tok: "dp_token current = dp_token p" using ok by (auto simp: dirty_ok_def dest: map_of_SomeD)
  have only: "x = current" if "x \<in> set (queue s)" "dp_token x = dp_token p" for x
  proof -
    from that(1) obtain u where u: "u \<in> set (ds_order s)" "x = the (map_of (ds_items s) u)" by (auto simp: queue_def)
    obtain y where y: "map_of (ds_items s) u = Some y" "dp_token y = u" by (rule ordered_items [OF ok u(1)])
    with u(2) that(2) Some show ?thesis by simp
  qed
  show ?thesis
  proof (cases "dp_version current = dp_version p")
    case True
    have f: "queue_remove p (queue s) = filter (\<lambda>x. dp_token x \<noteq> dp_token p) (queue s)"
      unfolding queue_remove_def using only True by (intro filter_cong) auto
    have n: "dp_token p \<notin> set (remove1 (dp_token p) (ds_order s))" using ok by (simp add: dirty_ok_def)
    have "map (\<lambda>u. the (map_of (AList.delete (dp_token p) (ds_items s)) u)) (remove1 (dp_token p) (ds_order s)) =
        map (\<lambda>u. the (map_of (ds_items s) u)) (remove1 (dp_token p) (ds_order s))"
      by (rule map_cong [OF refl]) (use n in \<open>auto simp: delete_conv'\<close>)
    with filter_queue [OF ok] f Some True show ?thesis by (simp add: remove_version_def queue_def)
  next
    case False
    then have "queue_remove p (queue s) = queue s" using only by (auto simp: queue_remove_def filter_id_conv)
    with Some False show ?thesis by (simp add: remove_version_def)
  qed
qed

section \<open>Property\<close>

text \<open>C6. The set of prices, a map beside a list of its keys, implements the bounded queue: a marked price
  goes to the end of it, under the token's address in the catalog and with a fresh version, in place of the
  token's older price or, in a full queue, of the one that was not updated for the longest time; and a
  displayed price leaves it unless the token has a newer one.\<close>

theorem dirty_set_refines_a_queue:
  assumes "reachable_dirty E capacity s" and "mark E d p s = (s1, None)"
  shows "(\<exists>row. get_launch_index E (dp_token p) d = Inr row \<and> queue s1 =
      queue_mark (nat capacity) (p\<lparr>dp_token := lr_token row, dp_version := ds_next s + 1\<rparr>) (queue s)) \<and>
    queue (remove_version r s) = queue_remove r (queue s)"
proof -
  have ok: "dirty_ok s" "ds_cap s = nat capacity" using reachable_dirty_ok [OF assms(1)] by simp_all
  from ok(1) assms(2) obtain row where "get_launch_index E (dp_token p) d = Inr row"
    "queue s1 = queue_mark (ds_cap s) (p\<lparr>dp_token := lr_token row, dp_version := ds_next s + 1\<rparr>) (queue s)"
    by (rule mark_queue)
  with remove_queue [OF ok(1)] ok(2) show ?thesis by simp
qed

theorem dirty_set_refines_a_queue_witness:
  "\<exists>s s1. new_dirty_set 1 = Inr s \<and> mark eth_plain two_launch_db ex_point s = (s1, None) \<and> map dp_token (queue s1) = [dp_token ex_point]"
proof -
  let ?s = "\<lparr>ds_cap = 1, ds_items = [], ds_order = [], ds_next = 0\<rparr>"
  have n: "new_dirty_set 1 = Inr ?s" by code_simp
  have "snd (mark eth_plain two_launch_db ex_point ?s) = None" by code_simp
  then obtain s1 where m: "mark eth_plain two_launch_db ex_point ?s = (s1, None)" by (metis prod.collapse)
  from dirty_set_refines_a_queue [OF reachable_dirty.start [OF n] m] obtain row where
    row: "get_launch_index eth_plain (dp_token ex_point) two_launch_db = Inr row"
    "queue s1 = queue_mark (nat 1) (ex_point\<lparr>dp_token := lr_token row, dp_version := 1\<rparr>) (queue ?s)" by auto
  have "case get_launch_index eth_plain (dp_token ex_point) two_launch_db of Inl _ \<Rightarrow> False | Inr row \<Rightarrow> lr_token row = dp_token ex_point"
    by code_simp
  with row have "map dp_token (queue s1) = [dp_token ex_point]" by (simp add: queue_mark_def queue_def)
  with n m show ?thesis by (intro exI conjI)
qed

end
