(* ===== verification/Wallets_Snapshot.thy ===== *)
theory Wallets_Snapshot
  imports Store_Invariant
begin

text \<open>
  \<open>internal/wallets/snapshot.go\<close>: the list of smart wallets in memory. The two tables are
  replaced in one step under the mutex. \<open>rows\<close> is what the source answers.
\<close>

record wallet_view =
  wv_address :: string
  wv_display_name :: string
  wv_primary_type :: string
  wv_tags :: string
  wv_level :: string
  wv_status :: string

record snapshot =
  sn_all :: "string \<rightharpoonup> wallet_view"
  sn_active :: "string \<rightharpoonup> wallet_view"
  sn_last_ok :: time
  sn_last_try :: time

definition new_snapshot :: snapshot where
  "new_snapshot = \<lparr>sn_all = Map.empty, sn_active = Map.empty, sn_last_ok = zero_time, sn_last_try = zero_time\<rparr>"

definition view_of :: "string \<Rightarrow> smart_wallet \<Rightarrow> wallet_view" where
  "view_of address row = \<lparr>wv_address = address, wv_display_name = sw_display_name row,
     wv_primary_type = sw_primary_type row, wv_tags = sw_tags row, wv_level = sw_level row, wv_status = sw_status row\<rparr>"

fun load_views ::
  "eth_common \<Rightarrow> smart_wallet list \<Rightarrow> (string \<rightharpoonup> wallet_view) \<Rightarrow> (string \<rightharpoonup> wallet_view) \<Rightarrow>
   ((string \<rightharpoonup> wallet_view) \<times> (string \<rightharpoonup> wallet_view)) res" where
  "load_views E [] all active = Inr (all, active)"
| "load_views E (row # rows) all active =
     bindE (normalize_address E (sw_address row)) (\<lambda>address.
       load_views E rows (all(address \<mapsto> view_of address row))
         (if sw_status row = ''active'' then active(address \<mapsto> view_of address row) else active))"

definition load_snapshot :: "eth_common \<Rightarrow> smart_wallet list res \<Rightarrow> time \<Rightarrow> snapshot \<Rightarrow> snapshot \<times> err option" where
  "load_snapshot E rows now s =
     (case bindE rows (\<lambda>rs. load_views E rs Map.empty Map.empty) of
        Inl e \<Rightarrow> (s, Some e)
      | Inr (all, active) \<Rightarrow>
          (\<lparr>sn_all = all, sn_active = active, sn_last_ok = now, sn_last_try = now\<rparr>, None))"

definition refresh_if_due ::
  "eth_common \<Rightarrow> smart_wallet list res \<Rightarrow> duration \<Rightarrow> time \<Rightarrow> snapshot \<Rightarrow> snapshot \<times> err option" where
  "refresh_if_due E rows interval now s =
     (if interval \<le> 0 \<or> second < interval then (s, Some E_interval)
      else if \<not> (sn_last_try s = zero_time \<or> interval \<le> now - sn_last_try s) then (s, None)
      else load_snapshot E rows now (s\<lparr>sn_last_try := now\<rparr>))"

definition active_wallet :: "eth_common \<Rightarrow> snapshot \<Rightarrow> string \<Rightarrow> wallet_view option" where
  "active_wallet E s address =
     (case normalize_address E address of Inl _ \<Rightarrow> None | Inr a \<Rightarrow> sn_active s a)"

definition lookup_wallet :: "eth_common \<Rightarrow> snapshot \<Rightarrow> string \<Rightarrow> wallet_view option" where
  "lookup_wallet E s address =
     (case normalize_address E address of Inl _ \<Rightarrow> None | Inr a \<Rightarrow> sn_all s a)"

section \<open>What a load reads\<close>

definition named :: "eth_common \<Rightarrow> string \<Rightarrow> smart_wallet \<Rightarrow> bool" where
  "named E a row \<longleftrightarrow> normalize_address E (sw_address row) = Inr a"

lemma load_views_spec:
  "load_views E rows all active = Inr (all', active') \<Longrightarrow>
   distinct (map (\<lambda>r. normalize_address E (sw_address r)) rows) \<Longrightarrow>
   all' a = (case find (named E a) rows of None \<Rightarrow> all a | Some r \<Rightarrow> Some (view_of a r)) \<and>
   active' a = (case find (\<lambda>r. named E a r \<and> sw_status r = ''active'') rows of None \<Rightarrow> active a | Some r \<Rightarrow> Some (view_of a r))"
proof (induction E rows all active arbitrary: all' active' rule: load_views.induct)
  case (2 E row rows all active)
  obtain b where b: "normalize_address E (sw_address row) = Inr b" using "2.prems"(1) by (cases "normalize_address E (sw_address row)") auto
  have r: "load_views E rows (all(b \<mapsto> view_of b row))
      (if sw_status row = ''active'' then active(b \<mapsto> view_of b row) else active) = Inr (all', active')"
    using "2.prems"(1) b by simp
  have d: "distinct (map (\<lambda>r. normalize_address E (sw_address r)) rows)"
    "\<not> named E b r" if "r \<in> set rows" for r
    using "2.prems"(2) b that by (auto simp: named_def) (metis image_eqI)
  have dist: "distinct (map (\<lambda>r. normalize_address E (sw_address r)) rows)" using "2.prems"(2) by simp
  have nb: "find (named E b) rows = None" "find (\<lambda>r. named E b r \<and> sw_status r = ''active'') rows = None"
    using d(2) by (auto simp: find_None_iff)
  note IH = "2.IH" [OF b r dist]
  have nm: "named E c row \<longleftrightarrow> c = b" for c using b by (auto simp: named_def)
  show ?case
  proof (cases "a = b")
    case True
    with IH nb nm show ?thesis by simp
  next
    case False
    with IH nm show ?thesis by (simp split: option.splits)
  qed
qed simp

text \<open>The views are filed under their own addresses, in normal form.\<close>

definition snapshot_ok :: "snapshot \<Rightarrow> bool" where
  "snapshot_ok s \<longleftrightarrow> (\<forall>a v. sn_active s a = Some v \<longrightarrow> wv_address v = a \<and> canonical_address a)"

lemma new_snapshot_ok: "snapshot_ok new_snapshot"
  by (simp add: snapshot_ok_def new_snapshot_def)

lemma load_views_ok:
  "\<lbrakk>load_views E rows all active = Inr (all', active'); eth_ok E;
    \<forall>a v. active a = Some v \<longrightarrow> wv_address v = a \<and> canonical_address a; active' a = Some v\<rbrakk> \<Longrightarrow>
   wv_address v = a \<and> canonical_address a"
proof (induction E rows all active arbitrary: all' active' rule: load_views.induct)
  case (2 E row rows all active)
  obtain b where b: "normalize_address E (sw_address row) = Inr b" using "2.prems"(1) by (cases "normalize_address E (sw_address row)") auto
  have "canonical_address b" by (rule normalize_address_canonical [OF "2.prems"(2) b])
  with "2.prems"(3) have act: "\<forall>a v. (if sw_status row = ''active'' then active(b \<mapsto> view_of b row) else active) a = Some v \<longrightarrow>
      wv_address v = a \<and> canonical_address a"
    by (auto simp: view_of_def)
  have r: "load_views E rows (all(b \<mapsto> view_of b row))
      (if sw_status row = ''active'' then active(b \<mapsto> view_of b row) else active) = Inr (all', active')"
    using "2.prems"(1) b by simp
  show ?case by (rule "2.IH" [OF b r "2.prems"(2) act "2.prems"(4)])
qed simp

lemma refresh_ok:
  assumes "snapshot_ok s" "eth_ok E"
  shows "snapshot_ok (fst (refresh_if_due E rows interval now s))"
proof -
  have "snapshot_ok (fst (load_snapshot E rows now t))" if t: "snapshot_ok t" for t
  proof (cases "bindE rows (\<lambda>rs. load_views E rs Map.empty Map.empty)")
    case (Inl e)
    with t show ?thesis by (simp add: load_snapshot_def)
  next
    case (Inr p)
    obtain all active where p: "p = (all, active)" by (cases p)
    with Inr obtain rs where l: "load_views E rs Map.empty Map.empty = Inr (all, active)" by (auto simp: res_simps)
    have "wv_address v = a \<and> canonical_address a" if "active a = Some v" for a v
      by (rule load_views_ok [OF l assms(2) _ that]) simp
    with Inr p show ?thesis by (simp add: load_snapshot_def snapshot_ok_def)
  qed
  moreover have "snapshot_ok (s\<lparr>sn_last_try := now\<rparr>)" using assms(1) by (simp add: snapshot_ok_def)
  ultimately show ?thesis using assms(1) by (simp add: refresh_if_due_def)
qed

lemma active_view:
  "\<lbrakk>active_wallet E s x = Some view; eth_ok E; snapshot_ok s\<rbrakk> \<Longrightarrow> active_wallet E s (wv_address view) = Some view"
  by (auto simp: active_wallet_def snapshot_ok_def normalize_address_id split: sum.splits)

section \<open>Properties\<close>

text \<open>The addresses of the table are distinct, as its primary key demands, and well-formed.\<close>

definition wallets_ok :: "eth_common \<Rightarrow> smart_wallet list \<Rightarrow> bool" where
  "wallets_ok E rows \<longleftrightarrow> distinct (map (\<lambda>r. normalize_address E (sw_address r)) rows) \<and>
     (\<forall>r\<in>set rows. \<exists>a. normalize_address E (sw_address r) = Inr a)"

lemma load_views_total:
  "\<forall>r\<in>set rows. \<exists>a. normalize_address E (sw_address r) = Inr a \<Longrightarrow> \<exists>x. load_views E rows all active = Inr x"
  by (induction E rows all active rule: load_views.induct) (auto split: if_splits)

lemma refresh_failure_keeps: "refresh_if_due E rows interval now s = (s1, Some e) \<Longrightarrow>
    sn_all s1 = sn_all s \<and> sn_active s1 = sn_active s"
  by (auto simp: refresh_if_due_def load_snapshot_def split: if_splits sum.splits)

text \<open>C21. A due refresh of a well-formed table succeeds, and afterwards an address is an active smart
  wallet exactly when the table has an active row for it, in whatever case it is written. A refresh
  whose read of the table fails keeps the previous list.\<close>

theorem refresh_mirrors_the_table:
  assumes "wallets_ok E rows" and "0 < interval" and "interval \<le> second"
    and "sn_last_try s = zero_time \<or> interval \<le> now - sn_last_try s"
  shows "(\<exists>s1. refresh_if_due E (Inr rows) interval now s = (s1, None) \<and>
      (\<forall>x. active_wallet E s1 x =
        (case normalize_address E x of Inl _ \<Rightarrow> None
         | Inr a \<Rightarrow> map_option (view_of a) (find (\<lambda>r. named E a r \<and> sw_status r = ''active'') rows)))) \<and>
    (\<forall>x failure. active_wallet E (fst (refresh_if_due E (Inl failure) interval now s)) x = active_wallet E s x)"
proof
  obtain all active where l: "load_views E rows Map.empty Map.empty = Inr (all, active)"
    using load_views_total assms(1) unfolding wallets_ok_def by (metis surj_pair)
  let ?s1 = "\<lparr>sn_all = all, sn_active = active, sn_last_ok = now, sn_last_try = now\<rparr>"
  have d: "distinct (map (\<lambda>r. normalize_address E (sw_address r)) rows)" using assms(1) by (simp add: wallets_ok_def)
  have "refresh_if_due E (Inr rows) interval now s = (?s1, None)"
    using assms(2-4) l by (auto simp: refresh_if_due_def load_snapshot_def)
  moreover have "active_wallet E ?s1 x = (case normalize_address E x of Inl _ \<Rightarrow> None
         | Inr a \<Rightarrow> map_option (view_of a) (find (\<lambda>r. named E a r \<and> sw_status r = ''active'') rows))" for x
    using load_views_spec [OF l d] by (auto simp: active_wallet_def split: sum.split option.split)
  ultimately show "\<exists>s1. refresh_if_due E (Inr rows) interval now s = (s1, None) \<and>
      (\<forall>x. active_wallet E s1 x = (case normalize_address E x of Inl _ \<Rightarrow> None
         | Inr a \<Rightarrow> map_option (view_of a) (find (\<lambda>r. named E a r \<and> sw_status r = ''active'') rows)))" by blast
  show "\<forall>x failure. active_wallet E (fst (refresh_if_due E (Inl failure) interval now s)) x = active_wallet E s x"
    by (auto simp: refresh_if_due_def load_snapshot_def active_wallet_def split: sum.split)
qed

definition ex_wallet_row :: smart_wallet where
  "ex_wallet_row = \<lparr>sw_address = to_upper ex_wallet, sw_display_name = ''A'', sw_source = [], sw_primary_type = [],
     sw_tags = [], sw_level = ''B'', sw_note = [], sw_status = ''active'', sw_source_url = None, sw_last_seen_at = None,
     sw_score = 0, sw_score_win_rate = None, sw_score_profit_usd = None, sw_score_sample_n = 0, sw_level_locked = False,
     sw_created_at = 0, sw_updated_at = 0\<rparr>"

theorem refresh_mirrors_the_table_witness:
  "\<exists>s1. refresh_if_due eth_plain (Inr [ex_wallet_row]) second 0 new_snapshot = (s1, None) \<and>
     active_wallet eth_plain s1 ex_wallet = Some (view_of ex_wallet ex_wallet_row)"
proof -
  have n: "normalize_address eth_plain (sw_address ex_wallet_row) = Inr ex_wallet"
    "normalize_address eth_plain ex_wallet = Inr ex_wallet" by code_simp+
  have "wallets_ok eth_plain [ex_wallet_row]" by (simp add: wallets_ok_def n)
  from refresh_mirrors_the_table [OF this, of second new_snapshot 0] obtain s1 where
    s1: "refresh_if_due eth_plain (Inr [ex_wallet_row]) second 0 new_snapshot = (s1, None)"
    "active_wallet eth_plain s1 ex_wallet = (case normalize_address eth_plain ex_wallet of Inl _ \<Rightarrow> None
       | Inr a \<Rightarrow> map_option (view_of a) (find (\<lambda>r. named eth_plain a r \<and> sw_status r = ''active'') [ex_wallet_row]))"
    by (auto simp: second_def new_snapshot_def)
  have "sw_status ex_wallet_row = ''active''" by (simp add: ex_wallet_row_def)
  with s1 n show ?thesis by (simp add: named_def)
qed

end
