(* ===== verification/App_Process.thy ===== *)
theory App_Process
  imports Venue_Route Venue_Pons Venue_O1crypto Venue_V4fill Chain_Poller Chain_Client Chain_Trace Price_Exec Wallets_Snapshot
begin

text \<open>
  \<open>internal/app/process_block.go\<close> and \<open>native_quote.go\<close>, and the registrations of
  \<open>app.go\<close>: one block from its receipts to the committed transaction.

  What a block asks the outside is the environment \<open>app_env\<close>: the answers of the RPC clients,
  whose state is of the arbitrary type \<open>'c\<close>, the failures of the database, and the time. Reading
  the database does not fail, except for the list of wallets. Log lines are left out, and with
  them \<open>logWalletEvent\<close>, \<open>logLaunches\<close> and the flags that keep a message from being repeated.
  The ETH price does not change while one block is processed. \<open>E_panic\<close> as the failure of a block is
  a run-time panic: the deferred restoring of the registrations runs, and then the process ends.
\<close>

section \<open>State\<close>

record 'c app_env =
  ae_eth :: eth_common
  ae_float :: to_float
  ae_visit :: "net \<Rightarrow> net"
  ae_roles :: "(string \<times> role) list"
  ae_metadata :: "string \<Rightarrow> u64 \<Rightarrow> 'c \<Rightarrow> erc20_metadata res \<times> 'c"
  ae_head :: "'c \<Rightarrow> u64 res \<times> 'c"
  ae_trace :: "(string \<Rightarrow> string \<Rightarrow> string \<Rightarrow> 'c \<Rightarrow> string res \<times> 'c) option"
  ae_wallets_fault :: "err option"
  ae_reload :: duration
  ae_now :: time
  ae_fault :: "err option"

record 'c app =
  ap_db :: db
  ap_catalog :: catalog
  ap_wallets :: snapshot
  ap_feed :: feed
  ap_dirty :: dirty_set
  ap_client :: 'c
  ap_sell_since :: int
  ap_score_trigger :: bool

text \<open>What the handlers of one block read, and what they build up.\<close>

record block_ctx =
  cx_db :: db
  cx_wallets :: snapshot
  cx_feed :: "rat res"

record 'c scan =
  st_client :: 'c
  st_catalog :: catalog
  st_changes :: block_changes
  st_prices :: "(fill \<times> rat) list"
  st_metadata :: "string \<rightharpoonup> erc20_metadata"
  st_pending :: "string \<rightharpoonup> string"

section \<open>Helpers\<close>

definition to_event_log :: "chain_log \<Rightarrow> event_log" where
  "to_event_log lg = \<lparr>el_address = lg_address lg, el_topics = lg_topics lg, el_data = lg_data lg,
     el_log_index = lg_receipt_log_index lg\<rparr>"

definition prefer_text :: "string \<Rightarrow> string \<Rightarrow> string" where
  "prefer_text current fallback = (if current \<noteq> [] then current else fallback)"

definition zero_if_empty :: "string \<Rightarrow> string" where
  "zero_if_empty value = (if value = [] then ''0'' else value)"

definition count_receipt_swaps :: "receipt \<Rightarrow> nat" where
  "count_receipt_swaps rc = length (filter (\<lambda>lg. \<not> (lg_removed lg \<or> \<not> equal_fold (lg_address lg) pool_manager \<or>
     lg_topics lg = [] \<or> \<not> equal_fold (lg_topics lg ! 0) topic_pool_swap)) (rc_logs rc))"

definition pons_tx_of :: "block_batch \<Rightarrow> transaction \<Rightarrow> receipt \<Rightarrow> pons_tx" where
  "pons_tx_of block tx rc = \<lparr>ptx_from = tx_from tx, ptx_to = tx_to tx, ptx_hash = tx_hash tx, ptx_value = tx_value tx,
     ptx_block_number = bb_number block, ptx_tx_index = tx_index tx, ptx_chain_time = bb_chain_time block,
     ptx_logs = map to_event_log (rc_logs rc)\<rparr>"

definition o1_tx_of :: "block_batch \<Rightarrow> transaction \<Rightarrow> receipt \<Rightarrow> o1_tx" where
  "o1_tx_of block tx rc = \<lparr>otx_from = tx_from tx, otx_hash = tx_hash tx, otx_value = tx_value tx,
     otx_block_number = bb_number block, otx_tx_index = tx_index tx, otx_chain_time = bb_chain_time block,
     otx_logs = map to_event_log (rc_logs rc)\<rparr>"

definition v4_tx_of :: "block_batch \<Rightarrow> transaction \<Rightarrow> receipt \<Rightarrow> v4_tx" where
  "v4_tx_of block tx rc = \<lparr>vtx_to = tx_to tx, vtx_hash = tx_hash tx, vtx_block_number = bb_number block,
     vtx_tx_index = tx_index tx, vtx_chain_time = bb_chain_time block, vtx_logs = map to_event_log (rc_logs rc)\<rparr>"

text \<open>\<open>acceptLaunchCategory\<close>: is the token free for the category, and the categories of the block.\<close>

definition accept_launch_category ::
  "eth_common \<Rightarrow> db \<Rightarrow> string \<Rightarrow> string \<Rightarrow> (string \<rightharpoonup> string) \<Rightarrow> (bool \<times> (string \<rightharpoonup> string)) res" where
  "accept_launch_category E d token incoming pending =
     bindE (normalize_address E token) (\<lambda>n.
       if pending n \<noteq> None \<and> pending n \<noteq> Some incoming then Inr (False, pending)
       else case check_launch_category E n incoming d of
         Inl (E_conflict _ _ _) \<Rightarrow> Inr (False, pending)
       | Inl e \<Rightarrow> Inl e
       | Inr _ \<Rightarrow> Inr (True, pending(n \<mapsto> incoming)))"

definition add_event :: "wallet_event \<Rightarrow> 'c scan \<Rightarrow> 'c scan" where
  "add_event v st = st\<lparr>st_changes := (st_changes st)\<lparr>bc_events := bc_events (st_changes st) @ [v]\<rparr>\<rparr>"

definition launch_wallet_event ::
  "'c app_env \<Rightarrow> snapshot \<Rightarrow> transaction \<Rightarrow> chain_log \<Rightarrow> launch_view \<Rightarrow> byte \<Rightarrow> wallet_event option" where
  "launch_wallet_event ev ws tx lg v decimals =
     (let contract = snd (lv_creators v);
          wallet = (if active_wallet (ae_eth ev) ws (tx_from tx) \<noteq> None then tx_from tx
                    else if active_wallet (ae_eth ev) ws contract \<noteq> None then contract else [])
      in if wallet = [] then None
         else case lv_created v of (created_at, number, hash) \<Rightarrow>
           Some \<lparr>we_id = [], we_block_number = number, we_tx_index = tx_index tx,
             we_log_index = lg_receipt_log_index lg, we_tx_hash = hash, we_chain_time = created_at,
             we_ingested_at = ae_now ev, we_wallet = wallet, we_kind = ''launch'', we_category = lv_category v,
             we_token = lv_token v, we_direction = ''launch'', we_quote = [], we_quote_symbol = [],
             we_quote_amount_raw = ''0'', we_quote_decimals = None, we_token_amount_raw = ''0'',
             we_token_decimals = Some decimals, we_exec_quote = None, we_exec_usd = None, we_quote_usd = None,
             we_router = ''unknown''\<rparr>)"

section \<open>Fills\<close>

text \<open>The prices of a fill: its quote asset, the execution price, and both in dollars.\<close>

record fill_price =
  fp_fill :: fill
  fp_symbol :: string
  fp_decimals :: "byte option"
  fp_exec_quote :: "string option"
  fp_exec_usd :: "rat option"
  fp_quote_usd :: "rat option"

definition ok_value :: "'a res \<Rightarrow> 'a option" where
  "ok_value r = (case r of Inl _ \<Rightarrow> None | Inr x \<Rightarrow> Some x)"

definition price_fill :: "'c app_env \<Rightarrow> block_ctx \<Rightarrow> fill \<Rightarrow> fill_price" where
  "price_fill ev cx fill =
     (case get_quote_asset (ae_eth ev) (f_quote fill) (cx_db cx) of
        Inl _ \<Rightarrow> \<lparr>fp_fill = fill, fp_symbol = [], fp_decimals = None, fp_exec_quote = None, fp_exec_usd = None,
                  fp_quote_usd = None\<rparr>
      | Inr asset \<Rightarrow>
          (let fill = fill\<lparr>f_quote_decimals := qa_decimals asset\<rparr>;
               plain = \<lparr>fp_fill = fill, fp_symbol = qa_symbol asset, fp_decimals = Some (qa_decimals asset),
                 fp_exec_quote = None, fp_exec_usd = None, fp_quote_usd = None\<rparr>
           in if f_quote_amount_raw fill = [] \<or> f_meme_amount_raw fill = [] then plain
              else case exec_quote_per_token (f_meme_amount_raw fill) (f_quote_amount_raw fill)
                     (f_token_decimals fill) (f_quote_decimals fill) of
                Inl _ \<Rightarrow> plain
              | Inr exec_quote \<Rightarrow>
                  (case exec_usd (ae_eth ev) (ae_float ev) (cx_feed cx) exec_quote (f_quote fill) (cx_db cx) of
                     Inl _ \<Rightarrow> plain\<lparr>fp_exec_quote := Some (rat_string exec_quote)\<rparr>
                   | Inr (e, u) \<Rightarrow> plain\<lparr>fp_exec_quote := Some (rat_string exec_quote),
                       fp_exec_usd := ok_value (rat_float64 (ae_float ev) e),
                       fp_quote_usd := ok_value (rat_float64 (ae_float ev) u)\<rparr>)))"

definition trade_event :: "'c app_env \<Rightarrow> wallet_view \<Rightarrow> fill_price \<Rightarrow> wallet_event" where
  "trade_event ev view p =
     (let fill = fp_fill p in
      \<lparr>we_id = [], we_block_number = f_block_number fill, we_tx_index = f_tx_index fill,
       we_log_index = f_log_index fill, we_tx_hash = f_tx_hash fill, we_chain_time = f_chain_time fill,
       we_ingested_at = ae_now ev, we_wallet = wv_address view, we_kind = f_side fill, we_category = f_category fill,
       we_token = f_token fill, we_direction = f_side fill, we_quote = f_quote fill, we_quote_symbol = fp_symbol p,
       we_quote_amount_raw = f_quote_amount_raw fill, we_quote_decimals = fp_decimals p,
       we_token_amount_raw = zero_if_empty (f_meme_amount_raw fill), we_token_decimals = Some (f_token_decimals fill),
       we_exec_quote = fp_exec_quote p, we_exec_usd = fp_exec_usd p, we_quote_usd = fp_quote_usd p,
       we_router = f_router fill\<rparr>)"

definition collect_fill :: "'c app_env \<Rightarrow> block_ctx \<Rightarrow> fill \<Rightarrow> 'c scan \<Rightarrow> 'c scan" where
  "collect_fill ev cx fill st =
     (let p = price_fill ev cx fill;
          st1 = (case fp_exec_usd p of None \<Rightarrow> st | Some v \<Rightarrow> st\<lparr>st_prices := st_prices st @ [(fp_fill p, v)]\<rparr>)
      in if f_user (fp_fill p) = [] then st1
         else case active_wallet (ae_eth ev) (cx_wallets cx) (f_user (fp_fill p)) of
           None \<Rightarrow> st1
         | Some view \<Rightarrow> add_event (trade_event ev view p) st1)"

text \<open>
  \<open>enrichNativeQuote\<close>: the native amount of a swap is taken from the call trace, or unknown. A call that
  panics takes the whole block with it.
\<close>

definition enrich_native_quote :: "'c app_env \<Rightarrow> nat \<Rightarrow> fill \<Rightarrow> 'c \<Rightarrow> fill res \<times> 'c" where
  "enrich_native_quote ev swap_count fill client =
     (if f_quote fill \<noteq> zero_address \<or> f_user fill = [] then (Inr fill, client)
      else (let blank = fill\<lparr>f_quote_amount_raw := []\<rparr>
            in if swap_count \<noteq> 1 then (Inr blank, client)
               else case ae_trace ev of
                 None \<Rightarrow> (Inr blank, client)
               | Some trace \<Rightarrow>
                   (case trace (f_tx_hash fill) (f_user fill) (f_side fill) client of
                      (Inl e, client1) \<Rightarrow> (if e = E_panic then Inl E_panic else Inr blank, client1)
                    | (Inr amount, client1) \<Rightarrow> (Inr (fill\<lparr>f_quote_amount_raw := amount\<rparr>), client1))))"

text \<open>
  The trace client that \<open>New\<close> puts into the process. Without a configured endpoint it is a nil pointer of
  type \<open>*chain.Client\<close> in a field of interface type, and such an interface is not nil: the method runs on
  the nil pointer, checks its arguments, and panics when it reads the client.
\<close>

definition trace_client_of ::
  "eth_common \<Rightarrow> string \<Rightarrow> (string \<Rightarrow> string \<Rightarrow> string \<Rightarrow> 'c \<Rightarrow> string res \<times> 'c) \<Rightarrow>
   (string \<Rightarrow> string \<Rightarrow> string \<Rightarrow> 'c \<Rightarrow> string res \<times> 'c) option" where
  "trace_client_of E url remote =
     Some (if url = [] then (\<lambda>tx user side client. (trace_native_amount E (\<lambda>_. Inl E_panic) tx user side, client))
           else remote)"

section \<open>The handlers of one log\<close>

definition add_launch_event ::
  "'c app_env \<Rightarrow> block_ctx \<Rightarrow> transaction \<Rightarrow> chain_log \<Rightarrow> launch_view \<Rightarrow> byte \<Rightarrow> 'c scan \<Rightarrow> 'c scan" where
  "add_launch_event ev cx tx lg v decimals st =
     (case launch_wallet_event ev (cx_wallets cx) tx lg v decimals of None \<Rightarrow> st | Some e \<Rightarrow> add_event e st)"

definition create_pons ::
  "'c app_env \<Rightarrow> block_ctx \<Rightarrow> block_batch \<Rightarrow> transaction \<Rightarrow> receipt \<Rightarrow> chain_log \<Rightarrow> 'c scan \<Rightarrow> 'c scan \<times> err option" where
  "create_pons ev cx block tx rc lg st =
     (case pons_decode_create (ae_eth ev) (to_event_log lg) (pons_tx_of block tx rc) of
        Inl _ \<Rightarrow> (st, None)
      | Inr launch \<Rightarrow>
     (case accept_launch_category (ae_eth ev) (cx_db cx) (pl_token_address launch) (lv_category (pons_view launch))
             (st_pending st) of
        Inl e \<Rightarrow> (st, Some e)
      | Inr (False, _) \<Rightarrow> (st, None)
      | Inr (True, pending) \<Rightarrow>
     (case ae_metadata ev (pl_token_address launch) (bb_number block) (st_client st) of
        (Inl e, client) \<Rightarrow> (st\<lparr>st_pending := pending, st_client := client\<rparr>, Some e)
      | (Inr meta, client) \<Rightarrow>
          (let launch = launch\<lparr>pl_name := prefer_text (pl_name launch) (em_name meta),
                               pl_symbol := prefer_text (pl_symbol launch) (em_symbol meta)\<rparr>;
               st1 = st\<lparr>st_pending := pending, st_client := client,
                 st_metadata := (st_metadata st)(pl_token_address launch \<mapsto> meta),
                 st_changes := (st_changes st)\<lparr>bc_pons := bc_pons (st_changes st) @ [launch]\<rparr>\<rparr>
           in case register_curve (ae_eth ev)
                     \<lparr>cr_curve = pl_curve_address launch, cr_token = pl_token_address launch,
                      cr_quote = pl_pair_address launch, cr_token_decimals = em_decimals meta,
                      cr_quote_decimals = pl_pair_decimals launch\<rparr> (st_catalog st1) of
                Inl e \<Rightarrow> (st1, Some e)
              | Inr c \<Rightarrow> (add_launch_event ev cx tx lg (pons_view launch) (em_decimals meta) (st1\<lparr>st_catalog := c\<rparr>), None)))))"

definition create_o1 ::
  "'c app_env \<Rightarrow> block_ctx \<Rightarrow> block_batch \<Rightarrow> transaction \<Rightarrow> receipt \<Rightarrow> chain_log \<Rightarrow> 'c scan \<Rightarrow> 'c scan \<times> err option" where
  "create_o1 ev cx block tx rc lg st =
     (case o1_decode_create (ae_eth ev) (to_event_log lg) (o1_tx_of block tx rc) of
        Inl _ \<Rightarrow> (st, None)
      | Inr launch \<Rightarrow>
     (case accept_launch_category (ae_eth ev) (cx_db cx) (oc_token_address launch) (lv_category (o1_crypto_view launch))
             (st_pending st) of
        Inl e \<Rightarrow> (st, Some e)
      | Inr (False, _) \<Rightarrow> (st, None)
      | Inr (True, pending) \<Rightarrow>
     (case ae_metadata ev (oc_token_address launch) (bb_number block) (st_client st) of
        (Inl e, client) \<Rightarrow> (st\<lparr>st_pending := pending, st_client := client\<rparr>, Some e)
      | (Inr meta, client) \<Rightarrow>
          (let launch = launch\<lparr>oc_name := prefer_text (oc_name launch) (em_name meta),
                               oc_symbol := prefer_text (oc_symbol launch) (em_symbol meta)\<rparr>;
               st1 = st\<lparr>st_pending := pending, st_client := client,
                 st_metadata := (st_metadata st)(oc_token_address launch \<mapsto> meta),
                 st_changes := (st_changes st)\<lparr>bc_o1 := bc_o1 (st_changes st) @ [launch]\<rparr>\<rparr>
           in case register_pool (ae_eth ev)
                     \<lparr>pr_pool_id = oc_pool_id launch, pr_token = oc_token_address launch, pr_category = ''o1_crypto'',
                      pr_quote = oc_quote_address launch, pr_token_decimals = em_decimals meta,
                      pr_quote_decimals = oc_quote_decimals launch\<rparr> (st_catalog st1) of
                Inl e \<Rightarrow> (st1, Some e)
              | Inr c \<Rightarrow> (add_launch_event ev cx tx lg (o1_crypto_view launch) (em_decimals meta) (st1\<lparr>st_catalog := c\<rparr>), None)))))"

text \<open>\<open>ponsRegistrationData\<close>: a launch of the same block, or one of the database.\<close>

definition pons_registration_data ::
  "'c app_env \<Rightarrow> block_ctx \<Rightarrow> string \<Rightarrow> u64 \<Rightarrow> 'c scan \<Rightarrow> (pons_launch \<times> byte) res \<times> 'c" where
  "pons_registration_data ev cx token block st =
     (case find (\<lambda>l. pl_token_address l = token) (bc_pons (st_changes st)) of
        Some launch \<Rightarrow>
          (Inr (launch, case st_metadata st token of None \<Rightarrow> 0 | Some m \<Rightarrow> em_decimals m), st_client st)
      | None \<Rightarrow>
          (case get_pons_launch (ae_eth ev) token (cx_db cx) of
             Inl e \<Rightarrow> (Inl e, st_client st)
           | Inr launch \<Rightarrow>
               (case ae_metadata ev token block (st_client st) of
                  (r, client) \<Rightarrow> (bindE r (\<lambda>m. Inr (launch, em_decimals m)), client))))"

definition graduate ::
  "'c app_env \<Rightarrow> block_ctx \<Rightarrow> block_batch \<Rightarrow> transaction \<Rightarrow> receipt \<Rightarrow> chain_log \<Rightarrow> 'c scan \<Rightarrow> 'c scan \<times> err option" where
  "graduate ev cx block tx rc lg st =
     (case decode_graduation (ae_eth ev) (to_event_log lg) (pons_tx_of block tx rc) of
        Inl _ \<Rightarrow> (st, None)
      | Inr g \<Rightarrow>
     (case pons_registration_data ev cx (gr_token g) (bb_number block) st of
        (Inl e, client) \<Rightarrow> (st\<lparr>st_client := client\<rparr>, if e = E_no_rows then None else Some e)
      | (Inr (launch, decimals), client) \<Rightarrow>
          (let st1 = st\<lparr>st_client := client,
                 st_changes := (st_changes st)\<lparr>bc_graduations := bc_graduations (st_changes st) @
                   [\<lparr>pg_token = gr_token g, pg_pool_id = gr_pool_id g, pg_at = gr_graduated_at g\<rparr>]\<rparr>\<rparr>
           in case register_pool (ae_eth ev)
                     \<lparr>pr_pool_id = gr_pool_id g, pr_token = gr_token g, pr_category = ''pons'',
                      pr_quote = pl_pair_address launch, pr_token_decimals = decimals,
                      pr_quote_decimals = pl_pair_decimals launch\<rparr> (st_catalog st1) of
                Inl e \<Rightarrow> (st1, Some e)
              | Inr c \<Rightarrow> (st1\<lparr>st_catalog := c\<rparr>, None))))"

definition curve_trade ::
  "'c app_env \<Rightarrow> block_ctx \<Rightarrow> block_batch \<Rightarrow> transaction \<Rightarrow> receipt \<Rightarrow> chain_log \<Rightarrow> curve_registration option \<Rightarrow>
   'c scan \<Rightarrow> 'c scan \<times> err option" where
  "curve_trade ev cx block tx rc lg registration st =
     (case registration of
        None \<Rightarrow> (st, Some E_panic)
      | Some curve \<Rightarrow>
          (case decode_curve (ae_eth ev) (to_event_log lg) (pons_tx_of block tx rc) curve of
             Inl _ \<Rightarrow> (st, None)
           | Inr fill \<Rightarrow> (collect_fill ev cx fill st, None)))"

definition pool_swap ::
  "'c app_env \<Rightarrow> block_ctx \<Rightarrow> block_batch \<Rightarrow> transaction \<Rightarrow> receipt \<Rightarrow> chain_log \<Rightarrow> pool_registration option \<Rightarrow>
   'c scan \<Rightarrow> 'c scan \<times> err option" where
  "pool_swap ev cx block tx rc lg registration st =
     (case registration of
        None \<Rightarrow> (st, Some E_panic)
      | Some pool \<Rightarrow>
          (case decode_swap (ae_eth ev) (ae_visit ev) (to_event_log lg) (v4_tx_of block tx rc) pool
                  (protocol_addresses (ae_roles ev)) of
             Inl _ \<Rightarrow> (st, None)
           | Inr fill \<Rightarrow>
               (case enrich_native_quote ev (count_receipt_swaps rc) fill (st_client st) of
                  (Inl e, client) \<Rightarrow> (st\<lparr>st_client := client\<rparr>, Some e)
                | (Inr fill1, client) \<Rightarrow> (collect_fill ev cx fill1 (st\<lparr>st_client := client\<rparr>), None))))"

section \<open>The block\<close>

definition process_log ::
  "'c app_env \<Rightarrow> block_ctx \<Rightarrow> block_batch \<Rightarrow> transaction \<Rightarrow> receipt \<Rightarrow> chain_log \<Rightarrow> 'c scan \<Rightarrow> 'c scan \<times> err option" where
  "process_log ev cx block tx rc lg st =
     (if lg_removed lg \<or> lg_topics lg = [] then (st, None)
      else case route (st_catalog st) (lg_address lg) (lg_topics lg ! 0) (lg_topics lg) of
        None \<Rightarrow> (st, None)
      | Some h \<Rightarrow>
          (case rh_kind h of
             KindIgnore \<Rightarrow> (st, None)
           | KindV4Initialize \<Rightarrow> (st, None)
           | KindCreate \<Rightarrow>
               (if rh_venue h = VenuePons then create_pons ev cx block tx rc lg st
                else if rh_venue h = VenueO1Crypto then create_o1 ev cx block tx rc lg st
                else (st, None))
           | KindGraduated \<Rightarrow> graduate ev cx block tx rc lg st
           | KindCurveBuy \<Rightarrow> curve_trade ev cx block tx rc lg (rh_curve h) st
           | KindCurveSell \<Rightarrow> curve_trade ev cx block tx rc lg (rh_curve h) st
           | KindV4Swap \<Rightarrow> pool_swap ev cx block tx rc lg (rh_pool h) st))"

fun process_logs ::
  "'c app_env \<Rightarrow> block_ctx \<Rightarrow> block_batch \<Rightarrow> transaction \<Rightarrow> receipt \<Rightarrow> chain_log list \<Rightarrow> 'c scan \<Rightarrow> 'c scan \<times> err option" where
  "process_logs ev cx block tx rc [] st = (st, None)"
| "process_logs ev cx block tx rc (lg # lgs) st =
     (case process_log ev cx block tx rc lg st of
        (st1, Some e) \<Rightarrow> (st1, Some e)
      | (st1, None) \<Rightarrow> process_logs ev cx block tx rc lgs st1)"

fun process_transactions ::
  "'c app_env \<Rightarrow> block_ctx \<Rightarrow> block_batch \<Rightarrow> transaction list \<Rightarrow> receipt list \<Rightarrow> 'c scan \<Rightarrow> 'c scan \<times> err option" where
  "process_transactions ev cx block [] rcs st = (st, None)"
| "process_transactions ev cx block (tx # txs) [] st = (st, Some E_receipts)"
| "process_transactions ev cx block (tx # txs) (rc # rcs) st =
     (if rc_status rc = 0 then process_transactions ev cx block txs rcs st
      else case process_logs ev cx block tx rc (rc_logs rc) st of
        (st1, Some e) \<Rightarrow> (st1, Some e)
      | (st1, None) \<Rightarrow> process_transactions ev cx block txs rcs st1)"

section \<open>Registrations (app.go)\<close>

text \<open>The token decimals of registrations, one question per token.\<close>

fun fill_decimals ::
  "'c app_env \<Rightarrow> u64 \<Rightarrow> ('v \<Rightarrow> string) \<Rightarrow> (byte \<Rightarrow> 'v \<Rightarrow> 'v) \<Rightarrow> 'v list \<Rightarrow> (string \<rightharpoonup> byte) \<Rightarrow> 'c \<Rightarrow>
   ('v list \<times> (string \<rightharpoonup> byte)) res \<times> 'c" where
  "fill_decimals ev head token set_decimals [] cache client = (Inr ([], cache), client)"
| "fill_decimals ev head token set_decimals (v # vs) cache client =
     (case (case cache (token v) of
              Some n \<Rightarrow> (Inr n, client)
            | None \<Rightarrow> (case ae_metadata ev (token v) head client of (r, client1) \<Rightarrow> (bindE r (\<lambda>m. Inr (em_decimals m)), client1))) of
        (Inl e, client1) \<Rightarrow> (Inl e, client1)
      | (Inr n, client1) \<Rightarrow>
          (case fill_decimals ev head token set_decimals vs (cache(token v \<mapsto> n)) client1 of
             (r, client2) \<Rightarrow> (bindE r (\<lambda>(rest, cache2). Inr (set_decimals n v # rest, cache2)), client2)))"

definition enrich_registration_decimals ::
  "'c app_env \<Rightarrow> pool_registration list \<Rightarrow> curve_registration list \<Rightarrow> 'c \<Rightarrow>
   (pool_registration list \<times> curve_registration list) res \<times> 'c" where
  "enrich_registration_decimals ev pools curves client =
     (case ae_head ev client of
        (Inl e, client1) \<Rightarrow> (Inl e, client1)
      | (Inr head, client1) \<Rightarrow>
          (case fill_decimals ev head pr_token (\<lambda>n p. p\<lparr>pr_token_decimals := n\<rparr>) pools Map.empty client1 of
             (Inl e, client2) \<Rightarrow> (Inl e, client2)
           | (Inr (pools1, cache), client2) \<Rightarrow>
               (case fill_decimals ev head cr_token (\<lambda>n c. c\<lparr>cr_token_decimals := n\<rparr>) curves cache client2 of
                  (r, client3) \<Rightarrow> (bindE r (\<lambda>(curves1, _). Inr (pools1, curves1)), client3))))"

definition restore_registrations :: "'c app_env \<Rightarrow> 'c app \<Rightarrow> 'c app" where
  "restore_registrations ev a =
     (case load_registrations (ap_db a) of (pools, curves) \<Rightarrow>
     (case enrich_registration_decimals ev pools curves (ap_client a) of
        (Inl _, client) \<Rightarrow> a\<lparr>ap_client := client\<rparr>
      | (Inr (pools, curves), client) \<Rightarrow>
          (case rebuild_registrations (ae_eth ev) pools curves (ap_catalog a) of
             Inl _ \<Rightarrow> a\<lparr>ap_client := client\<rparr>
           | Inr c \<Rightarrow> a\<lparr>ap_client := client, ap_catalog := c\<rparr>)))"

section \<open>ProcessBlock\<close>

text \<open>\<open>requestScoreAfter\<close> (ticks.go): after a hundred sells the scores are due; the trigger holds
  one request.\<close>

definition request_score_after :: "int \<Rightarrow> 'c app \<Rightarrow> 'c app" where
  "request_score_after sells a =
     (let n = ap_sell_since a + sells
      in if n < 100 then a\<lparr>ap_sell_since := n\<rparr> else a\<lparr>ap_sell_since := 0, ap_score_trigger := True\<rparr>)"

definition mark_prices :: "eth_common \<Rightarrow> (fill \<times> rat) list \<Rightarrow> 'c app \<Rightarrow> 'c app" where
  "mark_prices E prices a =
     foldl (\<lambda>a (f, p). a\<lparr>ap_dirty := fst (mark E (ap_db a) \<lparr>dp_token = f_token f, dp_tx = f_tx_hash f, dp_price = p,
       dp_block = f_block_number f, dp_at = f_chain_time f, dp_version = 0\<rparr> (ap_dirty a))\<rparr>) a prices"

definition after_commit :: "'c app_env \<Rightarrow> (fill \<times> rat) list \<Rightarrow> block_write_result \<Rightarrow> 'c app \<Rightarrow> 'c app" where
  "after_commit ev prices result a =
     (let a1 = (if bw_conflicts result \<noteq> [] then restore_registrations ev a else a);
          sells = int (length (filter (\<lambda>v. we_kind v = ''sell'') (bw_events result)));
          a2 = (if 0 < sells then request_score_after sells a1 else a1)
      in mark_prices (ae_eth ev) prices a2)"

definition scan_start :: "'c app \<Rightarrow> 'c scan" where
  "scan_start a = \<lparr>st_client = ap_client a, st_catalog = ap_catalog a,
     st_changes = \<lparr>bc_pons = [], bc_o1 = [], bc_graduations = [], bc_events = []\<rparr>, st_prices = [],
     st_metadata = Map.empty, st_pending = Map.empty\<rparr>"

definition sync_of :: "watermark \<Rightarrow> sync_state" where
  "sync_of wm = \<lparr>ss_name = wm_name wm, ss_last_block = wm_last_block wm, ss_last_hash = wm_last_hash wm,
     ss_updated_at = wm_updated_at wm\<rparr>"

definition refresh_wallets :: "'c app_env \<Rightarrow> 'c app \<Rightarrow> 'c app" where
  "refresh_wallets ev a =
     a\<lparr>ap_wallets := fst (refresh_if_due (ae_eth ev)
        (case ae_wallets_fault ev of Some e \<Rightarrow> Inl e | None \<Rightarrow> Inr (load_smart_wallets (ap_db a)))
        (ae_reload ev) (ae_now ev) (ap_wallets a))\<rparr>"

definition block_ctx_of :: "'c app_env \<Rightarrow> 'c app \<Rightarrow> block_ctx" where
  "block_ctx_of ev a = \<lparr>cx_db = ap_db a, cx_wallets = ap_wallets a, cx_feed = eth_usd (ae_now ev) (ap_feed a)\<rparr>"

definition scan_block :: "'c app_env \<Rightarrow> block_batch \<Rightarrow> 'c app \<Rightarrow> 'c scan \<times> err option" where
  "scan_block ev block a =
     process_transactions ev (block_ctx_of ev a) block (bb_transactions block) (bb_receipts block) (scan_start a)"

definition process_block :: "'c app_env \<Rightarrow> block_batch \<Rightarrow> watermark \<Rightarrow> 'c app \<Rightarrow> 'c app \<times> err option" where
  "process_block ev block wm a0 =
     (let a = refresh_wallets ev a0
      in case scan_block ev block a of
           (st, failure) \<Rightarrow>
             (let a1 = a\<lparr>ap_client := st_client st, ap_catalog := st_catalog st\<rparr>
              in case failure of
                   Some e \<Rightarrow> (restore_registrations ev a1, Some e)
                 | None \<Rightarrow>
                     (case commit_block (ae_eth ev) (ae_fault ev) (st_changes st) (sync_of wm) (ap_db a1) of
                        (_, Inl e) \<Rightarrow> (restore_registrations ev a1, Some e)
                      | (d, Inr result) \<Rightarrow> (after_commit ev (st_prices st) result (a1\<lparr>ap_db := d\<rparr>), None))))"

end
