(* ===== verification/App_Run.thy ===== *)
theory App_Run
  imports App_Process
begin

text \<open>
  The block handler of \<open>internal/app\<close> behind the scanner: what one block does to the state, the
  handler as the scanner's backend, and the properties of whole runs.
\<close>

section \<open>What a handler keeps\<close>

text \<open>
  A property of the state of a block that all its handlers keep: the client and the prices do
  not matter to it, and it survives a registration and the additions to the changes.
\<close>

definition listing_ok :: "'c app_env \<Rightarrow> block_ctx \<Rightarrow> bool" where
  "listing_ok ev cx \<longleftrightarrow> eth_ok (ae_eth ev) \<and> snapshot_ok (cx_wallets cx)"

locale block_invariant =
  fixes ev :: "'c app_env" and cx :: block_ctx and ok :: "'c scan \<Rightarrow> bool"
  assumes client: "ok st \<Longrightarrow> ok (st\<lparr>st_client := c\<rparr>)"
    and pending: "ok st \<Longrightarrow> ok (st\<lparr>st_pending := p\<rparr>)"
    and metadata: "ok st \<Longrightarrow> ok (st\<lparr>st_metadata := m\<rparr>)"
    and prices: "ok st \<Longrightarrow> ok (st\<lparr>st_prices := ps\<rparr>)"
    and launches: "ok st \<Longrightarrow> ok (st\<lparr>st_changes := (st_changes st)\<lparr>bc_pons := ls\<rparr>\<rparr>)"
      "ok st \<Longrightarrow> ok (st\<lparr>st_changes := (st_changes st)\<lparr>bc_o1 := os\<rparr>\<rparr>)"
      "ok st \<Longrightarrow> ok (st\<lparr>st_changes := (st_changes st)\<lparr>bc_graduations := gs\<rparr>\<rparr>)"
    and curve: "ok st \<Longrightarrow> register_curve (ae_eth ev) v (st_catalog st) = Inr cat \<Longrightarrow> ok (st\<lparr>st_catalog := cat\<rparr>)"
    and pool: "ok st \<Longrightarrow> register_pool (ae_eth ev) q (st_catalog st) = Inr cat \<Longrightarrow> ok (st\<lparr>st_catalog := cat\<rparr>)"
    and event: "\<lbrakk>ok st; listing_ok ev cx \<Longrightarrow> active_wallet (ae_eth ev) (cx_wallets cx) (we_wallet t) \<noteq> None\<rbrakk> \<Longrightarrow>
      ok (add_event t st)"
begin

lemma launch_event: "ok st \<Longrightarrow> ok (add_launch_event ev cx tx lg v n st)"
  unfolding add_launch_event_def
  by (auto simp: launch_wallet_event_def Let_def split: option.split prod.splits if_splits intro!: event)

lemma fill:
  assumes "ok st"
  shows "ok (collect_fill ev cx f st)"
proof -
  define p where p: "p = price_fill ev cx f"
  define st1 where st1: "st1 = (case fp_exec_usd p of None \<Rightarrow> st | Some v \<Rightarrow> st\<lparr>st_prices := st_prices st @ [(fp_fill p, v)]\<rparr>)"
  have ok1: "ok st1" using assms prices by (cases "fp_exec_usd p") (simp_all add: st1)
  have eq: "collect_fill ev cx f st = (if f_user (fp_fill p) = [] then st1
      else case active_wallet (ae_eth ev) (cx_wallets cx) (f_user (fp_fill p)) of
        None \<Rightarrow> st1 | Some view \<Rightarrow> add_event (trade_event ev view p) st1)"
    by (simp only: collect_fill_def Let_def p [symmetric] st1)
  show ?thesis
  proof (cases "active_wallet (ae_eth ev) (cx_wallets cx) (f_user (fp_fill p))")
    case None
    with eq ok1 show ?thesis by simp
  next
    case (Some view)
    have "we_wallet (trade_event ev view p) = wv_address view" by (simp add: trade_event_def Let_def)
    then have "ok (add_event (trade_event ev view p) st1)" 
      using active_view [OF Some] by (intro event [OF ok1]) (simp add: listing_ok_def)
    with eq ok1 Some show ?thesis by simp
  qed
qed

lemma client_pending: "ok st \<Longrightarrow> ok (st\<lparr>st_pending := p, st_client := c\<rparr>)"
  using client [OF pending] by simp

lemma created_pons:
  assumes "ok st" "create_pons ev cx block tx rc lg st = (st1, e)"
  shows "ok st1"
proof (cases "pons_decode_create (ae_eth ev) (to_event_log lg) (pons_tx_of block tx rc)")
  case (Inl x)
  with assms show ?thesis by (simp add: create_pons_def)
next
  case dec: (Inr launch)
  show ?thesis
  proof (cases "accept_launch_category (ae_eth ev) (cx_db cx) (pl_token_address launch) (lv_category (pons_view launch)) (st_pending st)")
    case (Inl x)
    with assms dec show ?thesis by (simp add: create_pons_def)
  next
    case acc: (Inr a)
    obtain b pending where a: "a = (b, pending)" by (cases a)
    show ?thesis
    proof (cases b)
      case False
      with assms dec acc a show ?thesis by (simp add: create_pons_def)
    next
      case b: True
      obtain r c where md: "ae_metadata ev (pl_token_address launch) (bb_number block) (st_client st) = (r, c)"
        by (cases "ae_metadata ev (pl_token_address launch) (bb_number block) (st_client st)")
      have ok2: "ok (st\<lparr>st_pending := pending, st_client := c\<rparr>)" by (rule client_pending [OF assms(1)])
      show ?thesis
      proof (cases r)
        case (Inl x)
        with assms(2) dec acc a b md have "st1 = st\<lparr>st_pending := pending, st_client := c\<rparr>" by (simp add: create_pons_def)
        with ok2 show ?thesis by simp
      next
        case (Inr meta)
        define l where l: "l = launch\<lparr>pl_name := prefer_text (pl_name launch) (em_name meta),
                               pl_symbol := prefer_text (pl_symbol launch) (em_symbol meta)\<rparr>"
        define s2 where s2: "s2 = st\<lparr>st_pending := pending, st_client := c,
                 st_metadata := (st_metadata st)(pl_token_address launch \<mapsto> meta),
                 st_changes := (st_changes st)\<lparr>bc_pons := bc_pons (st_changes st) @ [l]\<rparr>\<rparr>"
        define reg where reg: "reg = \<lparr>cr_curve = pl_curve_address launch, cr_token = pl_token_address launch,
                      cr_quote = pl_pair_address launch, cr_token_decimals = em_decimals meta,
                      cr_quote_decimals = pl_pair_decimals launch\<rparr>"
        have ok3: "ok s2" using launches(1) [OF metadata [OF ok2]] by (simp add: s2)
        show ?thesis
        proof (cases "register_curve (ae_eth ev) reg (st_catalog s2)")
          case (Inl x)
          then have "register_curve (ae_eth ev) reg (st_catalog st) = Inl x" by (simp add: s2)
          then have "st1 = s2" using assms(2) dec acc a b md Inr by (simp add: create_pons_def Let_def l s2 reg)
          with ok3 show ?thesis by simp
        next
          case cat: (Inr cat)
          then have "register_curve (ae_eth ev) reg (st_catalog st) = Inr cat" by (simp add: s2)
          then have "st1 = add_launch_event ev cx tx lg (pons_view l) (em_decimals meta) (s2\<lparr>st_catalog := cat\<rparr>)"
            using assms(2) dec acc a b md Inr by (simp add: create_pons_def Let_def l s2 reg)
          with launch_event [OF curve [OF ok3 cat]] show ?thesis by simp
        qed
      qed
    qed
  qed
qed

lemma created_o1:
  assumes "ok st" "create_o1 ev cx block tx rc lg st = (st1, e)"
  shows "ok st1"
proof (cases "o1_decode_create (ae_eth ev) (to_event_log lg) (o1_tx_of block tx rc)")
  case (Inl x)
  with assms show ?thesis by (simp add: create_o1_def)
next
  case dec: (Inr launch)
  show ?thesis
  proof (cases "accept_launch_category (ae_eth ev) (cx_db cx) (oc_token_address launch) (lv_category (o1_crypto_view launch)) (st_pending st)")
    case (Inl x)
    with assms dec show ?thesis by (simp add: create_o1_def)
  next
    case acc: (Inr a)
    obtain b pending where a: "a = (b, pending)" by (cases a)
    show ?thesis
    proof (cases b)
      case False
      with assms dec acc a show ?thesis by (simp add: create_o1_def)
    next
      case b: True
      obtain r c where md: "ae_metadata ev (oc_token_address launch) (bb_number block) (st_client st) = (r, c)"
        by (cases "ae_metadata ev (oc_token_address launch) (bb_number block) (st_client st)")
      have ok2: "ok (st\<lparr>st_pending := pending, st_client := c\<rparr>)" by (rule client_pending [OF assms(1)])
      show ?thesis
      proof (cases r)
        case (Inl x)
        with assms(2) dec acc a b md have "st1 = st\<lparr>st_pending := pending, st_client := c\<rparr>" by (simp add: create_o1_def)
        with ok2 show ?thesis by simp
      next
        case (Inr meta)
        define l where l: "l = launch\<lparr>oc_name := prefer_text (oc_name launch) (em_name meta),
                               oc_symbol := prefer_text (oc_symbol launch) (em_symbol meta)\<rparr>"
        define s2 where s2: "s2 = st\<lparr>st_pending := pending, st_client := c,
                 st_metadata := (st_metadata st)(oc_token_address launch \<mapsto> meta),
                 st_changes := (st_changes st)\<lparr>bc_o1 := bc_o1 (st_changes st) @ [l]\<rparr>\<rparr>"
        define reg where reg: "reg = \<lparr>pr_pool_id = oc_pool_id launch, pr_token = oc_token_address launch,
                      pr_category = ''o1_crypto'', pr_quote = oc_quote_address launch, pr_token_decimals = em_decimals meta,
                      pr_quote_decimals = oc_quote_decimals launch\<rparr>"
        have ok3: "ok s2" using launches(2) [OF metadata [OF ok2]] by (simp add: s2)
        show ?thesis
        proof (cases "register_pool (ae_eth ev) reg (st_catalog s2)")
          case (Inl x)
          then have "register_pool (ae_eth ev) reg (st_catalog st) = Inl x" by (simp add: s2)
          then have "st1 = s2" using assms(2) dec acc a b md Inr by (simp add: create_o1_def Let_def l s2 reg)
          with ok3 show ?thesis by simp
        next
          case cat: (Inr cat)
          then have "register_pool (ae_eth ev) reg (st_catalog st) = Inr cat" by (simp add: s2)
          then have "st1 = add_launch_event ev cx tx lg (o1_crypto_view l) (em_decimals meta) (s2\<lparr>st_catalog := cat\<rparr>)"
            using assms(2) dec acc a b md Inr by (simp add: create_o1_def Let_def l s2 reg)
          with launch_event [OF pool [OF ok3 cat]] show ?thesis by simp
        qed
      qed
    qed
  qed
qed

lemma graduated:
  assumes "ok st" "graduate ev cx block tx rc lg st = (st1, e)"
  shows "ok st1"
proof (cases "decode_graduation (ae_eth ev) (to_event_log lg) (pons_tx_of block tx rc)")
  case (Inl x)
  with assms show ?thesis by (simp add: graduate_def)
next
  case dec: (Inr g)
  obtain r c where d: "pons_registration_data ev cx (gr_token g) (bb_number block) st = (r, c)"
    by (cases "pons_registration_data ev cx (gr_token g) (bb_number block) st")
  show ?thesis
  proof (cases r)
    case (Inl x)
    with assms dec d client show ?thesis by (auto simp: graduate_def)
  next
    case (Inr p)
    obtain launch n where p: "p = (launch, n)" by (cases p)
    define s2 where s2: "s2 = st\<lparr>st_client := c,
       st_changes := (st_changes st)\<lparr>bc_graduations := bc_graduations (st_changes st) @
         [\<lparr>pg_token = gr_token g, pg_pool_id = gr_pool_id g, pg_at = gr_graduated_at g\<rparr>]\<rparr>\<rparr>"
    have ok2: "ok s2" using launches(3) [OF client [OF assms(1)]] by (simp add: s2)
    define reg where reg: "reg = \<lparr>pr_pool_id = gr_pool_id g, pr_token = gr_token g, pr_category = ''pons'',
       pr_quote = pl_pair_address launch, pr_token_decimals = n, pr_quote_decimals = pl_pair_decimals launch\<rparr>"
    show ?thesis
    proof (cases "register_pool (ae_eth ev) reg (st_catalog s2)")
      case (Inl x)
      then have "register_pool (ae_eth ev) reg (st_catalog st) = Inl x" by (simp add: s2)
      then have "st1 = s2" using assms(2) dec d Inr p by (simp add: graduate_def Let_def s2 reg)
      with ok2 show ?thesis by simp
    next
      case cat: (Inr cat)
      then have "register_pool (ae_eth ev) reg (st_catalog st) = Inr cat" by (simp add: s2)
      then have "st1 = s2\<lparr>st_catalog := cat\<rparr>" using assms(2) dec d Inr p by (simp add: graduate_def Let_def s2 reg)
      with pool [OF ok2 cat] show ?thesis by simp
    qed
  qed
qed

lemma traded:
  assumes "ok st" "curve_trade ev cx block tx rc lg v st = (st1, e)"
  shows "ok st1"
  using assms fill by (auto simp: curve_trade_def split: option.splits sum.splits)

lemma swapped:
  assumes "ok st" "pool_swap ev cx block tx rc lg v st = (st1, e)"
  shows "ok st1"
  using assms fill [OF client] client by (auto simp: pool_swap_def split: option.splits sum.splits prod.splits)

lemma handled_log:
  assumes "ok st" "process_log ev cx block tx rc lg st = (st1, e)"
  shows "ok st1"
proof (cases "lg_removed lg \<or> lg_topics lg = []")
  case True
  with assms show ?thesis by (simp add: process_log_def)
next
  case go: False
  show ?thesis
  proof (cases "route (st_catalog st) (lg_address lg) (lg_topics lg ! 0) (lg_topics lg)")
    case None
    with go assms show ?thesis by (simp add: process_log_def)
  next
    case (Some h)
    consider "st1 = st" | "create_pons ev cx block tx rc lg st = (st1, e)" | "create_o1 ev cx block tx rc lg st = (st1, e)"
      | "graduate ev cx block tx rc lg st = (st1, e)" | "curve_trade ev cx block tx rc lg (rh_curve h) st = (st1, e)"
      | "pool_swap ev cx block tx rc lg (rh_pool h) st = (st1, e)"
      using go Some assms(2) by (cases "rh_kind h") (simp_all add: process_log_def split: if_splits)
    then show ?thesis
      using assms(1) created_pons [OF assms(1)] created_o1 [OF assms(1)] graduated [OF assms(1)] traded [OF assms(1)]
        swapped [OF assms(1)] by cases simp_all
  qed
qed

lemma handled_logs: "ok st \<Longrightarrow> process_logs ev cx block tx rc lgs st = (st1, e) \<Longrightarrow> ok st1"
proof (induction lgs arbitrary: st)
  case (Cons lg lgs)
  obtain st2 e2 where l: "process_log ev cx block tx rc lg st = (st2, e2)"
    by (cases "process_log ev cx block tx rc lg st")
  from handled_log [OF Cons.prems(1) l] l Cons show ?case by (cases e2) auto
qed simp

lemma handled_block: "ok st \<Longrightarrow> process_transactions ev cx block txs rcs st = (st1, e) \<Longrightarrow> ok st1"
proof (induction txs arbitrary: rcs st)
  case (Cons tx txs)
  show ?case
  proof (cases rcs)
    case Nil
    with Cons.prems show ?thesis by simp
  next
    case rcs: (Cons rc rest)
    obtain st2 e2 where l: "process_logs ev cx block tx rc (rc_logs rc) st = (st2, e2)"
      by (cases "process_logs ev cx block tx rc (rc_logs rc) st")
    from handled_logs [OF Cons.prems(1) l] l Cons rcs show ?thesis by (cases e2) (auto split: if_splits)
  qed
qed simp

end

section \<open>What a block leaves alone\<close>

definition same_rules :: "catalog \<Rightarrow> catalog \<Rightarrow> bool" where
  "same_rules c c' \<longleftrightarrow> cat_entries c' = cat_entries c \<and> cat_roles c' = cat_roles c"

definition catalog_kept :: "'c app_env \<Rightarrow> catalog \<Rightarrow> 'c scan \<Rightarrow> bool" where
  "catalog_kept ev c st \<longleftrightarrow> same_rules c (st_catalog st) \<and>
     (reachable_catalog (ae_eth ev) c \<longrightarrow> reachable_catalog (ae_eth ev) (st_catalog st))"

definition events_listed :: "'c app_env \<Rightarrow> block_ctx \<Rightarrow> 'c scan \<Rightarrow> bool" where
  "events_listed ev cx st \<longleftrightarrow> (listing_ok ev cx \<longrightarrow>
     (\<forall>v\<in>set (bc_events (st_changes st)). active_wallet (ae_eth ev) (cx_wallets cx) (we_wallet v) \<noteq> None))"

lemma register_rules: "register_curve E v c = Inr c' \<Longrightarrow> same_rules c c'" "register_pool E p c = Inr c' \<Longrightarrow> same_rules c c'"
  by (auto simp: register_curve_def register_pool_def same_rules_def res_simps)

lemma same_rules_trans: "same_rules a b \<Longrightarrow> same_rules b c \<Longrightarrow> same_rules a c"
  by (simp add: same_rules_def)

interpretation block_catalog: block_invariant ev cx "catalog_kept ev c" for ev cx c
proof
  fix st v q cat
  show "catalog_kept ev c (st\<lparr>st_catalog := cat\<rparr>)"
    if "catalog_kept ev c st" "register_curve (ae_eth ev) v (st_catalog st) = Inr cat"
    using that register_rules(1) [OF that(2)] reachable_catalog.curve by (auto simp: catalog_kept_def same_rules_def)
  show "catalog_kept ev c (st\<lparr>st_catalog := cat\<rparr>)"
    if "catalog_kept ev c st" "register_pool (ae_eth ev) q (st_catalog st) = Inr cat"
    using that register_rules(2) [OF that(2)] reachable_catalog.pool by (auto simp: catalog_kept_def same_rules_def)
qed (simp_all add: catalog_kept_def add_event_def)

interpretation block_events: block_invariant ev cx "events_listed ev cx" for ev cx
  by unfold_locales (auto simp: events_listed_def add_event_def)

lemma scan_catalog:
  assumes "scan_block ev block a = (st, e)"
  shows "same_rules (ap_catalog a) (st_catalog st)"
    "reachable_catalog (ae_eth ev) (ap_catalog a) \<Longrightarrow> reachable_catalog (ae_eth ev) (st_catalog st)"
proof -
  have "catalog_kept ev (ap_catalog a) (scan_start a)" by (simp add: catalog_kept_def scan_start_def same_rules_def)
  from block_catalog.handled_block [OF this assms [unfolded scan_block_def]]
  show "same_rules (ap_catalog a) (st_catalog st)"
    "reachable_catalog (ae_eth ev) (ap_catalog a) \<Longrightarrow> reachable_catalog (ae_eth ev) (st_catalog st)"
    by (simp_all add: catalog_kept_def)
qed

lemma scan_events:
  assumes "scan_block ev block a = (st, e)" "eth_ok (ae_eth ev)" "snapshot_ok (ap_wallets a)" "v \<in> set (bc_events (st_changes st))"
  shows "active_wallet (ae_eth ev) (ap_wallets a) (we_wallet v) \<noteq> None"
proof -
  have "events_listed ev (block_ctx_of ev a) (scan_start a)" by (simp add: events_listed_def scan_start_def)
  from block_events.handled_block [OF this assms(1) [unfolded scan_block_def]] assms(2-4) show ?thesis
    by (auto simp: events_listed_def listing_ok_def block_ctx_of_def)
qed

text \<open>Restoring touches the client and the registrations only, and starts from the database alone.\<close>

definition same_data :: "'c app \<Rightarrow> 'c app \<Rightarrow> bool" where
  "same_data a b \<longleftrightarrow> ap_db b = ap_db a \<and> ap_wallets b = ap_wallets a \<and> ap_feed b = ap_feed a \<and>
     ap_dirty b = ap_dirty a \<and> ap_sell_since b = ap_sell_since a \<and> ap_score_trigger b = ap_score_trigger a"

lemma rebuild_rules:
  assumes "rebuild_registrations E pools curves c = Inr c'"
  shows "same_rules c c'" "same_rules d c \<Longrightarrow> rebuild_registrations E pools curves d = Inr c'"
  using assms by (auto simp: rebuild_registrations_def same_rules_def res_simps)

lemma restore_facts:
  "same_data a (restore_registrations ev a)"
  "same_rules (ap_catalog a) (ap_catalog (restore_registrations ev a))"
  "reachable_catalog (ae_eth ev) (ap_catalog a) \<Longrightarrow> reachable_catalog (ae_eth ev) (ap_catalog (restore_registrations ev a))"
proof -
  obtain pools curves where l: "load_registrations (ap_db a) = (pools, curves)" by (cases "load_registrations (ap_db a)")
  obtain r c where e: "enrich_registration_decimals ev pools curves (ap_client a) = (r, c)"
    by (cases "enrich_registration_decimals ev pools curves (ap_client a)")
  let ?b = "restore_registrations ev a"
  have "same_data a ?b \<and> same_rules (ap_catalog a) (ap_catalog ?b) \<and>
    (reachable_catalog (ae_eth ev) (ap_catalog a) \<longrightarrow> reachable_catalog (ae_eth ev) (ap_catalog ?b))"
  proof (cases r)
    case (Inl x)
    with l e show ?thesis by (simp add: restore_registrations_def same_data_def same_rules_def)
  next
    case (Inr p)
    obtain pools1 curves1 where p: "p = (pools1, curves1)" by (cases p)
    show ?thesis
    proof (cases "rebuild_registrations (ae_eth ev) pools1 curves1 (ap_catalog a)")
      case (Inl x)
      with l e p Inr show ?thesis by (simp add: restore_registrations_def same_data_def same_rules_def)
    next
      case b: (Inr cat)
      with l e p Inr have "?b = a\<lparr>ap_client := c, ap_catalog := cat\<rparr>" by (simp add: restore_registrations_def)
      with rebuild_rules(1) [OF b] reachable_catalog.rebuild [OF _ b] show ?thesis by (simp add: same_data_def)
    qed
  qed
  then show "same_data a ?b" "same_rules (ap_catalog a) (ap_catalog ?b)"
    "reachable_catalog (ae_eth ev) (ap_catalog a) \<Longrightarrow> reachable_catalog (ae_eth ev) (ap_catalog ?b)" by blast+
qed

section \<open>One block\<close>

lemma process_block_cases:
  assumes "process_block ev block wm a0 = (a, r)" and "scan_block ev block (refresh_wallets ev a0) = (st, f)"
  obtains (failed) x where "r = Some x"
      "a = restore_registrations ev ((refresh_wallets ev a0)\<lparr>ap_client := st_client st, ap_catalog := st_catalog st\<rparr>)"
  | (committed) d result where "r = None" "f = None"
      "commit_block (ae_eth ev) (ae_fault ev) (st_changes st) (sync_of wm) (ap_db a0) = (d, Inr result)"
      "a = after_commit ev (st_prices st) result
        ((refresh_wallets ev a0)\<lparr>ap_client := st_client st, ap_catalog := st_catalog st, ap_db := d\<rparr>)"
proof (cases f)
  case (Some x)
  with assms show thesis by (intro failed [of x]) (simp_all add: process_block_def Let_def)
next
  case None
  have db: "ap_db (refresh_wallets ev a0) = ap_db a0" by (simp add: refresh_wallets_def)
  obtain d r' where c: "commit_block (ae_eth ev) (ae_fault ev) (st_changes st) (sync_of wm) (ap_db a0) = (d, r')"
    by (cases "commit_block (ae_eth ev) (ae_fault ev) (st_changes st) (sync_of wm) (ap_db a0)")
  show thesis
  proof (cases r')
    case (Inl x)
    with assms None c db show thesis by (intro failed [of x]) (simp_all add: process_block_def Let_def)
  next
    case (Inr result)
    with assms None c db show thesis by (intro committed [of d result]) (simp_all add: process_block_def Let_def)
  qed
qed

lemma mark_prices_facts:
  "ap_db (mark_prices E ps a) = ap_db a" "ap_wallets (mark_prices E ps a) = ap_wallets a"
  "ap_catalog (mark_prices E ps a) = ap_catalog a"
  "reachable_dirty E cap (ap_dirty a) \<Longrightarrow> reachable_dirty E cap (ap_dirty (mark_prices E ps a))"
proof -
  have "ap_db (mark_prices E ps a) = ap_db a \<and> ap_wallets (mark_prices E ps a) = ap_wallets a \<and>
    ap_catalog (mark_prices E ps a) = ap_catalog a \<and>
    (reachable_dirty E cap (ap_dirty a) \<longrightarrow> reachable_dirty E cap (ap_dirty (mark_prices E ps a)))"
    unfolding mark_prices_def
  proof (induction ps arbitrary: a)
    case (Cons x ps)
    obtain f p where x: "x = (f, p)" by (cases x)
    define q where q: "q = \<lparr>dp_token = f_token f, dp_tx = f_tx_hash f, dp_price = p, dp_block = f_block_number f,
       dp_at = f_chain_time f, dp_version = 0\<rparr>"
    have "reachable_dirty E cap (ap_dirty a) \<Longrightarrow> reachable_dirty E cap (fst (mark E (ap_db a) q (ap_dirty a)))"
      by (rule reachable_dirty.mark [OF _ prod.collapse [symmetric]])
    with Cons [of "a\<lparr>ap_dirty := fst (mark E (ap_db a) q (ap_dirty a))\<rparr>"] show ?case
      by (simp add: x q [symmetric])
  qed simp
  then show "ap_db (mark_prices E ps a) = ap_db a" "ap_wallets (mark_prices E ps a) = ap_wallets a"
    "ap_catalog (mark_prices E ps a) = ap_catalog a"
    "reachable_dirty E cap (ap_dirty a) \<Longrightarrow> reachable_dirty E cap (ap_dirty (mark_prices E ps a))" by blast+
qed

lemma request_score_facts:
  "ap_db (request_score_after n a) = ap_db a" "ap_wallets (request_score_after n a) = ap_wallets a"
  "ap_catalog (request_score_after n a) = ap_catalog a" "ap_dirty (request_score_after n a) = ap_dirty a"
  by (simp_all add: request_score_after_def Let_def)

lemma after_commit_facts:
  "ap_db (after_commit ev ps result a) = ap_db a" "ap_wallets (after_commit ev ps result a) = ap_wallets a"
  "reachable_catalog (ae_eth ev) (ap_catalog a) \<Longrightarrow> reachable_catalog (ae_eth ev) (ap_catalog (after_commit ev ps result a))"
  "reachable_dirty (ae_eth ev) cap (ap_dirty a) \<Longrightarrow> reachable_dirty (ae_eth ev) cap (ap_dirty (after_commit ev ps result a))"
proof -
  define a1 where a1: "a1 = (if bw_conflicts result \<noteq> [] then restore_registrations ev a else a)"
  define n where n: "n = int (length (filter (\<lambda>v. we_kind v = ''sell'') (bw_events result)))"
  define a2 where a2: "a2 = (if 0 < n then request_score_after n a1 else a1)"
  have eq: "after_commit ev ps result a = mark_prices (ae_eth ev) ps a2" by (simp add: after_commit_def Let_def a2 a1 n)
  have 1: "ap_db a1 = ap_db a" "ap_wallets a1 = ap_wallets a" "ap_dirty a1 = ap_dirty a"
    "reachable_catalog (ae_eth ev) (ap_catalog a) \<longrightarrow> reachable_catalog (ae_eth ev) (ap_catalog a1)"
    using restore_facts(1) [of a ev] restore_facts(3) [of ev a] by (simp_all add: a1 same_data_def)
  have 2: "ap_db a2 = ap_db a1" "ap_wallets a2 = ap_wallets a1" "ap_dirty a2 = ap_dirty a1" "ap_catalog a2 = ap_catalog a1"
    by (simp_all add: a2 request_score_facts)
  show "ap_db (after_commit ev ps result a) = ap_db a" by (simp add: eq mark_prices_facts(1) 1 2)
  show "ap_wallets (after_commit ev ps result a) = ap_wallets a" by (simp add: eq mark_prices_facts(2) 1 2)
  show "reachable_catalog (ae_eth ev) (ap_catalog (after_commit ev ps result a))"
    if "reachable_catalog (ae_eth ev) (ap_catalog a)"
    using that 1(4) by (simp add: eq mark_prices_facts(3) 2)
  show "reachable_dirty (ae_eth ev) cap (ap_dirty (after_commit ev ps result a))"
    if "reachable_dirty (ae_eth ev) cap (ap_dirty a)"
    using that 1 2 by (simp add: eq mark_prices_facts(4))
qed

lemma commit_block_stores:
  assumes "commit_block E fault ch wm d = (e, Inr r)"
  shows "load_watermark (ss_name wm) e = Some (ss_last_block wm, ss_last_hash wm)" "commit_block_tx E ch wm d = Inr (e, r)"
proof -
  show t: "commit_block_tx E ch wm d = Inr (e, r)"
    using assms by (auto simp: commit_block_def write_tx_def split: option.splits sum.splits)
  from t obtain d3 where "put_sync_state_tx wm d3 = Inr e" by (rule commit_block_tx_parts)
  then show "load_watermark (ss_name wm) e = Some (ss_last_block wm, ss_last_hash wm)" by (rule put_sync_state_load(1))
qed

lemma refresh_wallets_db: "ap_db (refresh_wallets ev a) = ap_db a"
  by (simp add: refresh_wallets_def)

lemma process_block_db:
  assumes "process_block ev block wm a0 = (a, r)"
  shows "r = Some x \<Longrightarrow> ap_db a = ap_db a0"
    "r = None \<Longrightarrow> load_watermark (wm_name wm) (ap_db a) = Some (wm_last_block wm, wm_last_hash wm)"
proof -
  obtain st f where s: "scan_block ev block (refresh_wallets ev a0) = (st, f)"
    by (cases "scan_block ev block (refresh_wallets ev a0)")
  have "(r = Some x \<longrightarrow> ap_db a = ap_db a0) \<and>
    (r = None \<longrightarrow> load_watermark (wm_name wm) (ap_db a) = Some (wm_last_block wm, wm_last_hash wm))"
    using assms s
  proof (cases rule: process_block_cases)
    case (failed y)
    from failed(2) restore_facts(1) [of "(refresh_wallets ev a0)\<lparr>ap_client := st_client st, ap_catalog := st_catalog st\<rparr>" ev]
    have "ap_db a = ap_db a0" by (simp add: same_data_def refresh_wallets_db)
    with failed(1) show ?thesis by simp
  next
    case (committed d result)
    with commit_block_stores(1) [OF committed(3)] show ?thesis by (simp add: after_commit_facts(1) sync_of_def)
  qed
  then show "r = Some x \<Longrightarrow> ap_db a = ap_db a0"
    "r = None \<Longrightarrow> load_watermark (wm_name wm) (ap_db a) = Some (wm_last_block wm, wm_last_hash wm)" by blast+
qed

section \<open>The handler behind the scanner\<close>

text \<open>The environment of a tick answers for each block number.\<close>

definition app_backend :: "(u64 \<Rightarrow> 'c app_env, 'c app) backend" where
  "app_backend = \<lparr>be_load = (\<lambda>name a. load_watermark name (ap_db a)),
     be_save = (\<lambda>wm a. case save_watermark_row None (wm_name wm) (wm_last_block wm) (wm_last_hash wm) (wm_updated_at wm) (ap_db a) of
        (_, Inl e) \<Rightarrow> Inl e | (d, Inr _) \<Rightarrow> Inr (a\<lparr>ap_db := d\<rparr>)),
     be_process = (\<lambda>env block wm a. process_block (env (bb_number block)) block wm a)\<rparr>"

lemma app_save:
  assumes "be_save app_backend wm a = Inr a'"
  shows "put_sync_state_tx (sync_of wm) (ap_db a) = Inr (ap_db a')" "a' = a\<lparr>ap_db := ap_db a'\<rparr>"
  using assms
  by (auto simp: app_backend_def save_watermark_row_def put_sync_state_def write_tx_def sync_of_def res_simps
      split: prod.splits sum.splits)

interpretation scanner: watermark_store app_backend
proof
  fix wm :: watermark and a a' :: "'c app" and env :: "u64 \<Rightarrow> 'c app_env" and b e name
  show "be_load app_backend (wm_name wm) a' = Some (wm_last_block wm, wm_last_hash wm)" if "be_save app_backend wm a = Inr a'"
    using put_sync_state_load(1) [OF app_save(1) [OF that]] by (simp add: app_backend_def sync_of_def)
  show "be_load app_backend (wm_name wm) a' = Some (wm_last_block wm, wm_last_hash wm)"
    if "be_process app_backend env b wm a = (a', None)"
    using process_block_db(2) [of "env (bb_number b)" b wm a a' None] that by (simp add: app_backend_def)
  show "be_load app_backend name a' = be_load app_backend name a" if "be_process app_backend env b wm a = (a', Some e)"
    using process_block_db(1) [of "env (bb_number b)" b wm a a' "Some e" e] that by (simp add: app_backend_def)
qed

end
