(* ===== verification/App_Scan.thy ===== *)
theory App_Scan
  imports App_Run
begin

text \<open>
  Properties of the block handler and of whole runs of the scanner over it: what a failed block
  leaves behind, whose events are recorded, and which blocks a run processes.
\<close>

section \<open>The wallets of recorded events\<close>

lemma commit_events_wallets:
  "\<lbrakk>commit_events E cs vs d = Inr (e, evs, ws); row \<in> set (db_events e)\<rbrakk> \<Longrightarrow>
   row \<in> set (db_events d) \<or> (\<exists>v\<in>set vs. normalize_address E (we_wallet v) = Inr (we_wallet row))"
proof (induction vs arbitrary: d evs ws)
  case (Cons v vs)
  from Cons.prems(1) show ?case
  proof (rule commit_events_Cons)
    assume "commit_events E cs vs d = Inr (e, evs, ws)"
    from Cons.IH [OF this Cons.prems(2)] show ?thesis by auto
  next
    fix w ws1 b d1 evs1 ws2 assume a: "prepare_event E v = Inr (w, ws1)" "insert_event_tx w d = Inr (b, d1)"
      "commit_events E cs vs (seen_active b w d1) = Inr (e, evs1, ws2)"
    have n: "normalize_address E (we_wallet v) = Inr (we_wallet w)"
      using a(1) by (auto simp: prepare_event_def Let_def res_simps split: prod.splits)
    have "set (db_events d1) \<subseteq> insert (event_row w) (set (db_events d))"
      using insert_event_tx_Inr(4,6) [OF a(2)] by (cases b) auto
    moreover have "we_wallet (event_row w) = we_wallet w" by (simp add: event_row_def)
    ultimately show ?thesis using Cons.IH [OF a(3) Cons.prems(2)] n by auto
  qed
qed simp

lemma commit_launches_events:
  assumes keeps: "\<And>l d e. detail l d = Inr e \<Longrightarrow> db_events e = db_events d"
  shows "commit_launches E view detail ls d = Inr (e, ins, cs) \<Longrightarrow> db_events e = db_events d"
proof (induction ls arbitrary: d ins cs)
  case (Cons l ls)
  from Cons.prems show ?case
  proof (rule commit_launches_Cons)
    fix t row d2 ins1 assume a: "detail l (d\<lparr>db_index := db_index d @ [row]\<rparr>) = Inr d2"
      "commit_launches E view detail ls d2 = Inr (e, ins1, cs)"
    from Cons.IH [OF a(2)] keeps [OF a(1)] show ?thesis by simp
  qed (use Cons.IH in blast)+
qed simp

lemma commit_block_wallets:
  assumes "commit_block_tx E ch wm d = Inr (e, r)" and "row \<in> set (db_events e)"
  shows "row \<in> set (db_events d) \<or> (\<exists>v\<in>set (bc_events ch). normalize_address E (we_wallet v) = Inr (we_wallet row))"
proof -
  from assms(1) obtain d1 p cs1 d2 o1 cs2 d3 evs ws where
    s: "commit_launches E pons_view insert_pons_row (bc_pons ch) d = Inr (d1, p, cs1)"
    "commit_launches E o1_crypto_view insert_o1_row (bc_o1 ch) d1 = Inr (d2, o1, cs2)"
    "commit_events E (cs1 @ cs2) (bc_events ch) (commit_graduations (bc_graduations ch) d2) = Inr (d3, evs, ws)"
    "put_sync_state_tx wm d3 = Inr e"
    by (rule commit_block_tx_parts)
  have "db_events d1 = db_events d" by (rule commit_launches_events [OF insert_rows_events(1) s(1)])
  moreover have "db_events d2 = db_events d1" by (rule commit_launches_events [OF insert_rows_events(2) s(2)])
  ultimately show ?thesis
    using commit_events_wallets [OF s(3), of row] put_sync_events [OF s(4)] assms(2) by (simp add: commit_graduations_eq)
qed

section \<open>One block\<close>

text \<open>C2. A block that fails leaves no trace. The database, the prices to show and the count of
  sells are as before, and when the registrations can be read again, the catalog is the one that
  the database alone gives: nothing that the failed block registered remains.\<close>

theorem failed_block_is_undone:
  assumes "process_block ev block wm a0 = (a, Some e)"
    and "scan_block ev block (refresh_wallets ev a0) = (st, f)"
    and "load_registrations (ap_db a0) = (pools, curves)"
    and "enrich_registration_decimals ev pools curves (st_client st) = (Inr (pools1, curves1), c)"
    and "rebuild_registrations (ae_eth ev) pools1 curves1 (ap_catalog a0) = Inr cat"
  shows "ap_db a = ap_db a0 \<and> ap_dirty a = ap_dirty a0 \<and> ap_sell_since a = ap_sell_since a0 \<and>
    ap_score_trigger a = ap_score_trigger a0 \<and> ap_catalog a = cat"
  using assms(1,2)
proof (cases rule: process_block_cases)
  case (failed x)
  let ?b = "(refresh_wallets ev a0)\<lparr>ap_client := st_client st, ap_catalog := st_catalog st\<rparr>"
  have "same_rules (ap_catalog a0) (st_catalog st)"
    using scan_catalog(1) [OF assms(2)] by (simp add: refresh_wallets_def)
  then have "rebuild_registrations (ae_eth ev) pools1 curves1 (st_catalog st) = Inr cat"
    by (intro rebuild_rules(2) [OF assms(5)]) (simp add: same_rules_def)
  then have "ap_catalog a = cat"
    using assms(3,4) by (simp add: failed(2) restore_registrations_def refresh_wallets_db)
  with restore_facts(1) [of ?b ev] show ?thesis by (simp add: failed(2) same_data_def refresh_wallets_def)
next
  case (committed d result)
  then show ?thesis by simp
qed

text \<open>C3. Only listed wallets are recorded: an event that processing a block added to the database is
  of an address that the list of active smart wallets has at that moment.\<close>

theorem only_listed_wallets_are_recorded:
  assumes "process_block ev block wm a0 = (a, r)" and "eth_ok (ae_eth ev)" and "snapshot_ok (ap_wallets a0)"
    and "row \<in> set (db_events (ap_db a))" and "row \<notin> set (db_events (ap_db a0))"
  shows "active_wallet (ae_eth ev) (ap_wallets a) (we_wallet row) \<noteq> None"
proof -
  obtain st f where s: "scan_block ev block (refresh_wallets ev a0) = (st, f)"
    by (cases "scan_block ev block (refresh_wallets ev a0)")
  have sn: "snapshot_ok (ap_wallets (refresh_wallets ev a0))"
    using refresh_ok [OF assms(3,2)] by (simp add: refresh_wallets_def)
  show ?thesis
    using assms(1) s
  proof (cases rule: process_block_cases)
    case (failed x)
    with assms(4,5) process_block_db(1) [OF assms(1) failed(1)] show ?thesis by simp
  next
    case (committed d result)
    have d: "ap_db a = d" and w: "ap_wallets a = ap_wallets (refresh_wallets ev a0)"
      by (simp_all add: committed(4) after_commit_facts(1,2))
    from commit_block_wallets [OF commit_block_stores(2) [OF committed(3)], of row] assms(4,5) d obtain v where
      v: "v \<in> set (bc_events (st_changes st))" "normalize_address (ae_eth ev) (we_wallet v) = Inr (we_wallet row)" by auto
    have "normalize_address (ae_eth ev) (we_wallet row) = Inr (we_wallet row)"
      by (rule normalize_address_id [OF assms(2) normalize_address_canonical [OF assms(2) v(2)]])
    with scan_events [OF s assms(2) sn v(1)] v(2) w show ?thesis by (simp add: active_wallet_def)
  qed
qed

text \<open>C7. Without a configured trace endpoint, a trade of a pool against native ETH whose trader is known, and which
  is the only swap of its receipt, ends the process: the field that is compared with nil holds a nil pointer, so the guard that should blank the
  amount is passed, and the call on the pointer panics.\<close>

theorem native_trade_without_trace_endpoint_panics:
  assumes "ae_trace ev = trace_client_of (ae_eth ev) [] remote"
    and "decode_swap (ae_eth ev) (ae_visit ev) (to_event_log lg) (v4_tx_of block tx rc) pool
      (protocol_addresses (ae_roles ev)) = Inr fill"
    and "f_quote fill = zero_address" and "f_user fill \<noteq> []" and "count_receipt_swaps rc = 1"
    and "normalize_hash (f_tx_hash fill) 32 = Inr h" and "normalize_address (ae_eth ev) (f_user fill) = Inr u"
    and "f_side fill = ''buy'' \<or> f_side fill = ''sell''"
  shows "pool_swap ev cx block tx rc lg (Some pool) st = (st, Some E_panic)"
proof -
  have "trace_native_amount (ae_eth ev) (\<lambda>_. Inl E_panic) (f_tx_hash fill) (f_user fill) (f_side fill) = Inl E_panic"
    using assms(6-8) by (auto simp: trace_native_amount_def)
  then have "enrich_native_quote ev (count_receipt_swaps rc) fill (st_client st) = (Inl E_panic, st_client st)"
    using assms(1,3-5) by (simp add: enrich_native_quote_def Let_def trace_client_of_def)
  with assms(2) show ?thesis by (simp add: pool_swap_def)
qed

section \<open>Whole runs\<close>

text \<open>C4. A run of the scanner, over any failures and retries, goes from the stored watermark to its last one
  through every block once and in order. It leaves out a block only by the skip of old history: at some
  tick the head was further than \<open>skip_history_lag\<close> ahead of a block \<open>l\<close> before the missing one, the run
  resumed ten blocks behind that head, and processed nothing between \<open>l\<close> and there. With the skip
  switched off nothing is missing. The head stays \<open>MaxBlocksPerTick\<close> below the top of 64 bits.\<close>

theorem only_skipped_blocks_are_missing:
  assumes "run cfg app_backend f w ws a = Inr (a', bs, ps)" and "pc_max_blocks_per_tick cfg \<noteq> 0"
    and "\<forall>x\<in>set ws. head_bounded cfg x"
    and "load_watermark watermark_name (ap_db a) = Some p" and "next_block p < 2 ^ 64"
  shows "\<exists>q. load_watermark watermark_name (ap_db a') = Some q \<and>
    covered cfg ws (next_block p) (next_block q) (map (\<lambda>b. unat (bb_number b)) bs) \<and>
    (pc_skip_history_lag cfg = 0 \<longrightarrow> map (\<lambda>b. unat (bb_number b)) bs = [next_block p..<next_block q])"
proof -
  from assms(1) obtain f' where l: "run_loop cfg app_backend f' ws first_backoff a = (a', bs, ps)"
    by (auto simp: run_def res_simps)
  have p: "be_load app_backend watermark_name a = Some p" using assms(4) by (simp add: app_backend_def)
  from scanner.loop_covered [OF l assms(2,3) p assms(5)] covered_without_skip show ?thesis
    by (fastforce simp: app_backend_def)
qed

text \<open>C5. The scanner catches up, with or without the skip of old history. While no tick fails and the head stays at
  or above \<open>h\<close>, the watermark never goes back, after enough ticks it is past \<open>h\<close>, and every tick before
  that adds at least its full allowance. With the skip switched on, the first tick already brings the watermark
  to within \<open>skip_history_lag\<close> blocks of \<open>h\<close>, or within ten where the lag is set lower.\<close>

theorem scanner_catches_up:
  assumes "quiet cfg app_backend f ws a" and "run_loop cfg app_backend f ws first_backoff a = (a', bs, ps)"
    and "pc_max_blocks_per_tick cfg \<noteq> 0"
    and "\<forall>w\<in>set ws. head_bounded cfg w \<and> (\<exists>head. bindE (wd_head w) parse_hex_uint64 = Inr head \<and> h \<le> unat head)"
    and "load_watermark watermark_name (ap_db a) = Some p" and "next_block p < 2 ^ 64"
  shows "\<exists>q. load_watermark watermark_name (ap_db a') = Some q \<and> next_block p \<le> next_block q \<and>
    min (h + 1) (next_block p + length ws * unat (pc_max_blocks_per_tick cfg)) \<le> next_block q \<and>
    (pc_skip_history_lag cfg \<noteq> 0 \<longrightarrow> ws \<noteq> [] \<longrightarrow> h \<le> next_block q + max (unat (pc_skip_history_lag cfg)) 10)"
proof -
  have "be_load app_backend watermark_name a = Some p" using assms(5) by (simp add: app_backend_def)
  from scanner.loop_catches_up [OF assms(1-4) this assms(6)] show ?thesis by (simp add: app_backend_def)
qed

section \<open>Witnesses\<close>

text \<open>A block with one purchase on a registered curve by an active wallet; the same block with a
  transaction that has no receipt.\<close>

definition ex_trade_log :: chain_log where
  "ex_trade_log = (let l = curve_trade_log topic_pons_curve_buy (cr_curve ex_curve_reg) (address_topic (ex_bytes 8))
       (ex_bytes 9) 5 6 (replicate 64 0) 4
     in \<lparr>lg_address = el_address l, lg_topics = el_topics l, lg_data = el_data l, lg_index = 4,
       lg_receipt_log_index = 4, lg_removed = False\<rparr>)"

definition ex_trade_block :: block_batch where
  "ex_trade_block = ex_block\<lparr>bb_receipts := map (\<lambda>r. r\<lparr>rc_logs := [ex_trade_log]\<rparr>) (bb_receipts ex_block)\<rparr>"

definition ex_app :: "unit app" where
  "ex_app = \<lparr>ap_db = empty_db\<lparr>db_wallets := [ex_wallet_row\<lparr>sw_address := address_text (ex_bytes 9)\<rparr>]\<rparr>,
     ap_catalog = (add_entries default_entries empty_catalog)\<lparr>cat_curves := [cr_curve ex_curve_reg \<mapsto> ex_curve_reg]\<rparr>, ap_wallets = new_snapshot,
     ap_feed = \<lparr>fd_poll = second, fd_ttl = second, fd_stale = second, fd_price = None, fd_fetched_at = zero_time,
       fd_last_failed = False\<rparr>,
     ap_dirty = \<lparr>ds_cap = 1, ds_items = [], ds_order = [], ds_next = 0\<rparr>, ap_client = (), ap_sell_since = 0,
     ap_score_trigger = False\<rparr>"

definition ex_app_env :: "unit app_env" where
  "ex_app_env = \<lparr>ae_eth = eth_plain, ae_float = Some, ae_visit = (\<lambda>n. n), ae_roles = [],
     ae_metadata = (\<lambda>_ _ c. (Inl E_metadata, c)), ae_head = (\<lambda>c. (Inr 9, c)), ae_trace = None,
     ae_wallets_fault = None, ae_reload = second, ae_now = 5, ae_fault = None\<rparr>"

definition ex_failing_block :: block_batch where
  "ex_failing_block = ex_trade_block\<lparr>bb_transactions := bb_transactions ex_block @ bb_transactions ex_block\<rparr>"
lemma ex_trade: "case process_block ex_app_env ex_trade_block ex_watermark ex_app of (a, r) \<Rightarrow>
   r = None \<and> map (\<lambda>v. (we_kind v, we_wallet v)) (db_events (ap_db a)) = [(''buy'', address_text (ex_bytes 9))]"
  by code_simp

lemma ex_failure: "snd (process_block ex_app_env ex_failing_block ex_watermark ex_app) = Some E_receipts"
  by code_simp

theorem failed_block_is_undone_witness:
  "ap_db (fst (process_block ex_app_env ex_failing_block ex_watermark ex_app)) = ap_db ex_app \<and>
   cat_curves (ap_catalog (fst (process_block ex_app_env ex_failing_block ex_watermark ex_app))) = Map.empty"
proof -
  obtain a where p: "process_block ex_app_env ex_failing_block ex_watermark ex_app = (a, Some E_receipts)"
    using ex_failure by (metis prod.collapse)
  obtain st f where s: "scan_block ex_app_env ex_failing_block (refresh_wallets ex_app_env ex_app) = (st, f)"
    by (cases "scan_block ex_app_env ex_failing_block (refresh_wallets ex_app_env ex_app)")
  have l: "load_registrations (ap_db ex_app) = ([], [])" by code_simp
  have e: "enrich_registration_decimals ex_app_env [] [] (st_client st) = (Inr ([], []), st_client st)"
    by (simp add: enrich_registration_decimals_def ex_app_env_def)
  have r: "rebuild_registrations (ae_eth ex_app_env) [] [] (ap_catalog ex_app) =
      Inr ((ap_catalog ex_app)\<lparr>cat_pools := Map.empty, cat_curves := Map.empty\<rparr>)"
    by (simp add: rebuild_registrations_def)
  from failed_block_is_undone [OF p s l e r] p show ?thesis by simp
qed

theorem only_listed_wallets_are_recorded_witness:
  "\<exists>a row. process_block ex_app_env ex_trade_block ex_watermark ex_app = (a, None) \<and>
     db_events (ap_db a) = [row] \<and> we_kind row = ''buy'' \<and> active_wallet eth_plain (ap_wallets a) (we_wallet row) \<noteq> None"
proof -
  from ex_trade obtain a row where p: "process_block ex_app_env ex_trade_block ex_watermark ex_app = (a, None)"
    "db_events (ap_db a) = [row]" "we_kind row = ''buy''" by (auto split: prod.splits)
  have "snapshot_ok (ap_wallets ex_app)" by (simp add: ex_app_def new_snapshot_ok)
  moreover have "row \<notin> set (db_events (ap_db ex_app))" by (simp add: ex_app_def empty_db_def)
  ultimately have "active_wallet (ae_eth ex_app_env) (ap_wallets a) (we_wallet row) \<noteq> None"
    by (intro only_listed_wallets_are_recorded [OF p(1)]) (simp_all add: p(2) ex_app_env_def eth_plain_ok)
  with p show ?thesis by (auto simp: ex_app_env_def)
qed

text \<open>It stopped after block 2; the head is at 17, so the next tick resumes at block 7.\<close>

definition ex_stopped_app :: "unit app" where
  "ex_stopped_app = ex_app\<lparr>ap_db := (ap_db ex_app)\<lparr>db_sync := [\<lparr>ss_name = watermark_name, ss_last_block = 2,
     ss_last_hash = ex_hash CHR ''b'', ss_updated_at = 0\<rparr>]\<rparr>\<rparr>"

definition ex_app_world :: "(u64 \<Rightarrow> unit app_env) world" where
  "ex_app_world = \<lparr>wd_head = Inr ''0x11'', wd_node = ex_node, wd_hash_at = (\<lambda>q. Inl E_block), wd_load_error = None,
     wd_save_error = (\<lambda>wm. None), wd_now = 0, wd_env = (\<lambda>_. ex_app_env)\<rparr>"

definition ex_skip_config :: poller_config where
  "ex_skip_config = ex_config\<lparr>pc_max_blocks_per_tick := 1, pc_skip_history_lag := 12\<rparr>"

lemma ex_poll: "case poll_once ex_skip_config app_backend ex_fetcher ex_app_world ex_stopped_app of (a, bs, e) \<Rightarrow>
    map (\<lambda>b. unat (bb_number b)) bs = [7] \<and> e = None"
  by code_simp

lemma ex_world_head: "bindE (wd_head ex_app_world) parse_hex_uint64 = Inr 17"
  by code_simp

lemma ex_head: "\<forall>w\<in>set [ex_app_world]. head_bounded ex_skip_config w \<and>
    (\<exists>head. bindE (wd_head w) parse_hex_uint64 = Inr head \<and> 17 \<le> unat head)"
  using ex_world_head by (simp add: head_bounded_def ex_skip_config_def)

lemma ex_loaded: "load_watermark watermark_name (ap_db ex_stopped_app) = Some (2, ex_hash CHR ''b'')"
  by (simp add: ex_stopped_app_def load_watermark_def get_sync_state_def)

lemma ex_next: "next_block (2, ex_hash CHR ''b'') = 3"
  by (simp add: ex_hash_def)

theorem only_skipped_blocks_are_missing_witness:
  "\<exists>a bs ps q. run ex_skip_config app_backend ex_fetcher ex_app_world [ex_app_world] ex_stopped_app = Inr (a, bs, ps) \<and>
     load_watermark watermark_name (ap_db a) = Some q \<and>
     covered ex_skip_config [ex_app_world] 3 (next_block q) (map (\<lambda>b. unat (bb_number b)) bs)"
proof -
  have "is_ok (run ex_skip_config app_backend ex_fetcher ex_app_world [ex_app_world] ex_stopped_app)"
    using ex_world_head by (simp add: run_def)
  then obtain a bs ps where r: "run ex_skip_config app_backend ex_fetcher ex_app_world [ex_app_world] ex_stopped_app = Inr (a, bs, ps)"
    by (auto simp: is_ok_def split: sum.splits)
  have m: "pc_max_blocks_per_tick ex_skip_config \<noteq> 0" "\<forall>x\<in>set [ex_app_world]. head_bounded ex_skip_config x" "(3 :: nat) < 2 ^ 64"
    using ex_head by (simp_all add: ex_skip_config_def)
  from only_skipped_blocks_are_missing [OF r m(1,2) ex_loaded, unfolded ex_next, OF m(3)] r show ?thesis by blast
qed

theorem scanner_catches_up_witness:
  "\<exists>q. load_watermark watermark_name (ap_db (fst (run_loop ex_skip_config app_backend ex_fetcher [ex_app_world] first_backoff
      ex_stopped_app))) = Some q \<and> 5 \<le> next_block q"
proof -
  have q: "quiet ex_skip_config app_backend ex_fetcher [ex_app_world] ex_stopped_app"
    using ex_poll by (auto split: prod.splits)
  obtain a bs ps where r: "run_loop ex_skip_config app_backend ex_fetcher [ex_app_world] first_backoff ex_stopped_app = (a, bs, ps)"
    by (metis prod_cases3)
  have c: "pc_max_blocks_per_tick ex_skip_config \<noteq> 0" "pc_skip_history_lag ex_skip_config = 12" "(3 :: nat) < 2 ^ 64"
    by (simp_all add: ex_skip_config_def)
  from scanner_catches_up [OF q r c(1) ex_head ex_loaded, unfolded ex_next c(2), OF c(3)] obtain q' where
    "load_watermark watermark_name (ap_db a) = Some q'" "17 \<le> next_block q' + max (unat (12 :: u64)) 10" by auto
  with r show ?thesis by (auto simp del: next_block.simps run_loop.simps)
qed

text \<open>A purchase against ETH in a block of an indexer without a trace endpoint.\<close>

definition ex_native_env :: "unit app_env" where
  "ex_native_env = ex_app_env\<lparr>ae_trace := trace_client_of eth_plain [] (\<lambda>_ _ _ c. (Inl E_trace, c)),
     ae_roles := [(pool_manager, RolePoolManager)]\<rparr>"

definition ex_chain_log :: "event_log \<Rightarrow> chain_log" where
  "ex_chain_log l = \<lparr>lg_address = el_address l, lg_topics = el_topics l, lg_data = el_data l, lg_index = el_log_index l,
     lg_receipt_log_index = el_log_index l, lg_removed = False\<rparr>"

definition ex_native_receipt :: receipt where
  "ex_native_receipt = (hd (bb_receipts ex_block))\<lparr>rc_logs :=
     [ex_chain_log (ex_transfer_log Venue_V4fill.ex_token pool_manager ex_buyer [3, 132]),
      ex_chain_log (ex_swap_log [252, 124] [0, 50] 3)]\<rparr>"

theorem native_trade_without_trace_endpoint_panics_witness:
  "\<forall>cx st. pool_swap ex_native_env cx ex_block (hd (bb_transactions ex_block)) ex_native_receipt
     (ex_chain_log (ex_swap_log [252, 124] [0, 50] 3)) (Some (ex_pool\<lparr>pr_quote := zero_address\<rparr>)) st = (st, Some E_panic)"
proof -
  let ?lg = "ex_chain_log (ex_swap_log [252, 124] [0, 50] 3)"
  let ?tx = "hd (bb_transactions ex_block)"
  have "case decode_swap (ae_eth ex_native_env) (ae_visit ex_native_env) (to_event_log ?lg)
      (v4_tx_of ex_block ?tx ex_native_receipt) (ex_pool\<lparr>pr_quote := zero_address\<rparr>)
      (protocol_addresses (ae_roles ex_native_env)) of
        Inl _ \<Rightarrow> False
      | Inr fill \<Rightarrow> f_quote fill = zero_address \<and> f_user fill = ex_buyer \<and> f_tx_hash fill = ex_hash CHR ''c'' \<and> f_side fill = ''buy''"
    by code_simp
  then obtain fill where d: "decode_swap (ae_eth ex_native_env) (ae_visit ex_native_env) (to_event_log ?lg)
      (v4_tx_of ex_block ?tx ex_native_receipt) (ex_pool\<lparr>pr_quote := zero_address\<rparr>)
      (protocol_addresses (ae_roles ex_native_env)) = Inr fill"
    "f_quote fill = zero_address" "f_user fill = ex_buyer" "f_tx_hash fill = ex_hash CHR ''c''" "f_side fill = ''buy''"
    by (auto split: sum.splits)
  have n: "normalize_hash (f_tx_hash fill) 32 = Inr (ex_hash CHR ''c'')" "normalize_address (ae_eth ex_native_env) (f_user fill) = Inr ex_buyer"
    unfolding d(3,4) by code_simp+
  have c: "count_receipt_swaps ex_native_receipt = 1" by code_simp
  have t: "ae_trace ex_native_env = trace_client_of (ae_eth ex_native_env) [] (\<lambda>_ _ _ c. (Inl E_trace, c))"
    by (simp add: ex_native_env_def ex_app_env_def)
  show ?thesis
    by (intro allI, rule native_trade_without_trace_endpoint_panics [OF t d(1,2) _ c n]) (simp_all add: d ex_buyer_def)
qed

end
