(* ===== verification/Score_Recalc.thy ===== *)
theory Score_Recalc
  imports Store_Invariant
begin

text \<open>
  \<open>internal/score/score.go\<close>: the samples of a wallet from its stored trades, and the
  recalculation of all scores. \<open>range\<close> goes through the map of tokens in the order \<open>visit\<close>.
\<close>

section \<open>Samples\<close>

text \<open>\<open>big.Rat.SetString\<close> on the texts that \<open>RatString\<close> writes: a decimal integer or a fraction.\<close>

definition rat_of_text :: "string \<Rightarrow> rat option" where
  "rat_of_text s =
     (case split_on CHR ''/'' s of
        [a] \<Rightarrow> map_option of_int (parse_big 10 a)
      | [a, b] \<Rightarrow> (case (parse_big 10 a, parse_big 10 b) of
          (Some n, Some d) \<Rightarrow> if d = 0 then None else Some (of_int n / of_int d)
        | _ \<Rightarrow> None)
      | _ \<Rightarrow> None)"

definition fifo_of :: "score_event \<Rightarrow> fifo_event" where
  "fifo_of e = \<lparr>fe_id = se_id e, fe_direction = se_direction e, fe_quantity_raw = se_quantity_raw e,
     fe_decimals = se_token_decimals e, fe_price_usd = se_price_usd e\<rparr>"

text \<open>\<open>times[result.EventID]\<close>: the last event of an id counts.\<close>

definition time_of_event :: "score_event list \<Rightarrow> string \<Rightarrow> time" where
  "time_of_event events i =
     (case map_of (rev (map (\<lambda>e. (se_id e, se_chain_time e)) events)) i of None \<Rightarrow> zero_time | Some t \<Rightarrow> t)"

definition token_samples :: "to_float \<Rightarrow> score_event list \<Rightarrow> score_sample list res" where
  "token_samples F events =
     bindE (replay_fifo (map fifo_of events)) (\<lambda>results.
       mapE (\<lambda>r. case rat_of_text (sr_matched_pnl r) of
               None \<Rightarrow> Inl E_number
             | Some pnl \<Rightarrow> Inr \<lparr>sp_profit_usd = float_of F pnl, sp_chain_time = time_of_event events (sr_event_id r)\<rparr>)
         (filter (\<lambda>r. \<not> sr_matched_qty r \<le> 0) results))"

definition samples_from_events :: "to_float \<Rightarrow> (string list \<Rightarrow> string list) \<Rightarrow> score_event list \<Rightarrow> score_sample list res" where
  "samples_from_events F visit events =
     bindE (mapE (\<lambda>t. token_samples F (filter (\<lambda>e. se_token e = t) events)) (visit (remdups (map se_token events))))
       (\<lambda>samples. Inr (concat samples))"

section \<open>The recalculation\<close>

text \<open>
  What the recalculation meets: failed reads and writes of the database, by the position of the
  wallet in the list, and what other goroutines write before its turn.
\<close>

record score_env =
  sv_eth :: eth_common
  sv_float :: to_float
  sv_tanh :: "rat \<Rightarrow> rat"
  sv_shortest :: "rat \<Rightarrow> rat"
  sv_visit :: "string list \<Rightarrow> string list"
  sv_load_fault :: "err option"
  sv_read_fault :: "nat \<Rightarrow> err option"
  sv_write_fault :: "nat \<Rightarrow> err option"
  sv_meanwhile :: "nat \<Rightarrow> db \<Rightarrow> db"
  sv_now :: time

definition recalculate_wallet :: "score_env \<Rightarrow> nat \<Rightarrow> smart_wallet \<Rightarrow> db \<Rightarrow> db \<times> err option" where
  "recalculate_wallet sv i w d =
     (case (case sv_read_fault sv i of Some e \<Rightarrow> Inl e | None \<Rightarrow> score_events (sv_eth sv) (sv_shortest sv) (sw_address w) d) of
        Inl e \<Rightarrow> (d, Some e)
      | Inr events \<Rightarrow>
     (case samples_from_events (sv_float sv) (sv_visit sv) events of
        Inl e \<Rightarrow> (d, Some e)
      | Inr samples \<Rightarrow>
          (let computed = compute_score (sv_float sv) (sv_tanh sv) samples (sv_now sv);
               result = (if \<not> sc_scored computed then computed\<lparr>sc_level := ''D''\<rparr> else computed)
           in case update_wallet_score (sv_eth sv) (sv_write_fault sv i) (sw_address w) result (sv_now sv) d of
                (d1, Inl e) \<Rightarrow> (d1, Some e)
              | (d1, Inr _) \<Rightarrow> (d1, None))))"

definition keep_first :: "err option \<Rightarrow> err option \<Rightarrow> err option" where
  "keep_first current new = (if current \<noteq> None then current else new)"

fun recalculate_wallets :: "score_env \<Rightarrow> nat \<Rightarrow> smart_wallet list \<Rightarrow> err option \<Rightarrow> db \<Rightarrow> db \<times> err option" where
  "recalculate_wallets sv i [] first d = (d, first)"
| "recalculate_wallets sv i (w # ws) first d =
     (case recalculate_wallet sv i w (sv_meanwhile sv i d) of
        (d1, e) \<Rightarrow> recalculate_wallets sv (i + 1) ws (keep_first first e) d1)"

definition recalculate_all :: "score_env \<Rightarrow> db \<Rightarrow> db \<times> err option" where
  "recalculate_all sv d =
     (case sv_load_fault sv of
        Some e \<Rightarrow> (d, Some e)
      | None \<Rightarrow> recalculate_wallets sv 0 (load_smart_wallets d) None d)"

section \<open>Fractions\<close>

lemma dec_of_nat_no_slash: "CHR ''/'' \<notin> set (dec_of_nat n)"
proof
  assume "CHR ''/'' \<in> set (dec_of_nat n)"
  moreover have "list_all is_dec_char (dec_of_nat n)" using dec_of_nat_digits by blast
  ultimately have "is_dec_char CHR ''/''" by (auto simp: list_all_iff)
  then show False by (simp add: is_dec_char_def char_le_iff)
qed

lemma dec_of_int_no_slash: "CHR ''/'' \<notin> set (dec_of_int i)"
  using dec_of_nat_no_slash by (simp add: dec_of_int_def)

lemma split_on_absent: "c \<notin> set s \<Longrightarrow> split_on c s = [s]"
  by (induction s) auto

lemma split_on_once: "\<lbrakk>c \<notin> set s; c \<notin> set t\<rbrakk> \<Longrightarrow> split_on c (s @ c # t) = [s, t]"
  by (induction s) (auto simp: split_on_absent)

lemma rat_of_text_rat_string: "rat_of_text (rat_string r) = Some r"
proof -
  obtain n d where q: "quotient_of r = (n, d)" by (cases "quotient_of r")
  then have r: "r = of_int n / of_int d" by (rule quotient_of_div)
  have d: "0 < d" using quotient_of_denom_pos [OF q] .
  have t: "rat_string r = (if d = 1 then dec_of_int n else dec_of_int n @ CHR ''/'' # dec_of_int d)"
    by (simp add: rat_string_def q)
  show ?thesis
  proof (cases "d = 1")
    case True
    then have "rat_string r = dec_of_int n" "r = of_int n" using t r by simp_all
    then show ?thesis unfolding rat_of_text_def by (simp add: split_on_absent dec_of_int_no_slash parse_dec_of_int)
  next
    case False
    then have "rat_string r = dec_of_int n @ CHR ''/'' # dec_of_int d" using t by simp
    with d r show ?thesis unfolding rat_of_text_def by (simp add: split_on_once dec_of_int_no_slash parse_dec_of_int)
  qed
qed

section \<open>The order of the tokens\<close>

lemma mapE_fails: "(\<exists>e. mapE f xs = Inl e) \<longleftrightarrow> (\<exists>x\<in>set xs. \<exists>e. f x = Inl e)"
proof (induction xs)
  case (Cons x xs)
  then show ?case by (cases "f x"; cases "mapE f xs") auto
qed simp

lemma mapE_perm:
  assumes "mapE f xs = Inr ys" "mset xs' = mset xs"
  shows "\<exists>ys'. mapE f xs' = Inr ys' \<and> mset (concat ys') = mset (concat ys)"
proof -
  have "\<forall>x\<in>set xs. \<exists>y. f x = Inr y" using assms(1) mapE_fails [of f xs] by (metis sum.exhaust Inl_Inr_False)
  then have all: "\<forall>x\<in>set xs'. \<exists>y. f x = Inr y" using mset_eq_setD [OF assms(2)] by blast
  then obtain ys' where ys': "mapE f xs' = Inr ys'" using mapE_fails [of f xs'] by (metis sum.exhaust Inl_Inr_False)
  have c: "mset (concat zs) = (\<Sum>x\<in>#mset ws. mset (projr (f x)))" if "mapE f ws = Inr zs" for ws zs
    using that by (induction ws arbitrary: zs) (auto simp: res_simps)
  show ?thesis using ys' c [OF ys'] c [OF assms(1)] assms(2) by simp
qed

text \<open>Counts of the samples do not depend on their order.\<close>

lemma length_filter_mset: "mset xs = mset ys \<Longrightarrow> length (filter P xs) = length (filter P ys)"
  by (metis mset_filter size_mset)

section \<open>The rows that a recalculation writes\<close>

definition wallet_result :: "score_env \<Rightarrow> db \<Rightarrow> smart_wallet \<Rightarrow> score_result res" where
  "wallet_result sv d w =
     bindE (score_events (sv_eth sv) (sv_shortest sv) (sw_address w) d) (\<lambda>events.
     bindE (samples_from_events (sv_float sv) (sv_visit sv) events) (\<lambda>samples.
       let computed = compute_score (sv_float sv) (sv_tanh sv) samples (sv_now sv)
       in Inr (if samples = [] then computed\<lparr>sc_level := ''D''\<rparr> else computed)))"

definition scored_row :: "score_env \<Rightarrow> score_result \<Rightarrow> smart_wallet \<Rightarrow> smart_wallet" where
  "scored_row sv r w = w\<lparr>sw_score := the (score_column (sc_score r)), sw_score_win_rate := nullable (sc_win_rate r),
     sw_score_profit_usd := nullable (sc_profit_usd r), sw_score_sample_n := sc_sample_n r,
     sw_level := (if sw_level_locked w then sw_level w else sc_level r), sw_updated_at := rfc3339 (sv_now sv)\<rparr>"

text \<open>The result of a wallet that is stored: there is one, and its score fits the column.\<close>

definition storable_result :: "score_env \<Rightarrow> db \<Rightarrow> smart_wallet \<Rightarrow> score_result option" where
  "storable_result sv d w =
     (case wallet_result sv d w of Inl _ \<Rightarrow> None
      | Inr r \<Rightarrow> if score_column (sc_score r) = None then None else Some r)"

definition rescored :: "score_env \<Rightarrow> db \<Rightarrow> smart_wallet \<Rightarrow> smart_wallet" where
  "rescored sv d w = (case storable_result sv d w of None \<Rightarrow> w | Some r \<Rightarrow> scored_row sv r w)"

definition canonical_wallets :: "db \<Rightarrow> bool" where
  "canonical_wallets d \<longleftrightarrow> distinct (map sw_address (db_wallets d)) \<and>
     (\<forall>w\<in>set (db_wallets d). canonical_address (sw_address w))"

lemma compute_score_scored: "sc_scored (compute_score F T samples now) \<longleftrightarrow> samples \<noteq> []"
  by (simp add: compute_score_def Let_def)

lemma score_level_range: "score_level x \<in> {''S'', ''A'', ''B'', ''C'', ''D''}"
  by (simp add: score_level_def)

lemma wallet_result_level: "wallet_result sv d w = Inr r \<Longrightarrow> sc_level r \<in> {''S'', ''A'', ''B'', ''C'', ''D''}"
  by (auto simp: wallet_result_def res_simps Let_def compute_score_def score_level_def split: if_splits)

lemma score_events_wallets: "score_events E sh a (d\<lparr>db_wallets := ws\<rparr>) = score_events E sh a d"
  by (simp add: score_events_def trades_of_def)

lemma wallet_result_wallets: "wallet_result sv (d\<lparr>db_wallets := ws\<rparr>) = wallet_result sv d"
  by (simp add: wallet_result_def score_events_wallets fun_eq_iff)

lemma storable_wallets: "storable_result sv (d\<lparr>db_wallets := ws\<rparr>) = storable_result sv d"
  by (simp add: storable_result_def wallet_result_wallets fun_eq_iff)

lemma storable_address: "sw_address v = sw_address w \<Longrightarrow> storable_result sv d v = storable_result sv d w"
  by (simp add: storable_result_def wallet_result_def)

lemma rescored_address [simp]: "sw_address (rescored sv d v) = sw_address v"
  by (simp add: rescored_def scored_row_def split: option.split)

definition undisturbed :: "score_env \<Rightarrow> bool" where
  "undisturbed sv \<longleftrightarrow> sv_load_fault sv = None \<and> sv_read_fault sv = (\<lambda>_. None) \<and> sv_write_fault sv = (\<lambda>_. None) \<and>
     sv_meanwhile sv = (\<lambda>_ d. d)"

definition failure :: "score_env \<Rightarrow> db \<Rightarrow> smart_wallet \<Rightarrow> err option" where
  "failure sv d w = (case wallet_result sv d w of Inl e \<Rightarrow> Some e
     | Inr r \<Rightarrow> if score_column (sc_score r) = None then Some (E_store 1) else None)"

lemma recalculate_wallet_eq:
  assumes "undisturbed sv"
  shows "recalculate_wallet sv i w d =
    (case wallet_result sv d w of Inl e \<Rightarrow> (d, Some e)
     | Inr r \<Rightarrow> (case update_wallet_score (sv_eth sv) None (sw_address w) r (sv_now sv) d of
         (d1, Inl e) \<Rightarrow> (d1, Some e) | (d1, Inr _) \<Rightarrow> (d1, None)))"
proof -
  note [simp] = assms [unfolded undisturbed_def]
  show ?thesis
  proof (cases "score_events (sv_eth sv) (sv_shortest sv) (sw_address w) d")
    case (Inl e)
    then show ?thesis by (simp add: recalculate_wallet_def wallet_result_def)
  next
    case (Inr events)
    then show ?thesis
      by (cases "samples_from_events (sv_float sv) (sv_visit sv) events")
        (simp_all add: recalculate_wallet_def wallet_result_def Let_def compute_score_scored)
  qed
qed

lemma recalculate_wallet_step:
  assumes "eth_ok (sv_eth sv)" "undisturbed sv" "canonical_wallets d" "w \<in> set (db_wallets d)"
    and "map sw_address ws = map sw_address (db_wallets d)"
  shows "recalculate_wallet sv i w (d\<lparr>db_wallets := ws\<rparr>) =
    (d\<lparr>db_wallets := map (\<lambda>v. if sw_address v = sw_address w then rescored sv d v else v) ws\<rparr>, failure sv d w)"
proof -
  let ?a = "sw_address w"
  have ca: "canonical_address ?a" using assms(3,4) by (simp add: canonical_wallets_def)
  have n: "normalize_address (sv_eth sv) ?a = Inr ?a" by (rule normalize_address_id [OF assms(1) ca])
  have addresses: "sw_address ` set ws = sw_address ` set (db_wallets d)"
    using arg_cong [OF assms(5), of set] by simp
  then have canonical: "canonical_address (sw_address v)" if "v \<in> set ws" for v
    using that assms(3) unfolding canonical_wallets_def by (metis image_eqI image_iff)
  have fold: "equal_fold (sw_address v) ?a \<longleftrightarrow> sw_address v = ?a" if "v \<in> set ws" for v
    using canonical [OF that] ca by (simp add: equal_fold_def)
  obtain v0 where v0: "v0 \<in> set ws" "sw_address v0 = ?a" using addresses assms(4) by (metis image_eqI image_iff)
  have idle: "map (\<lambda>v. if sw_address v = ?a then rescored sv d v else v) ws = ws" if "storable_result sv d w = None"
  proof -
    have "rescored sv d v = v" if a: "sw_address v = ?a" for v
      using storable_address [OF a, of sv d] \<open>storable_result sv d w = None\<close> by (simp add: rescored_def)
    then show ?thesis by (intro map_idI) simp
  qed
  show ?thesis
  proof (cases "wallet_result sv d w")
    case (Inl e)
    then have "map (\<lambda>v. if sw_address v = ?a then rescored sv d v else v) ws = ws"
      by (intro idle) (simp add: storable_result_def)
    with Inl show ?thesis
      by (simp add: recalculate_wallet_eq [OF assms(2)] wallet_result_wallets failure_def)
  next
    case (Inr r)
    show ?thesis
    proof (cases "score_column (sc_score r)")
      case None
      then have "map (\<lambda>v. if sw_address v = ?a then rescored sv d v else v) ws = ws"
        using Inr by (intro idle) (simp add: storable_result_def)
      moreover have "update_wallet_score (sv_eth sv) None ?a r (sv_now sv) (d\<lparr>db_wallets := ws\<rparr>) =
          (d\<lparr>db_wallets := ws\<rparr>, Inl (E_store 1))"
        using v0 fold None by (auto simp: update_wallet_score_def n write_tx_def guardE_def)
      ultimately show ?thesis
        using Inr None by (simp add: recalculate_wallet_eq [OF assms(2)] wallet_result_wallets failure_def)
    next
      case (Some s)
      have rows: "upd_where (\<lambda>v. equal_fold (sw_address v) ?a) (scored_row sv r) ws =
          map (\<lambda>v. if sw_address v = ?a then rescored sv d v else v) ws"
      proof -
        have "rescored sv d v = scored_row sv r v" if "sw_address v = ?a" for v
          using storable_address [OF that, of sv d] Inr Some by (simp add: rescored_def storable_result_def)
        with fold show ?thesis by (simp add: upd_where_def)
      qed
      have "\<not> (\<exists>v\<in>set ws. equal_fold (sw_address v) ?a \<and> (score_column (sc_score r) = None \<or>
          \<not> sw_level_locked v \<and> sc_level r \<notin> {''S'', ''A'', ''B'', ''C'', ''D''}))"
        using Some wallet_result_level [OF Inr] by simp
      then have "update_wallet_score (sv_eth sv) None ?a r (sv_now sv) (d\<lparr>db_wallets := ws\<rparr>) =
          (d\<lparr>db_wallets := upd_where (\<lambda>v. equal_fold (sw_address v) ?a) (scored_row sv r) ws\<rparr>, Inr ())"
        by (simp add: update_wallet_score_def n write_tx_def guardE_def scored_row_def [abs_def] del: insert_iff)
      with rows show ?thesis
        using Inr Some by (simp add: recalculate_wallet_eq [OF assms(2)] wallet_result_wallets failure_def)
    qed
  qed
qed

lemma recalculate_wallets_all:
  assumes "eth_ok (sv_eth sv)" "undisturbed sv" "canonical_wallets d"
  shows "\<lbrakk>set L \<subseteq> set (db_wallets d); distinct (map sw_address L); map sw_address ws = map sw_address (db_wallets d)\<rbrakk> \<Longrightarrow>
    recalculate_wallets sv i L first (d\<lparr>db_wallets := ws\<rparr>) =
      (d\<lparr>db_wallets := map (\<lambda>v. if sw_address v \<in> sw_address ` set L then rescored sv d v else v) ws\<rparr>,
       foldl keep_first first (map (failure sv d) L))"
proof (induction L arbitrary: i first ws)
  case (Cons w L)
  have m: "sv_meanwhile sv i e = e" for e using assms(2) by (simp add: undisturbed_def)
  let ?ws = "map (\<lambda>v. if sw_address v = sw_address w then rescored sv d v else v) ws"
  have "map sw_address ?ws = map sw_address ws" by simp
  then have a: "map sw_address ?ws = map sw_address (db_wallets d)" using Cons.prems(3) by simp
  have w: "w \<in> set (db_wallets d)" "set L \<subseteq> set (db_wallets d)" "distinct (map sw_address L)"
    "sw_address w \<notin> sw_address ` set L" using Cons.prems by auto
  have "map (\<lambda>v. if sw_address v \<in> sw_address ` set L then rescored sv d v else v) ?ws =
      map (\<lambda>v. if sw_address v \<in> sw_address ` set (w # L) then rescored sv d v else v) ws"
    using w(4) by (auto simp: image_iff)
  with Cons.IH [OF w(2,3) a] show ?case
    by (simp add: m recalculate_wallet_step [OF assms w(1) Cons.prems(3)])
qed (simp add: map_idI)

lemma foldl_keep_first: "foldl keep_first first es = (case first of Some e \<Rightarrow> Some e
    | None \<Rightarrow> (case find (\<lambda>e. e \<noteq> None) es of None \<Rightarrow> None | Some e \<Rightarrow> e))"
  by (induction es arbitrary: first) (auto simp: keep_first_def split: option.splits)

section \<open>Properties\<close>

text \<open>C23. While the database itself does not fail, a recalculation rescores every wallet on its own: a wallet whose trades can be replayed gets
  the score of its samples, with a locked level kept; one whose trades cannot be replayed keeps its row,
  and does not keep the others from being scored. Nothing else in the database changes, and the error is
  that of the first wallet that failed, in the order of the addresses.\<close>

theorem recalculation_isolates_failures:
  assumes "eth_ok (sv_eth sv)" and "undisturbed sv" and "canonical_wallets d"
  shows "recalculate_all sv d = (d\<lparr>db_wallets := map (rescored sv d) (db_wallets d)\<rparr>,
    case find (\<lambda>e. e \<noteq> None) (map (failure sv d) (load_smart_wallets d)) of None \<Rightarrow> None | Some e \<Rightarrow> e)"
proof -
  let ?L = "load_smart_wallets d"
  have m: "mset ?L = mset (db_wallets d)" by (simp add: load_smart_wallets_def)
  then have s: "set ?L = set (db_wallets d)" by (rule mset_eq_setD)
  have "mset (map sw_address ?L) = mset (map sw_address (db_wallets d))" using m by simp
  then have "distinct (map sw_address ?L)" using assms(3) mset_eq_imp_distinct_iff canonical_wallets_def by blast
  from recalculate_wallets_all [OF assms _ this refl, of 0 None] s
  have "recalculate_wallets sv 0 ?L None (d\<lparr>db_wallets := db_wallets d\<rparr>) =
    (d\<lparr>db_wallets := map (\<lambda>v. if sw_address v \<in> sw_address ` set (db_wallets d) then rescored sv d v else v) (db_wallets d)\<rparr>,
     foldl keep_first None (map (failure sv d) ?L))" by simp
  moreover have "map (\<lambda>v. if sw_address v \<in> sw_address ` set (db_wallets d) then rescored sv d v else v) (db_wallets d) =
      map (rescored sv d) (db_wallets d)" by simp
  moreover have "d\<lparr>db_wallets := db_wallets d\<rparr> = d" by simp
  moreover have "sv_load_fault sv = None" using assms(2) by (simp add: undisturbed_def)
  ultimately show ?thesis by (simp add: recalculate_all_def foldl_keep_first)
qed

text \<open>The order in which a map is visited decides neither whether the samples can be formed nor
  which they are, and so neither the win rate nor their number.\<close>

theorem samples_do_not_depend_on_map_order:
  assumes "samples_from_events F visit events = Inr samples"
    and "mset (visit (remdups (map se_token events))) = mset (other (remdups (map se_token events)))"
  shows "\<exists>samples'. samples_from_events F other events = Inr samples' \<and> mset samples' = mset samples \<and>
    sc_win_rate (compute_score F T samples' now) = sc_win_rate (compute_score F T samples now) \<and>
    sc_sample_n (compute_score F T samples' now) = sc_sample_n (compute_score F T samples now)"
proof -
  let ?f = "\<lambda>t. token_samples F (filter (\<lambda>e. se_token e = t) events)"
  from assms(1) obtain ss where ss: "mapE ?f (visit (remdups (map se_token events))) = Inr ss" "samples = concat ss"
    by (auto simp: samples_from_events_def res_simps)
  from mapE_perm [OF ss(1) assms(2) [symmetric]] obtain ss' where
    ss': "mapE ?f (other (remdups (map se_token events))) = Inr ss'" "mset (concat ss') = mset samples" using ss(2) by auto
  have len: "length (concat ss') = length samples" using ss'(2) by (metis size_mset)
  have "concat ss' = [] \<longleftrightarrow> samples = []" using ss'(2) by (metis mset_zero_iff)
  with len length_filter_mset [OF ss'(2)]
  have "sc_win_rate (compute_score F T (concat ss') now) = sc_win_rate (compute_score F T samples now)"
    "sc_sample_n (compute_score F T (concat ss') now) = sc_sample_n (compute_score F T samples now)"
    by (simp_all add: compute_score_def Let_def)
  moreover have "samples_from_events F other events = Inr (concat ss')" using ss'(1) by (simp add: samples_from_events_def)
  ultimately show ?thesis using ss'(2) by blast
qed

section \<open>Witnesses\<close>

text \<open>A wallet that bought 9 units at 2 dollars and sold them at 5, and one that never traded.\<close>

definition ex_trader :: "string \<Rightarrow> smart_wallet" where
  "ex_trader a = \<lparr>sw_address = a, sw_display_name = [], sw_source = ''manual'', sw_primary_type = ''unknown'',
     sw_tags = [], sw_level = ''D'', sw_note = [], sw_status = ''active'', sw_source_url = None, sw_last_seen_at = None,
     sw_score = 0, sw_score_win_rate = None, sw_score_profit_usd = None, sw_score_sample_n = 0, sw_level_locked = False,
     sw_created_at = 0, sw_updated_at = 0\<rparr>"

definition ex_scored_db :: db where
  "ex_scored_db = empty_db\<lparr>db_wallets := [ex_trader ex_wallet, ex_trader ex_token],
     db_events := [ex_event\<lparr>we_id := ''1'', we_kind := ''buy'', we_direction := ''buy'', we_exec_usd := Some 2,
                            we_token_decimals := Some 0\<rparr>,
                   ex_event\<lparr>we_id := ''2'', we_exec_usd := Some 5, we_token_decimals := Some 0\<rparr>]\<rparr>"

definition ex_score_env :: score_env where
  "ex_score_env = \<lparr>sv_eth = eth_plain, sv_float = Some, sv_tanh = ex_tanh, sv_shortest = (\<lambda>r. r), sv_visit = rev,
     sv_load_fault = None, sv_read_fault = (\<lambda>_. None), sv_write_fault = (\<lambda>_. None), sv_meanwhile = (\<lambda>_ d. d),
     sv_now = 1000\<rparr>"

theorem recalculation_isolates_failures_witness:
  "map (\<lambda>w. (sw_score w, sw_level w, sw_score_sample_n w)) (db_wallets (fst (recalculate_all ex_score_env ex_scored_db))) =
     [(49, ''C'', 1), (0, ''D'', 0)] \<and> snd (recalculate_all ex_score_env ex_scored_db) = None"
proof -
  have u: "undisturbed ex_score_env" by (simp add: undisturbed_def ex_score_env_def)
  have "canonical_wallets ex_scored_db"
  proof -
    have "canonical_address ex_wallet" "canonical_address ex_token"
      unfolding canonical_hex_def ex_wallet_def ex_token_def by (auto simp: all_lower_hex_def lower_hex_char_def char_le_iff)
    then show ?thesis by (simp add: canonical_wallets_def ex_scored_db_def ex_trader_def) (simp add: ex_wallet_def ex_token_def)
  qed
  from recalculation_isolates_failures [OF _ u this]
  have "recalculate_all ex_score_env ex_scored_db =
    (ex_scored_db\<lparr>db_wallets := map (rescored ex_score_env ex_scored_db) (db_wallets ex_scored_db)\<rparr>,
     case find (\<lambda>e. e \<noteq> None) (map (failure ex_score_env ex_scored_db) (load_smart_wallets ex_scored_db)) of
       None \<Rightarrow> None | Some e \<Rightarrow> e)"
    by (simp add: ex_score_env_def eth_plain_ok)
  moreover have "map (\<lambda>w. (sw_score w, sw_level w, sw_score_sample_n w)) (map (rescored ex_score_env ex_scored_db) (db_wallets ex_scored_db)) =
      [(49, ''C'', 1), (0, ''D'', 0)]" by code_simp
  moreover have "find (\<lambda>e. e \<noteq> None) (map (failure ex_score_env ex_scored_db) (load_smart_wallets ex_scored_db)) = None"
    by code_simp
  ultimately show ?thesis by (simp add: option.case_eq_if)
qed

theorem samples_do_not_depend_on_map_order_witness:
  "\<exists>events samples samples'. score_events eth_plain (\<lambda>r. r) ex_wallet ex_scored_db = Inr events \<and>
     samples_from_events Some rev events = Inr samples \<and> length samples = 1 \<and>
     samples_from_events Some (\<lambda>ts. ts) events = Inr samples' \<and> mset samples' = mset samples"
proof -
  have "case score_events eth_plain (\<lambda>r. r) ex_wallet ex_scored_db of Inl _ \<Rightarrow> False
    | Inr events \<Rightarrow> (case samples_from_events Some rev events of Inl _ \<Rightarrow> False | Inr samples \<Rightarrow> length samples = 1)"
    by code_simp
  then obtain events samples where e: "score_events eth_plain (\<lambda>r. r) ex_wallet ex_scored_db = Inr events"
    "samples_from_events Some rev events = Inr samples" "length samples = 1" by (auto split: sum.splits)
  from samples_do_not_depend_on_map_order [OF e(2), of "\<lambda>ts. ts"] e show ?thesis by auto
qed

end
