(* ===== verification/App_Ticks.thy ===== *)
theory App_Ticks
  imports App_Run Score_Recalc
begin

text \<open>
  The rest of \<open>internal/app\<close>: building the process state (\<open>New\<close> of \<open>app.go\<close>), the periodic
  work and the memory of signals (\<open>ticks.go\<close>), and the states the process can be in.

  The scanner, the feed and the ticks run as goroutines. A step below is one of their atomic
  operations: a block, a transaction of a tick, a refresh; so a run of steps is an interleaving.
  Opening the database, the migrations and the connection to the nodes come before the model.
\<close>

section \<open>Start\<close>

record app_settings =
  as_base_url :: string
  as_symbol :: string
  as_eth_poll :: duration
  as_eth_ttl :: duration
  as_eth_stale :: duration
  as_eth_timeout :: duration
  as_dirty_cap :: int

definition wallet_rows :: "'c app_env \<Rightarrow> db \<Rightarrow> smart_wallet list res" where
  "wallet_rows ev d = (case ae_wallets_fault ev of Some e \<Rightarrow> Inl e | None \<Rightarrow> Inr (load_smart_wallets d))"

definition new_app :: "'c app_env \<Rightarrow> (string \<Rightarrow> parsed_url option) \<Rightarrow> app_settings \<Rightarrow> db \<Rightarrow> 'c \<Rightarrow> 'c app res" where
  "new_app ev url_parse cfg d client =
     bindE new_catalog (\<lambda>catalog.
     case load_registrations d of (pools, curves) \<Rightarrow>
     (case enrich_registration_decimals ev pools curves client of
        (Inl e, _) \<Rightarrow> Inl e
      | (Inr (pools, curves), client) \<Rightarrow>
          bindE (rebuild_registrations (ae_eth ev) pools curves catalog) (\<lambda>catalog.
          (case load_snapshot (ae_eth ev) (wallet_rows ev d) (ae_now ev) new_snapshot of
             (_, Some e) \<Rightarrow> Inl e
           | (wallets, None) \<Rightarrow>
               bindE (new_binance_feed url_parse (as_base_url cfg) (as_symbol cfg) (as_eth_poll cfg) (as_eth_ttl cfg)
                   (as_eth_stale cfg) (as_eth_timeout cfg)) (\<lambda>feed.
               bindE (new_dirty_set (as_dirty_cap cfg)) (\<lambda>dirty.
                 Inr \<lparr>ap_db = d, ap_catalog = catalog, ap_wallets = wallets, ap_feed = feed, ap_dirty = dirty,
                   ap_client = client, ap_sell_since = 0, ap_score_trigger = False\<rparr>))))))"

section \<open>Ticks\<close>

text \<open>One case of \<open>runTicks\<close> each. The wallets are refreshed by \<open>refresh_wallets\<close>, as before a block.\<close>

definition price_tick ::
  "'c app_env \<Rightarrow> (point list \<Rightarrow> point list) \<Rightarrow> (nat \<Rightarrow> err option) \<Rightarrow> (nat \<Rightarrow> dirty_set \<Rightarrow> dirty_set) \<Rightarrow> 'c app \<Rightarrow> 'c app" where
  "price_tick ev visit faults meanwhile a =
     (case flush (ae_eth ev) visit faults meanwhile (ap_db a, ap_dirty a) of
        ((d, s), _) \<Rightarrow> a\<lparr>ap_db := d, ap_dirty := s\<rparr>)"

definition score_tick :: "score_env \<Rightarrow> 'c app \<Rightarrow> 'c app" where
  "score_tick sv a = a\<lparr>ap_db := fst (recalculate_all sv (ap_db a))\<rparr>"

definition triggered_score :: "score_env \<Rightarrow> 'c app \<Rightarrow> 'c app" where
  "triggered_score sv a = (if ap_score_trigger a then score_tick sv (a\<lparr>ap_score_trigger := False\<rparr>) else a)"

definition purge_events ::
  "time \<Rightarrow> int \<Rightarrow> int \<Rightarrow> int \<Rightarrow> (nat \<Rightarrow> err option) \<Rightarrow> (nat \<Rightarrow> bool) \<Rightarrow> 'c app \<Rightarrow> 'c app option" where
  "purge_events now days batch max_per_run faults cancelled a =
     (case purge_expired_wallet_events now days batch max_per_run faults cancelled (ap_db a) of
        None \<Rightarrow> None
      | Some (d, _, _) \<Rightarrow> Some (a\<lparr>ap_db := d\<rparr>))"

section \<open>The memory of signals\<close>

text \<open>The map from keys to times; \<open>visit\<close> is the order in which \<open>range\<close> goes through it.\<close>

definition pick_oldest :: "(string \<times> time) list \<Rightarrow> string \<times> time" where
  "pick_oldest seen = foldl (\<lambda>(key, at0) (k, t). if key = [] \<or> t < at0 then (k, t) else (key, at0)) ([], zero_time) seen"

definition remember_signal ::
  "((string \<times> time) list \<Rightarrow> (string \<times> time) list) \<Rightarrow> string \<Rightarrow> time \<Rightarrow> (string \<times> time) list \<Rightarrow> (string \<times> time) list \<times> bool" where
  "remember_signal visit key t seen =
     (if map_of seen key \<noteq> None then (seen, False)
      else let seen1 = (if 1000 \<le> length seen then AList.delete (fst (pick_oldest (visit seen))) seen else seen)
           in (AList.update key t seen1, True))"

lemma pick_oldest_foldl:
  "(\<forall>(k, t)\<in>set seen. k \<noteq> []) \<Longrightarrow> k0 \<noteq> [] \<Longrightarrow>
   foldl (\<lambda>(key, at0) (k, t). if key = [] \<or> t < at0 then (k, t) else (key, at0)) (k0 :: string, t0 :: time) seen = (k, t) \<Longrightarrow>
   (k, t) \<in> insert (k0, t0) (set seen) \<and> (\<forall>(k', t')\<in>insert (k0, t0) (set seen). t \<le> t')"
proof (induction seen arbitrary: k0 t0)
  case (Cons x seen)
  obtain k1 t1 where x: "x = (k1, t1)" by (cases x)
  show ?case
  proof (cases "t1 < t0")
    case True
    with Cons.prems x Cons.IH [of k1 t1] have "(k, t) \<in> insert (k1, t1) (set seen)"
      "\<forall>(k', t')\<in>insert (k1, t1) (set seen). t \<le> t'" by auto
    moreover from this(2) have "t \<le> t1" by simp
    then have "t \<le> t0" using True by simp
    ultimately show ?thesis by (auto simp: x)
  next
    case False
    with Cons.prems x Cons.IH [of k0 t0] show ?thesis by auto
  qed
qed auto

lemma pick_oldest_least:
  assumes "seen \<noteq> []" "\<forall>(k, t)\<in>set seen. k \<noteq> []" "pick_oldest seen = (k, t)"
  shows "(k, t) \<in> set seen \<and> (\<forall>(k', t')\<in>set seen. t \<le> t')"
proof -
  obtain k0 t0 rest where s: "seen = (k0, t0) # rest" using assms(1) by (cases seen) auto
  have "foldl (\<lambda>(key, at0) (k, t). if key = [] \<or> t < at0 then (k, t) else (key, at0)) (k0, t0) rest = (k, t)"
    using assms(3) by (simp add: pick_oldest_def s)
  from pick_oldest_foldl [OF _ _ this] assms(2) show ?thesis by (simp add: s)
qed

section \<open>The states of the process\<close>

inductive reachable_app :: "eth_common \<Rightarrow> int \<Rightarrow> 'c app \<Rightarrow> bool" for E capacity where
  start: "\<lbrakk>new_app ev url_parse cfg d client = Inr a; ae_eth ev = E; as_dirty_cap cfg = capacity; reachable_db E d\<rbrakk> \<Longrightarrow>
    reachable_app E capacity a"
| block: "\<lbrakk>reachable_app E capacity a; process_block ev b wm a = (a', r); ae_eth ev = E\<rbrakk> \<Longrightarrow> reachable_app E capacity a'"
| watermark: "\<lbrakk>reachable_app E capacity a; be_save app_backend wm a = Inr a'\<rbrakk> \<Longrightarrow> reachable_app E capacity a'"
| quotation: "\<lbrakk>reachable_app E capacity a; feed_turn json_price parse_rat (answer :: (nat \<times> string) res) now backoff (ap_feed a) = (f, delay, backoff')\<rbrakk> \<Longrightarrow>
    reachable_app E capacity (a\<lparr>ap_feed := f\<rparr>)"
| display: "\<lbrakk>reachable_app E capacity a; flush_point E fault (\<lambda>s. s) p (ap_db a, ap_dirty a) = ((d, s), e)\<rbrakk> \<Longrightarrow>
    reachable_app E capacity (a\<lparr>ap_db := d, ap_dirty := s\<rparr>)"
| wallets: "\<lbrakk>reachable_app E capacity a; ae_eth ev = E\<rbrakk> \<Longrightarrow> reachable_app E capacity (refresh_wallets ev a)"
| trigger: "reachable_app E capacity a \<Longrightarrow> reachable_app E capacity (a\<lparr>ap_score_trigger := False\<rparr>)"
| score: "\<lbrakk>reachable_app E capacity a; recalculate_wallet sv i w (ap_db a) = (d, e); sv_eth sv = E\<rbrakk> \<Longrightarrow>
    reachable_app E capacity (a\<lparr>ap_db := d\<rparr>)"
| purge: "\<lbrakk>reachable_app E capacity a; purge_events now days batch m faults cancelled a = Some a'\<rbrakk> \<Longrightarrow> reachable_app E capacity a'"

definition app_ok :: "eth_common \<Rightarrow> int \<Rightarrow> 'c app \<Rightarrow> bool" where
  "app_ok E capacity a \<longleftrightarrow> reachable_db E (ap_db a) \<and> reachable_catalog E (ap_catalog a) \<and>
     reachable_dirty E capacity (ap_dirty a) \<and> snapshot_ok (ap_wallets a) \<and> 0 \<le> ap_sell_since a \<and> ap_sell_since a < 100"

lemma load_snapshot_ok:
  assumes "eth_ok E" "snapshot_ok s"
  shows "snapshot_ok (fst (load_snapshot E rows now s))"
proof (cases "bindE rows (\<lambda>rs. load_views E rs Map.empty Map.empty)")
  case (Inl e)
  with assms(2) show ?thesis by (simp add: load_snapshot_def)
next
  case (Inr p)
  obtain all active where p: "p = (all, active)" by (cases p)
  with Inr obtain rs where l: "load_views E rs Map.empty Map.empty = Inr (all, active)" by (auto simp: res_simps)
  have "wv_address v = a \<and> canonical_address a" if "active a = Some v" for v a
    by (rule load_views_ok [OF l assms(1) _ that]) simp
  with Inr p show ?thesis by (simp add: load_snapshot_def snapshot_ok_def)
qed

lemma start_ok:
  assumes "new_app ev url_parse cfg d client = Inr a" "eth_ok (ae_eth ev)" "reachable_db (ae_eth ev) d"
  shows "app_ok (ae_eth ev) (as_dirty_cap cfg) a"
proof -
  obtain pools curves where l: "load_registrations d = (pools, curves)" by (cases "load_registrations d")
  from assms(1) obtain cat where n: "new_catalog = Inr cat"
    and r1: "(case enrich_registration_decimals ev pools curves client of
        (Inl e, _) \<Rightarrow> Inl e
      | (Inr (pools, curves), client) \<Rightarrow>
          bindE (rebuild_registrations (ae_eth ev) pools curves cat) (\<lambda>catalog.
          (case load_snapshot (ae_eth ev) (wallet_rows ev d) (ae_now ev) new_snapshot of
             (_, Some e) \<Rightarrow> Inl e
           | (wallets, None) \<Rightarrow>
               bindE (new_binance_feed url_parse (as_base_url cfg) (as_symbol cfg) (as_eth_poll cfg) (as_eth_ttl cfg)
                   (as_eth_stale cfg) (as_eth_timeout cfg)) (\<lambda>feed.
               bindE (new_dirty_set (as_dirty_cap cfg)) (\<lambda>dirty.
                 Inr \<lparr>ap_db = d, ap_catalog = catalog, ap_wallets = wallets, ap_feed = feed, ap_dirty = dirty,
                   ap_client = client, ap_sell_since = 0, ap_score_trigger = False\<rparr>))))) = Inr a"
    by (auto simp: new_app_def l res_simps)
  obtain r client1 where e: "enrich_registration_decimals ev pools curves client = (r, client1)"
    by (cases "enrich_registration_decimals ev pools curves client")
  with r1 obtain p1 c1 where r: "r = Inr (p1, c1)" by (cases r) auto
  obtain ws f where w: "load_snapshot (ae_eth ev) (wallet_rows ev d) (ae_now ev) new_snapshot = (ws, f)"
    by (cases "load_snapshot (ae_eth ev) (wallet_rows ev d) (ae_now ev) new_snapshot")
  from r1 e r w have "f = None" by (cases f) (auto simp: res_simps)
  with r1 e r w obtain cat1 fd ds where m: "rebuild_registrations (ae_eth ev) p1 c1 cat = Inr cat1"
    "new_dirty_set (as_dirty_cap cfg) = Inr ds"
    "a = \<lparr>ap_db = d, ap_catalog = cat1, ap_wallets = ws, ap_feed = fd, ap_dirty = ds, ap_client = client1,
       ap_sell_since = 0, ap_score_trigger = False\<rparr>"
    by (auto simp: res_simps)
  have "snapshot_ok ws" using load_snapshot_ok [OF assms(2) new_snapshot_ok, of "wallet_rows ev d" "ae_now ev"] w by simp
  with m(3) assms(3) reachable_catalog.rebuild [OF reachable_catalog.start [OF n] m(1)] reachable_dirty.start [OF m(2)]
  show ?thesis by (simp add: app_ok_def)
qed

lemma sells_counted:
  assumes "0 \<le> ap_sell_since a" "ap_sell_since a < 100"
  shows "0 \<le> ap_sell_since (after_commit ev ps result a)" "ap_sell_since (after_commit ev ps result a) < 100"
proof -
  have mark: "ap_sell_since (mark_prices E ps b) = ap_sell_since b" for E and b :: "'c app"
    unfolding mark_prices_def by (induction ps arbitrary: b) (auto split: prod.splits)
  have same: "ap_sell_since (restore_registrations ev a) = ap_sell_since a"
    using restore_facts(1) [of a ev] by (simp add: same_data_def)
  have req: "0 \<le> n \<Longrightarrow> 0 \<le> ap_sell_since b \<Longrightarrow> ap_sell_since b < 100 \<Longrightarrow>
      0 \<le> ap_sell_since (request_score_after n b) \<and> ap_sell_since (request_score_after n b) < 100" for n and b :: "'c app"
    by (simp add: request_score_after_def Let_def)
  define a1 where a1: "a1 = (if bw_conflicts result \<noteq> [] then restore_registrations ev a else a)"
  have s1: "ap_sell_since a1 = ap_sell_since a" using same by (simp add: a1)
  define n where n: "n = int (length (filter (\<lambda>v. we_kind v = ''sell'') (bw_events result)))"
  have "after_commit ev ps result a = mark_prices (ae_eth ev) ps (if 0 < n then request_score_after n a1 else a1)"
    by (simp add: after_commit_def Let_def n a1)
  then have eq: "ap_sell_since (after_commit ev ps result a) = ap_sell_since (if 0 < n then request_score_after n a1 else a1)"
    by (simp add: mark)
  show "0 \<le> ap_sell_since (after_commit ev ps result a)" "ap_sell_since (after_commit ev ps result a) < 100"
    unfolding eq using req [of n a1] assms s1 by auto
qed

lemma block_ok:
  assumes "process_block ev b wm a = (a', r)" "app_ok (ae_eth ev) capacity a" "eth_ok (ae_eth ev)"
  shows "app_ok (ae_eth ev) capacity a'"
proof -
  obtain st f where s: "scan_block ev b (refresh_wallets ev a) = (st, f)" by (cases "scan_block ev b (refresh_wallets ev a)")
  have ws: "snapshot_ok (ap_wallets (refresh_wallets ev a))"
    using refresh_ok assms(2,3) by (simp add: refresh_wallets_def app_ok_def)
  have cat: "reachable_catalog (ae_eth ev) (st_catalog st)"
    using scan_catalog(2) [OF s] assms(2) by (simp add: refresh_wallets_def app_ok_def)
  let ?b = "(refresh_wallets ev a)\<lparr>ap_client := st_client st, ap_catalog := st_catalog st\<rparr>"
  have b: "app_ok (ae_eth ev) capacity ?b" using ws cat assms(2) by (simp add: app_ok_def refresh_wallets_def)
  show ?thesis
    using assms(1) s
  proof (cases rule: process_block_cases)
    case (failed x)
    from b restore_facts(1) [of ?b ev] restore_facts(3) [of ev ?b] show ?thesis
      by (simp add: failed(2) app_ok_def same_data_def)
  next
    case (committed d result)
    have d: "reachable_db (ae_eth ev) d" using assms(2) by (intro reachable_db.commit [OF _ committed(3)]) (simp add: app_ok_def)
    let ?c = "?b\<lparr>ap_db := d\<rparr>"
    have c: "app_ok (ae_eth ev) capacity ?c" using b d by (simp add: app_ok_def)
    have a': "a' = after_commit ev (st_prices st) result ?c" by (simp add: committed(4))
    from c show ?thesis
      using sells_counted [of ?c ev "st_prices st" result] after_commit_facts(3) [of ev ?c "st_prices st" result]
        after_commit_facts(4) [of ev capacity ?c "st_prices st" result]
      unfolding a' by (simp add: app_ok_def after_commit_facts(1,2))
  qed
qed

lemma recalculate_wallet_reaches:
  assumes "recalculate_wallet sv i w d = (e, r)" "reachable_db (sv_eth sv) d"
  shows "reachable_db (sv_eth sv) e"
  using assms
  by (auto simp: recalculate_wallet_def Let_def split: sum.splits prod.splits intro: reachable_db.score)

lemma flush_point_reaches:
  assumes "flush_point E fault (\<lambda>s. s) p (d, s) = ((d1, s1), e)" "reachable_db E d" "reachable_dirty E capacity s"
  shows "reachable_db E d1 \<and> reachable_dirty E capacity s1"
  using assms
  by (auto simp: flush_point_def split: sum.splits prod.splits if_splits
      intro: reachable_db.price reachable_dirty.remove)

lemma reachable_app_ok:
  assumes "eth_ok E" and "reachable_app E capacity a"
  shows "app_ok E capacity a"
  using assms(2)
proof induction
  case (start ev url_parse cfg d client a)
  with start_ok [OF start(1)] assms(1) show ?case by simp
next
  case (block a ev b wm a' r)
  with block_ok [OF block(2)] assms(1) show ?case by simp
next
  case (watermark a wm a')
  obtain e where e: "ap_db a' = e" "a' = a\<lparr>ap_db := e\<rparr>" using app_save(2) [OF watermark(2)] by blast
  have "put_sync_state None (sync_of wm) (ap_db a) = (e, Inr ())"
    using app_save(1) [OF watermark(2)] e(1) by (simp add: put_sync_state_def write_tx_def)
  moreover have "reachable_db E (ap_db a)" using watermark(3) by (simp add: app_ok_def)
  ultimately have "reachable_db E e" by (rule reachable_db.watermark [rotated])
  with e(2) show ?case using watermark(3) by (simp add: app_ok_def)
next
  case (quotation a jp pr answer now backoff f delay backoff')
  then show ?case by (simp add: app_ok_def)
next
  case (display a fault p d s e)
  with flush_point_reaches [OF display(2), of capacity] show ?case by (simp add: app_ok_def)
next
  case (wallets a ev)
  with refresh_ok assms(1) show ?case by (simp add: app_ok_def refresh_wallets_def)
next
  case (trigger a)
  then show ?case by (simp add: app_ok_def)
next
  case (score a sv i w d e)
  with recalculate_wallet_reaches [OF score(2)] show ?case by (simp add: app_ok_def)
next
  case (purge a now days batch m faults cancelled a')
  then show ?case
    by (auto simp: purge_events_def app_ok_def split: option.splits prod.splits intro: reachable_db.purge)
qed

section \<open>Properties\<close>

text \<open>C1. In every state the process can reach, over any interleaving of blocks, failed blocks, refreshes and
  ticks: the tables of the venues agree with the catalog of launches, recorded trades are of well-formed
  addresses, the registrations in memory are filed under their own keys, the prices to display stay within
  their bound, active wallets are filed under their own addresses, and fewer than a hundred sells await
  the next scoring.\<close>

theorem running_process_is_consistent:
  assumes "eth_ok E" and "reachable_app E capacity a"
  shows "(\<forall>p\<in>set (db_pons (ap_db a)). category_of (ap_db a) (pl_token_address p) = Some ''pons'') \<and>
    (\<forall>q\<in>set (db_o1 (ap_db a)). category_of (ap_db a) (oc_token_address q) = Some ''o1_crypto'') \<and>
    (\<forall>v\<in>set (db_events (ap_db a)). event_checks v \<and> canonical_address (we_wallet v)) \<and>
    registrations_ok (ap_catalog a) \<and> static_ok (ap_catalog a) \<and>
    length (ds_items (ap_dirty a)) \<le> nat capacity \<and>
    (\<forall>x v. sn_active (ap_wallets a) x = Some v \<longrightarrow> wv_address v = x \<and> canonical_address x) \<and>
    0 \<le> ap_sell_since a \<and> ap_sell_since a < 100"
proof -
  have ok: "app_ok E capacity a" by (rule reachable_app_ok [OF assms])
  then have d: "launches_ok (ap_db a)" "events_ok (ap_db a)"
    using reachable_db_ok [OF _ assms(1)] by (simp_all add: app_ok_def)
  have c: "registrations_ok (ap_catalog a) \<and> static_ok (ap_catalog a)"
    using ok by (intro reachable_catalog_inv [OF assms(1)]) (simp add: app_ok_def)
  have "dirty_ok (ap_dirty a)" "ds_cap (ap_dirty a) = nat capacity"
    using reachable_dirty_ok ok unfolding app_ok_def by blast+
  then have "length (ds_items (ap_dirty a)) \<le> nat capacity" by (simp add: dirty_ok_def)
  with ok c d show ?thesis by (simp add: app_ok_def snapshot_ok_def launches_ok_def events_ok_def)
qed

text \<open>The memory of signals reports a key once while it keeps it, holds at most a thousand keys, and
  forgets a key only to make room, and then the one seen longest ago, whatever the order in which the map
  is visited.\<close>

theorem signal_memory_is_bounded:
  assumes "remember_signal visit key t seen = (seen1, fresh)"
    and "distinct (map fst seen)" and "length seen \<le> 1000" and "\<forall>(k, t)\<in>set seen. k \<noteq> []"
    and "mset (visit seen) = mset seen"
  shows "(fresh \<longleftrightarrow> map_of seen key = None) \<and> length seen1 \<le> 1000 \<and> distinct (map fst seen1) \<and>
    \<not> snd (remember_signal visit' key t' seen1) \<and>
    (\<forall>k t0. map_of seen k = Some t0 \<longrightarrow> map_of seen1 k = None \<longrightarrow>
      length seen = 1000 \<and> (\<forall>(k', t')\<in>set seen. t0 \<le> t'))"
proof (cases "map_of seen key")
  case (Some x)
  with assms show ?thesis by (auto simp: remember_signal_def)
next
  case None
  then have new: "key \<notin> fst ` set seen" by (simp add: map_of_eq_None_iff)
  show ?thesis
  proof (cases "1000 \<le> length seen")
    case False
    then have s: "seen1 = AList.update key t seen" "fresh" using assms(1) None by (auto simp: remember_signal_def)
    have "map_of seen1 k \<noteq> None" if "map_of seen k = Some t0" for k t0
      using that by (simp add: s(1) update_conv)
    with s False None new assms(2) show ?thesis
      by (auto simp: update_length distinct_update remember_signal_def update_conv)
  next
    case True
    obtain h t0 where p: "pick_oldest (visit seen) = (h, t0)" by (cases "pick_oldest (visit seen)")
    have vs: "set (visit seen) = set seen" using assms(5) by (rule mset_eq_setD)
    have "visit seen \<noteq> []" using assms(5) True by (metis mset_zero_iff list.size(3) not_numeral_le_zero)
    from pick_oldest_least [OF this _ p] assms(4) have h: "(h, t0) \<in> set seen" "\<forall>(k', t')\<in>set seen. t0 \<le> t'"
      by (simp_all add: vs)
    have hm: "map_of seen h = Some t0" using h(1) assms(2) by simp
    have s: "seen1 = AList.update key t (AList.delete h seen)" "fresh"
      using assms(1) None True p by (simp_all add: remember_signal_def)
    have "h \<in> fst ` set seen" using h(1) by force
    then have "length (AList.delete h seen) = length seen - 1" using assms(2) by (rule delete_length [rotated])
    moreover have "key \<notin> fst ` set (AList.delete h seen)" using new by (auto simp: AList.delete_eq)
    ultimately have l: "length seen1 \<le> 1000" using assms(3) True by (simp add: s(1) update_length)
    have d: "distinct (map fst seen1)" using assms(2) by (simp add: s(1) distinct_update distinct_delete)
    have "length seen = 1000 \<and> (\<forall>(k', t')\<in>set seen. t1 \<le> t')" if "map_of seen k = Some t1" "map_of seen1 k = None" for k t1
    proof -
      have "k = h" using that by (auto simp: s(1) update_conv delete_conv' split: if_splits)
      with that(1) hm h(2) True assms(3) show ?thesis by simp
    qed
    with l d s None show ?thesis by (auto simp: remember_signal_def update_conv)
  qed
qed

text \<open>A process started on a fresh database.\<close>

definition ex_start_env :: "unit app_env" where
  "ex_start_env = \<lparr>ae_eth = eth_plain, ae_float = Some, ae_visit = (\<lambda>n. n), ae_roles = [],
     ae_metadata = (\<lambda>_ _ c. (Inl E_metadata, c)), ae_head = (\<lambda>c. (Inr 9, c)), ae_trace = None,
     ae_wallets_fault = None, ae_reload = second, ae_now = 5, ae_fault = None\<rparr>"

definition ex_settings :: app_settings where
  "ex_settings = \<lparr>as_base_url = ''b'', as_symbol = ''ETHUSDT'', as_eth_poll = second, as_eth_ttl = second,
     as_eth_stale = second, as_eth_timeout = second, as_dirty_cap = 10\<rparr>"

definition ex_start_db :: db where "ex_start_db = empty_db\<lparr>db_wallets := [ex_trader ex_wallet]\<rparr>"

lemma ex_started: "\<exists>a. new_app ex_start_env ex_url_parse ex_settings ex_start_db () = Inr a"
proof -
  have l: "load_registrations ex_start_db = ([], [])" by code_simp
  have "is_ok (bindE (wallet_rows ex_start_env ex_start_db) (\<lambda>rs. load_views eth_plain rs Map.empty Map.empty))" by code_simp
  then obtain all active where v: "bindE (wallet_rows ex_start_env ex_start_db) (\<lambda>rs. load_views eth_plain rs Map.empty Map.empty)
      = Inr (all, active)" by (metis is_ok_def sum.case_eq_if is_ok_simps(1) sum.collapse(2) surj_pair)
  have f: "is_ok (new_binance_feed ex_url_parse ''b'' ''ETHUSDT'' second second second second)" by code_simp
  then obtain fd where fd: "new_binance_feed ex_url_parse ''b'' ''ETHUSDT'' second second second second = Inr fd"
    by (cases "new_binance_feed ex_url_parse ''b'' ''ETHUSDT'' second second second second") simp_all
  show ?thesis
    using v fd
    by (simp add: new_app_def new_catalog_ok l enrich_registration_decimals_def rebuild_registrations_def load_snapshot_def
        new_dirty_set_def guardE_def ex_start_env_def ex_settings_def)
qed

theorem running_process_is_consistent_witness:
  "\<exists>a. new_app ex_start_env ex_url_parse ex_settings ex_start_db () = Inr a \<and>
     registrations_ok (ap_catalog (refresh_wallets ex_start_env a)) \<and> ap_sell_since (refresh_wallets ex_start_env a) < 100"
proof -
  obtain a where a: "new_app ex_start_env ex_url_parse ex_settings ex_start_db () = Inr a" using ex_started by blast
  have "reachable_db eth_plain ex_start_db" by (rule reachable_db.start) (simp add: fresh_db_def ex_start_db_def empty_db_def)
  then have "reachable_app eth_plain 10 a"
    by (intro reachable_app.start [OF a]) (simp_all add: ex_start_env_def ex_settings_def)
  then have "reachable_app eth_plain 10 (refresh_wallets ex_start_env a)"
    by (rule reachable_app.wallets) (simp add: ex_start_env_def)
  from running_process_is_consistent [OF eth_plain_ok this] a show ?thesis by blast
qed

theorem signal_memory_is_bounded_witness:
  "map_of (fst (remember_signal rev ''b'' 2 [(''a'', 1)])) ''a'' = Some 1 \<and>
   \<not> snd (remember_signal (\<lambda>s. s) ''b'' 3 (fst (remember_signal rev ''b'' 2 [(''a'', 1)])))"
proof -
  have r: "remember_signal rev ''b'' 2 [(''a'', 1)] = ([(''a'', 1), (''b'', 2)], True)" by code_simp
  from signal_memory_is_bounded [OF r, of "\<lambda>s. s" 3] show ?thesis by (simp add: r)
qed

end
