(* ===== verification/Go_Time.thy ===== *)
theory Go_Time
  imports Domain_Event_Id Domain_Launch "HOL-Library.List_Lexorder" "HOL-Library.Char_ord"
begin

text \<open>
  The two uses of package \<open>time\<close> for text: \<open>Format(time.RFC3339)\<close> of a UTC time, which is how every
  time is stored and shown, and \<open>time.Parse(time.RFC3339, s)\<close> for texts in UTC, which is how a page
  cursor is read back. A time is in nanoseconds since 1970. The tables compare times as texts: the
  lemma at the end shows that this is the order of the times, and Store_Text uses it for the statements.
\<close>

section \<open>The calendar\<close>

text \<open>Days from the first day of year 0 to the first day of year \<open>y\<close>.\<close>

definition days_before_year :: "int \<Rightarrow> int" where
  "days_before_year y = 365 * y + (y + 3) div 4 - (y + 99) div 100 + (y + 399) div 400"

definition is_leap :: "int \<Rightarrow> bool" where
  "is_leap y \<longleftrightarrow> y mod 4 = 0 \<and> (y mod 100 \<noteq> 0 \<or> y mod 400 = 0)"

definition month_starts :: "bool \<Rightarrow> int list" where
  "month_starts leap =
     (if leap then [0, 31, 60, 91, 121, 152, 182, 213, 244, 274, 305, 335, 366]
      else [0, 31, 59, 90, 120, 151, 181, 212, 243, 273, 304, 334, 365])"

definition month_start :: "int \<Rightarrow> int \<Rightarrow> int" where
  "month_start y m = month_starts (is_leap y) ! nat (m - 1)"

definition days_in :: "int \<Rightarrow> int \<Rightarrow> int" where
  "days_in y m = month_starts (is_leap y) ! nat m - month_start y m"

definition unix_epoch_days :: int where "unix_epoch_days = 719528"

definition days_of_date :: "int \<Rightarrow> int \<Rightarrow> int \<Rightarrow> int" where
  "days_of_date y m d = days_before_year y + month_start y m + d - 1 - unix_epoch_days"

definition year_of :: "int \<Rightarrow> int" where
  "year_of z =
     (let y = z * 400 div 146097
      in if days_before_year (y + 1) \<le> z then y + 1 else if z < days_before_year y then y - 1 else y)"

definition date_of_days :: "int \<Rightarrow> int \<times> int \<times> int" where
  "date_of_days n =
     (let z = n + unix_epoch_days; y = year_of z; k = z - days_before_year y;
          m = int (length (takeWhile (\<lambda>s. s \<le> k) (month_starts (is_leap y))))
      in (y, m, k - month_start y m + 1))"

section \<open>Formatting\<close>

definition two_digits :: "int \<Rightarrow> string" where
  "two_digits n = pad_zero 2 (dec_of_nat (nat n))"

definition year_digits :: "int \<Rightarrow> string" where
  "year_digits y = (if y < 0 then ''-'' else []) @ pad_zero 4 (dec_of_nat (nat \<bar>y\<bar>))"

definition format_date :: "time \<Rightarrow> string" where
  "format_date t =
     (case date_of_days (t div second div 86400) of
        (y, m, d) \<Rightarrow> year_digits y @ ''-'' @ two_digits m @ ''-'' @ two_digits d)"

definition format_rfc3339 :: "time \<Rightarrow> string" where
  "format_rfc3339 t =
     (let r = t div second mod 86400
      in format_date t @ ''T'' @ two_digits (r div 3600) @ '':'' @ two_digits (r div 60 mod 60) @ '':'' @
         two_digits (r mod 60) @ ''Z'')"

section \<open>Parsing\<close>

definition lit :: "char \<Rightarrow> string \<Rightarrow> string option" where
  "lit c s = (case s of [] \<Rightarrow> None | x # r \<Rightarrow> if x = c then Some r else None)"

definition digits :: "nat \<Rightarrow> string \<Rightarrow> (int \<times> string) option" where
  "digits n s =
     (if n \<le> length s \<and> list_all is_dec_char (take n s) then Some (int (nat_of_digits 10 0 (take n s)), drop n s) else None)"

text \<open>The hour alone may have one digit; a fraction may follow the seconds although the layout has none.\<close>

definition hour_digits :: "string \<Rightarrow> (int \<times> string) option" where
  "hour_digits s = (case digits 2 s of None \<Rightarrow> digits 1 s | Some r \<Rightarrow> Some r)"

definition fraction :: "string \<Rightarrow> int \<times> string" where
  "fraction s =
     (case s of
        c # r \<Rightarrow>
          let ds = takeWhile is_dec_char r; used = take 9 ds
          in if (c = CHR ''.'' \<or> c = CHR '','') \<and> ds \<noteq> []
             then (int (nat_of_digits 10 0 used) * 10 ^ (9 - length used), drop (length ds) r) else (0, s)
      | [] \<Rightarrow> (0, s))"

text \<open>\<open>None\<close> is an error or a time of another zone; every other zone has a \<open>Location\<close> other than \<open>time.UTC\<close>.\<close>

definition parse_rfc3339_utc :: "string \<Rightarrow> time option" where
  "parse_rfc3339_utc s =
     Option.bind (digits 4 s) (\<lambda>(y, s). Option.bind (lit CHR ''-'' s) (\<lambda>s.
     Option.bind (digits 2 s) (\<lambda>(m, s). Option.bind (lit CHR ''-'' s) (\<lambda>s.
     Option.bind (digits 2 s) (\<lambda>(d, s). Option.bind (lit CHR ''T'' s) (\<lambda>s.
     Option.bind (hour_digits s) (\<lambda>(h, s). Option.bind (lit CHR '':'' s) (\<lambda>s.
     Option.bind (digits 2 s) (\<lambda>(mi, s). Option.bind (lit CHR '':'' s) (\<lambda>s.
     Option.bind (digits 2 s) (\<lambda>(sec, s).
       case fraction s of (ns, s) \<Rightarrow>
         if 1 \<le> m \<and> m \<le> 12 \<and> h < 24 \<and> mi < 60 \<and> sec < 60 \<and> 1 \<le> d \<and> d \<le> days_in y m \<and> s = ''Z''
         then Some ((days_of_date y m d * 86400 + h * 3600 + mi * 60 + sec) * second + ns) else None)))))))))))"

section \<open>Dates and days\<close>

lemma days_before_year_bounds:
  "146097 * y - 396 \<le> 400 * days_before_year y" "400 * days_before_year y \<le> 146097 * y + 700"
proof -
  define a b c where d: "a = (y + 3) div 4" "b = (y + 99) div 100" "c = (y + 399) div 400"
  have "4 * a \<le> y + 3" "y + 3 < 4 * a + 4" "100 * b \<le> y + 99" "y + 99 < 100 * b + 100"
    "400 * c \<le> y + 399" "y + 399 < 400 * c + 400" by (auto simp: d)
  moreover have "days_before_year y = 365 * y + a - b + c" by (simp add: days_before_year_def d)
  ultimately show "146097 * y - 396 \<le> 400 * days_before_year y" "400 * days_before_year y \<le> 146097 * y + 700"
    by linarith+
qed

lemma next_multiple:
  fixes y n k :: int
  assumes "0 < n" and "k = n - 1"
  shows "(y + 1 + k) div n = (y + k) div n + (if y mod n = 0 then 1 else 0)"
proof -
  define q r where qr: "q = y div n" "r = y mod n"
  then have y: "y = n * q + r" and r: "0 \<le> r" "r < n" using assms by simp_all
  have e: "(n * q + x) div n = q + x div n" for x using assms by (simp add: div_add1_eq)
  have "(y + n) div n = q + 1" using e [of "r + n"] r by (simp add: y)
  moreover have "(y + n - 1) div n = q + (r + n - 1) div n" using e [of "r + n - 1"] by (simp add: y algebra_simps)
  moreover have "(r + n - 1) div n = (if r = 0 then 0 else 1)"
    using r by (auto intro!: div_pos_pos_trivial int_div_pos_eq [where r = "r - 1"])
  ultimately show ?thesis by (simp add: qr assms(2) algebra_simps)
qed

lemma days_in_year: "days_before_year (y + 1) = days_before_year y + (if is_leap y then 366 else 365)"
proof -
  define p q r where p: "p \<longleftrightarrow> y mod 4 = 0" "q \<longleftrightarrow> y mod 100 = 0" "r \<longleftrightarrow> y mod 400 = 0"
  have m: "r \<Longrightarrow> q" "q \<Longrightarrow> p"
    using mod_mod_cancel [of 100 400 y] mod_mod_cancel [of 4 100 y] unfolding p by simp_all
  have n: "(y + 1 + 3) div 4 = (y + 3) div 4 + (if p then 1 else 0)"
    "(y + 1 + 99) div 100 = (y + 99) div 100 + (if q then 1 else 0)"
    "(y + 1 + 399) div 400 = (y + 399) div 400 + (if r then 1 else 0)"
    unfolding p by (rule next_multiple; simp)+
  have "is_leap y \<longleftrightarrow> p \<and> (\<not> q \<or> r)" unfolding is_leap_def p by (rule refl)
  with m show ?thesis unfolding days_before_year_def n by (cases p; cases q; cases r) simp_all
qed

lemma days_before_year_mono: "y < y' \<Longrightarrow> days_before_year y + 365 \<le> days_before_year y'"
proof (induction "nat (y' - y)" arbitrary: y')
  case (Suc n)
  show ?case
  proof (cases "y' = y + 1")
    case False
    with Suc.hyps(1) [of "y' - 1"] Suc.hyps(2) Suc.prems have "days_before_year y + 365 \<le> days_before_year (y' - 1)" by simp
    with days_in_year [of "y' - 1"] show ?thesis by (auto split: if_splits)
  qed (simp add: days_in_year)
qed simp

lemma year_of_spec: "days_before_year (year_of z) \<le> z \<and> z < days_before_year (year_of z + 1)"
proof -
  define y where y: "y = z * 400 div 146097"
  have "146097 * y \<le> 400 * z" "400 * z < 146097 * y + 146097" by (auto simp: y mult.commute)
  then have "days_before_year (y - 1) \<le> z" "z < days_before_year (y + 2)"
    using days_before_year_bounds(2) [of "y - 1"] days_before_year_bounds(1) [of "y + 2"] by (simp_all add: algebra_simps)
  then show ?thesis unfolding year_of_def Let_def y [symmetric] by (auto simp: add.commute)
qed

lemma year_of_unique: "days_before_year y \<le> z \<Longrightarrow> z < days_before_year (y + 1) \<Longrightarrow> year_of z = y"
proof (rule ccontr)
  assume a: "days_before_year y \<le> z" "z < days_before_year (y + 1)" "year_of z \<noteq> y"
  from a(3) have "year_of z + 1 \<le> y \<or> y + 1 \<le> year_of z" by linarith
  then show False
    using year_of_spec [of z] a(1,2) days_before_year_mono [of "year_of z + 1" y] days_before_year_mono [of "y + 1" "year_of z"]
    by (cases "year_of z + 1 = y"; cases "y + 1 = year_of z") auto
qed

lemma month_of_spec:
  assumes "0 \<le> k" and "k < (if l then 366 else 365)"
  defines "m \<equiv> length (takeWhile (\<lambda>s. s \<le> k) (month_starts l))"
  shows "1 \<le> m \<and> m \<le> 12 \<and> month_starts l ! (m - 1) \<le> k \<and> k < month_starts l ! m"
  using assms(1,2) unfolding m_def by (cases l) (auto simp: month_starts_def)

text \<open>A date is read from its number, and its number from the date.\<close>

definition valid_date :: "int \<Rightarrow> int \<Rightarrow> int \<Rightarrow> bool" where
  "valid_date y m d \<longleftrightarrow> 1 \<le> m \<and> m \<le> 12 \<and> 1 \<le> d \<and> d \<le> days_in y m"

lemma date_of_days_spec:
  assumes "date_of_days n = (y, m, d)"
  shows "valid_date y m d" and "days_of_date y m d = n" and "y = year_of (n + unix_epoch_days)"
proof -
  let ?z = "n + unix_epoch_days"
  define k where k: "k = ?z - days_before_year y"
  define i where i: "i = length (takeWhile (\<lambda>s. s \<le> k) (month_starts (is_leap y)))"
  from assms show y: "y = year_of ?z" by (simp add: date_of_days_def Let_def)
  with assms have md: "m = int i" "d = k - month_start y m + 1" by (auto simp: date_of_days_def Let_def k i)
  have "0 \<le> k" "k < (if is_leap y then 366 else 365)"
    using year_of_spec [of ?z] days_in_year [of y] unfolding y [symmetric] k by (auto split: if_splits)
  from month_of_spec [OF this] have "1 \<le> i" "i \<le> 12" "month_start y m \<le> k" "k < month_starts (is_leap y) ! nat m"
    by (simp_all add: i [symmetric] md month_start_def nat_diff_distrib)
  then show "valid_date y m d" by (auto simp: valid_date_def days_in_def md)
  show "days_of_date y m d = n" by (simp add: days_of_date_def md k)
qed

lemma month_starts_mono: "i \<le> j \<Longrightarrow> j \<le> 12 \<Longrightarrow> month_starts l ! i \<le> month_starts l ! j"
  by (rule sorted_nth_mono) (auto simp: month_starts_def)

lemma dates_ordered:
  assumes n: "date_of_days n = (y, m, d)" and n': "date_of_days n' = (y', m', d')" and "n < n'"
  shows "y < y' \<or> y = y' \<and> (m < m' \<or> m = m' \<and> d < d')"
proof -
  note s = date_of_days_spec [OF n] and s' = date_of_days_spec [OF n']
  have "\<not> y' < y"
  proof
    assume "y' < y"
    then have "days_before_year (y' + 1) \<le> days_before_year y" using days_before_year_mono [of "y' + 1" y] by (cases "y' + 1 = y") auto
    then show False using year_of_spec [of "n + unix_epoch_days"] year_of_spec [of "n' + unix_epoch_days"] s(3) s'(3) assms(3) by simp
  qed
  moreover have "m < m' \<or> m = m' \<and> d < d'" if "y = y'"
  proof -
    have l: "month_start y m + d < month_start y m' + d'" using s(2) s'(2) assms(3) that by (simp add: days_of_date_def)
    have "\<not> m' < m"
    proof
      assume "m' < m"
      then have "month_starts (is_leap y) ! nat m' \<le> month_start y m"
        using s(1) s'(1) unfolding month_start_def by (intro month_starts_mono) (auto simp: valid_date_def)
      then show False using l s(1) s'(1) that by (auto simp: valid_date_def days_in_def)
    qed
    with l show ?thesis by (cases "m = m'") auto
  qed
  ultimately show ?thesis by auto
qed

section \<open>The fields of a text\<close>

definition four_digit_year :: "time \<Rightarrow> bool" where
  "four_digit_year t \<longleftrightarrow> - 62167219200 \<le> t div second \<and> t div second < 253402300800"

lemma year_range:
  assumes "four_digit_year t" and "date_of_days (t div second div 86400) = (y, m, d)"
  shows "0 \<le> y" and "y < 10000"
proof -
  let ?z = "t div second div 86400 + unix_epoch_days"
  have "- 719528 \<le> t div second div 86400" "t div second div 86400 < 2932897"
    using assms(1) unfolding four_digit_year_def by linarith+
  then have z: "days_before_year 0 \<le> ?z" "?z < days_before_year 10000"
    by (simp_all add: days_before_year_def unix_epoch_days_def)
  have y: "days_before_year y \<le> ?z" "?z < days_before_year (y + 1)"
    using year_of_spec [of ?z] date_of_days_spec(3) [OF assms(2)] by simp_all
  show "0 \<le> y"
  proof (rule ccontr)
    assume "\<not> 0 \<le> y"
    then have "days_before_year (y + 1) \<le> days_before_year 0" using days_before_year_mono [of "y + 1" 0] by (cases "y + 1 = 0") auto
    with y(2) z(1) show False by simp
  qed
  show "y < 10000"
  proof (rule ccontr)
    assume "\<not> y < 10000"
    then have "days_before_year 10000 \<le> days_before_year y" using days_before_year_mono [of 10000 y] by (cases "y = 10000") auto
    with y(1) z(2) show False by simp
  qed
qed

lemma padded:
  assumes "0 \<le> n" and "n < 10 ^ w" and "0 < w"
  shows "length (pad_zero w (dec_of_nat (nat n))) = w"
    and "int (nat_of_digits 10 0 (pad_zero w (dec_of_nat (nat n)))) = n"
    and "list_all is_dec_char (pad_zero w (dec_of_nat (nat n)))"
proof -
  have "nat n < 10 ^ w" using assms(1,2) by (simp add: nat_less_iff)
  from pad_dec [OF this assms(3)] assms(1) show "length (pad_zero w (dec_of_nat (nat n))) = w"
    "int (nat_of_digits 10 0 (pad_zero w (dec_of_nat (nat n)))) = n"
    "list_all is_dec_char (pad_zero w (dec_of_nat (nat n)))" by simp_all
qed

text \<open>Fields of one width compare like their values, and a text by its first differing field.\<close>

lemma padded_less:
  assumes "0 \<le> a" "a < 10 ^ w" "0 \<le> b" "b < 10 ^ w" "0 < w"
  shows "pad_zero w (dec_of_nat (nat a)) < pad_zero w (dec_of_nat (nat b)) \<longleftrightarrow> a < b"
    and "pad_zero w (dec_of_nat (nat a)) = pad_zero w (dec_of_nat (nat b)) \<longleftrightarrow> a = b"
proof -
  note p = padded [OF assms(1,2,5)] and q = padded [OF assms(3,4,5)]
  show "pad_zero w (dec_of_nat (nat a)) < pad_zero w (dec_of_nat (nat b)) \<longleftrightarrow> a < b"
    using digits_less_iff [of "pad_zero w (dec_of_nat (nat a))" "pad_zero w (dec_of_nat (nat b))"] p q by linarith
  show "pad_zero w (dec_of_nat (nat a)) = pad_zero w (dec_of_nat (nat b)) \<longleftrightarrow> a = b" using p(2) q(2) by metis
qed

lemma append_less: "length a = length b \<Longrightarrow> a @ u < b @ v \<longleftrightarrow> a < b \<or> a = b \<and> u < v" for a b u v :: string
  by (induction a b rule: list_induct2) auto

lemma digits_padded:
  "\<lbrakk>0 \<le> n; n < 10 ^ w; 0 < w\<rbrakk> \<Longrightarrow> digits w (pad_zero w (dec_of_nat (nat n)) @ s) = Some (n, s)"
  using padded [of n w] by (simp add: digits_def)

lemma two_digits_facts:
  assumes "0 \<le> a" "a < 100"
  shows "length (two_digits a) = 2" and "digits 2 (two_digits a @ s) = Some (a, s)" and "hour_digits (two_digits a @ s) = Some (a, s)"
    and "\<lbrakk>0 \<le> b; b < 100\<rbrakk> \<Longrightarrow> (two_digits a < two_digits b) = (a < b)"
    and "\<lbrakk>0 \<le> b; b < 100\<rbrakk> \<Longrightarrow> (two_digits a = two_digits b) = (a = b)"
  using padded [of a 2] digits_padded [of a 2 s] padded_less [of a 2 b] assms
  by (simp_all add: two_digits_def hour_digits_def)

lemma valid_date_range: "valid_date y m d \<Longrightarrow> 1 \<le> m \<and> m < 100 \<and> 1 \<le> d \<and> d < 100"
proof -
  have "month_starts l ! i - month_starts l ! (i - 1) \<le> 31" if "1 \<le> i" "i \<le> 12" for l and i :: nat
  proof -
    have "\<forall>i\<in>set [1..<13]. month_starts l ! i - month_starts l ! (i - 1) \<le> 31"
      by (cases l) (simp_all add: month_starts_def upt_conv_Cons)
    with that show ?thesis by auto
  qed
  note b = this [of "nat m" "is_leap y"]
  show "1 \<le> m \<and> m < 100 \<and> 1 \<le> d \<and> d < 100" if v: "valid_date y m d"
  proof -
    have "1 \<le> nat m" "nat m \<le> 12" "nat (m - 1) = nat m - 1" using v by (auto simp: valid_date_def)
    with b v show ?thesis by (auto simp: valid_date_def days_in_def month_start_def)
  qed
qed

lemma clock_fields:
  fixes r :: int
  assumes "0 \<le> r" and "r < 86400"
  shows "0 \<le> r div 3600" "r div 3600 < 24" "0 \<le> r div 60 mod 60" "r div 60 mod 60 < 60" "0 \<le> r mod 60" "r mod 60 < 60"
    and "r div 3600 * 3600 + r div 60 mod 60 * 60 + r mod 60 = r"
proof -
  show "0 \<le> r div 3600" "r div 3600 < 24" "0 \<le> r div 60 mod 60" "r div 60 mod 60 < 60" "0 \<le> r mod 60" "r mod 60 < 60"
    using assms by auto
  have "r div 60 div 60 = r div 3600" by (simp add: zdiv_zmult2_eq [symmetric])
  then show "r div 3600 * 3600 + r div 60 mod 60 * 60 + r mod 60 = r"
    using div_mult_mod_eq [of "r div 60" 60] div_mult_mod_eq [of r 60] by linarith
qed

text \<open>What is written: six fields of fixed width.\<close>

definition time_text :: "int \<Rightarrow> int \<Rightarrow> int \<Rightarrow> int \<Rightarrow> int \<Rightarrow> int \<Rightarrow> string" where
  "time_text y m d h mi sc = year_digits y @ ''-'' @ two_digits m @ ''-'' @ two_digits d @ ''T'' @ two_digits h @ '':'' @
     two_digits mi @ '':'' @ two_digits sc @ ''Z''"

definition fields_ok :: "int \<Rightarrow> int \<Rightarrow> int \<Rightarrow> int \<Rightarrow> int \<Rightarrow> int \<Rightarrow> bool" where
  "fields_ok y m d h mi sc \<longleftrightarrow> 0 \<le> y \<and> y < 10000 \<and> valid_date y m d \<and> 0 \<le> h \<and> h < 24 \<and> 0 \<le> mi \<and> mi < 60 \<and> 0 \<le> sc \<and> sc < 60"

lemma format_fields:
  assumes "four_digit_year t"
  obtains y m d h mi sc where "format_rfc3339 t = time_text y m d h mi sc" and "fields_ok y m d h mi sc"
    and "date_of_days (t div second div 86400) = (y, m, d)" and "t div second mod 86400 = h * 3600 + mi * 60 + sc"
    and "t div second = days_of_date y m d * 86400 + h * 3600 + mi * 60 + sc"
proof -
  obtain y m d where ymd: "date_of_days (t div second div 86400) = (y, m, d)" by (cases "date_of_days (t div second div 86400)")
  define r where r: "r = t div second mod 86400"
  have "0 \<le> r" "r < 86400" by (simp_all add: r)
  note clock = clock_fields [OF this]
  show thesis
  proof (rule that)
    show "format_rfc3339 t = time_text y m d (r div 3600) (r div 60 mod 60) (r mod 60)"
      by (simp add: format_rfc3339_def format_date_def time_text_def ymd Let_def r)
    show "fields_ok y m d (r div 3600) (r div 60 mod 60) (r mod 60)"
      unfolding fields_ok_def using year_range [OF assms ymd] date_of_days_spec(1) [OF ymd] clock(1-6) by blast
    show "t div second mod 86400 = r div 3600 * 3600 + r div 60 mod 60 * 60 + r mod 60"
      by (rule trans [OF r [symmetric] clock(7) [symmetric]])
    show "t div second = days_of_date y m d * 86400 + r div 3600 * 3600 + r div 60 mod 60 * 60 + r mod 60"
      using clock(7) div_mult_mod_eq [of "t div second" 86400] unfolding date_of_days_spec(2) [OF ymd] r by linarith
  qed (rule ymd)
qed

lemma fields_digits:
  assumes "fields_ok y m d h mi sc"
  shows "digits 4 (year_digits y @ s) = Some (y, s)" and "digits 2 (two_digits m @ s) = Some (m, s)"
    and "digits 2 (two_digits d @ s) = Some (d, s)" and "hour_digits (two_digits h @ s) = Some (h, s)"
    and "digits 2 (two_digits mi @ s) = Some (mi, s)" and "digits 2 (two_digits sc @ s) = Some (sc, s)"
  using assms valid_date_range [of y m d] digits_padded [of y 4 s]
  by (simp_all add: fields_ok_def two_digits_facts year_digits_def)

lemma parse_time_text:
  assumes "fields_ok y m d h mi sc"
  shows "parse_rfc3339_utc (time_text y m d h mi sc) = Some ((days_of_date y m d * 86400 + h * 3600 + mi * 60 + sc) * second)"
proof -
  have "fraction ''Z'' = (0, ''Z'')" by (simp add: fraction_def Let_def)
  then show ?thesis
    using assms by (simp add: parse_rfc3339_utc_def time_text_def fields_digits [OF assms] lit_def fields_ok_def valid_date_def)
qed

lemma time_text_less:
  assumes "fields_ok y m d h mi sc" and "fields_ok y' m' d' h' mi' sc'"
    and "y < y' \<or> y = y' \<and> (m < m' \<or> m = m' \<and> d < d') \<or> y = y' \<and> m = m' \<and> d = d' \<and> h * 3600 + mi * 60 + sc < h' * 3600 + mi' * 60 + sc'"
  shows "time_text y m d h mi sc < time_text y' m' d' h' mi' sc'"
proof -
  have yl: "length (year_digits y) = 4" "length (year_digits y') = 4"
    "year_digits y < year_digits y' \<longleftrightarrow> y < y'" "year_digits y = year_digits y' \<longleftrightarrow> y = y'"
    using assms(1,2) padded [of y 4] padded [of y' 4] padded_less [of y 4 y'] by (simp_all add: fields_ok_def year_digits_def)
  note v = valid_date_range [of y m d] valid_date_range [of y' m' d']
  have "h < h' \<or> h = h' \<and> (mi < mi' \<or> mi = mi' \<and> sc < sc')" if "h * 3600 + mi * 60 + sc < h' * 3600 + mi' * 60 + sc'"
    using that assms(1,2) unfolding fields_ok_def by linarith
  with assms(3) have "y < y' \<or> y = y' \<and> (m < m' \<or> m = m' \<and> (d < d' \<or> d = d' \<and>
      (h < h' \<or> h = h' \<and> (mi < mi' \<or> mi = mi' \<and> sc < sc'))))" by blast
  then show ?thesis using assms(1,2) v by (simp add: time_text_def append_less yl two_digits_facts fields_ok_def)
qed

lemma parse_format_rfc3339:
  assumes "four_digit_year t"
  shows "parse_rfc3339_utc (format_rfc3339 t) = Some (t div second * second)"
proof -
  from assms obtain y m d h mi sc where f: "format_rfc3339 t = time_text y m d h mi sc" "fields_ok y m d h mi sc"
    "t div second = days_of_date y m d * 86400 + h * 3600 + mi * 60 + sc" by (rule format_fields)
  show ?thesis unfolding f(1) parse_time_text [OF f(2)] f(3) by (rule refl)
qed

section \<open>The order of texts\<close>

lemma formatted_less:
  assumes "four_digit_year t" and "four_digit_year t'" and "t div second < t' div second"
  shows "format_rfc3339 t < format_rfc3339 t'"
proof -
  from assms(1) obtain y m d h mi sc where f: "format_rfc3339 t = time_text y m d h mi sc" "fields_ok y m d h mi sc"
    "date_of_days (t div second div 86400) = (y, m, d)" "t div second mod 86400 = h * 3600 + mi * 60 + sc" by (rule format_fields)
  from assms(2) obtain y' m' d' h' mi' sc' where f': "format_rfc3339 t' = time_text y' m' d' h' mi' sc'" "fields_ok y' m' d' h' mi' sc'"
    "date_of_days (t' div second div 86400) = (y', m', d')" "t' div second mod 86400 = h' * 3600 + mi' * 60 + sc'" by (rule format_fields)
  show ?thesis unfolding f(1) f'(1)
  proof (rule time_text_less [OF f(2) f'(2)], cases "t div second div 86400 = t' div second div 86400")
    case True
    then have "y = y'" "m = m'" "d = d'" using f(3) f'(3) by auto
    moreover have "t div second mod 86400 < t' div second mod 86400"
      using True assms(3) div_mult_mod_eq [of "t div second" 86400] div_mult_mod_eq [of "t' div second" 86400] by linarith
    ultimately show "y < y' \<or> y = y' \<and> (m < m' \<or> m = m' \<and> d < d') \<or>
      y = y' \<and> m = m' \<and> d = d' \<and> h * 3600 + mi * 60 + sc < h' * 3600 + mi' * 60 + sc'" using f(4) f'(4) by simp
  next
    case False
    have "t div second div 86400 \<le> t' div second div 86400" using zdiv_mono1 [OF less_imp_le [OF assms(3)], of 86400] by simp
    with False have "t div second div 86400 < t' div second div 86400" by simp
    from dates_ordered [OF f(3) f'(3) this] show "y < y' \<or> y = y' \<and> (m < m' \<or> m = m' \<and> d < d') \<or>
      y = y' \<and> m = m' \<and> d = d' \<and> h * 3600 + mi * 60 + sc < h' * 3600 + mi' * 60 + sc'" by blast
  qed
qed

text \<open>The texts of two times compare, byte by byte as the database does, as the times to the second.\<close>

lemma formatted_less_iff:
  assumes "four_digit_year t" and "four_digit_year t'"
  shows "format_rfc3339 t < format_rfc3339 t' \<longleftrightarrow> t div second < t' div second"
proof (cases "t div second" "t' div second" rule: linorder_cases)
  case less
  with formatted_less [OF assms] show ?thesis by simp
next
  case equal
  then show ?thesis by (simp add: format_rfc3339_def format_date_def)
next
  case greater
  with formatted_less [OF assms(2,1)] show ?thesis by simp
qed

end
