(* ===== verification/App_Signals.thy ===== *)
theory App_Signals
  imports App_Ticks Go_Time
begin

text \<open>
  The signals: \<open>ListSignals\<close> (\<open>internal/store/launch_index.go\<close>) computes them from the tables, and
  \<open>logSignals\<close> (\<open>internal/app/ticks.go\<close>) reports each once a day. Where the SQL leaves the order of rows
  open, the order is a parameter. The reason of a signal is a fixed text per kind, and is left out.
\<close>

section \<open>ListSignals\<close>

record signal =
  sg_kind :: string
  sg_token :: string
  sg_wallet :: string
  sg_category :: string

text \<open>The order in which the database meets the rows of the two joins.\<close>

record row_order =
  ro_creators :: "(launch_row \<times> smart_wallet) list \<Rightarrow> (launch_row \<times> smart_wallet) list"
  ro_launches :: "(wallet_event \<times> smart_wallet) list \<Rightarrow> (wallet_event \<times> smart_wallet) list"

text \<open>\<open>SELECT DISTINCT\<close>: the first row of every value.\<close>

function distinct_on :: "('a \<Rightarrow> 'k) \<Rightarrow> 'a list \<Rightarrow> 'a list" where
  "distinct_on f [] = []"
| "distinct_on f (x # xs) = x # distinct_on f (filter (\<lambda>y. f y \<noteq> f x) xs)"
  by pat_completeness auto
termination by (relation "measure (\<lambda>(_, xs). length xs)") (auto simp: le_imp_less_Suc)

definition signal_value :: "signal \<Rightarrow> string \<times> string \<times> string \<times> string" where
  "signal_value s = (sg_kind s, to_lower (sg_token s), to_lower (sg_wallet s), sg_category s)"

definition creator_signal :: "launch_row \<times> smart_wallet \<Rightarrow> signal" where
  "creator_signal = (\<lambda>(r, w). \<lparr>sg_kind = ''smart_launch'', sg_token = lr_token r, sg_wallet = sw_address w, sg_category = lr_category r\<rparr>)"

definition launch_signal :: "wallet_event \<times> smart_wallet \<Rightarrow> signal" where
  "launch_signal = (\<lambda>(e, w). \<lparr>sg_kind = ''score_launch'', sg_token = we_token e, sg_wallet = sw_address w, sg_category = we_category e\<rparr>)"

definition smart_launches :: "row_order \<Rightarrow> db \<Rightarrow> signal list" where
  "smart_launches ro d =
     map creator_signal (rev (sort_key (\<lambda>(r, w). lr_created_at r) (sort_key (\<lambda>(r, w). to_lower (lr_token r))
       (distinct_on (\<lambda>x. signal_value (creator_signal x)) (ro_creators ro
         (filter (\<lambda>(r, w). (equal_fold (sw_address w) (lr_creator_eoa r) \<or>
              lr_creator_contract r \<noteq> [] \<and> equal_fold (sw_address w) (lr_creator_contract r)) \<and>
            sw_level w \<in> {''S'', ''A'', ''B''}) (List.product (db_index d) (db_wallets d))))))))"

definition early_buyers :: "db \<Rightarrow> launch_row \<Rightarrow> string list" where
  "early_buyers d r =
     remdups (map (\<lambda>e. to_lower (we_wallet e)) (filter (\<lambda>e. equal_fold (we_token e) (lr_token r) \<and> we_kind e = ''buy'' \<and>
       lr_created_at r \<le> we_chain_time e \<and> we_chain_time e \<le> lr_created_at r + 3600 * second) (db_events d)))"

definition cluster_buys :: "db \<Rightarrow> signal list" where
  "cluster_buys d =
     map (\<lambda>r. \<lparr>sg_kind = ''cluster_buy'', sg_token = lr_token r, sg_wallet = [], sg_category = lr_category r\<rparr>)
       (filter (\<lambda>r. 2 \<le> length (early_buyers d r)) (launches_desc [] d))"

definition score_launches :: "row_order \<Rightarrow> time \<Rightarrow> db \<Rightarrow> signal list" where
  "score_launches ro now d =
     map launch_signal (rev (sort_key (\<lambda>(e, w). we_chain_time e) (sort_key (\<lambda>(e, w). we_id e)
       (distinct_on (\<lambda>x. signal_value (launch_signal x)) (ro_launches ro
         (filter (\<lambda>(e, w). equal_fold (sw_address w) (we_wallet e) \<and> we_kind e = ''launch'' \<and>
            rfc3339 (now - 7 * day) \<le> we_chain_time e \<and> 50 \<le> sw_score w \<and> 8 \<le> sw_score_sample_n w)
           (List.product (db_events d) (db_wallets d))))))))"

definition list_signals :: "row_order \<Rightarrow> err option \<Rightarrow> string \<Rightarrow> int \<Rightarrow> time \<Rightarrow> db \<Rightarrow> signal list res" where
  "list_signals ro fault kind limit now d =
     guardE (limit < 1 \<or> 200 < limit) E_limit
       (bindE (if kind = ''smart_launch'' then Inr (smart_launches ro d)
               else if kind = ''cluster_buy'' then Inr (cluster_buys d)
               else if kind = ''score_launch'' then Inr (score_launches ro now d)
               else Inl E_limit) (\<lambda>rows.
        case fault of Some e \<Rightarrow> Inl e | None \<Rightarrow> Inr (take (nat limit) rows)))"

section \<open>logSignals\<close>

text \<open>The day, the kind and the token, or the wallet when there is no token.\<close>

definition signal_key :: "time \<Rightarrow> string \<Rightarrow> signal \<Rightarrow> string" where
  "signal_key now kind s = format_date now @ ''|'' @ kind @ ''|'' @ (if sg_token s = [] then sg_wallet s else sg_token s)"

fun log_rows ::
  "((string \<times> time) list \<Rightarrow> (string \<times> time) list) \<Rightarrow> time \<Rightarrow> string \<Rightarrow> signal list \<Rightarrow> (string \<times> time) list \<Rightarrow>
   (string \<times> time) list \<times> signal list" where
  "log_rows visit now kind [] seen = (seen, [])"
| "log_rows visit now kind (s # rows) seen =
     (case remember_signal visit (signal_key now kind s) now seen of
        (seen1, fresh) \<Rightarrow>
          (case log_rows visit now kind rows seen1 of (seen2, out) \<Rightarrow> (seen2, if fresh then s # out else out)))"

text \<open>\<open>answers kind\<close> is the answer of \<open>ListSignals\<close>; a failed query is logged and skipped.\<close>

fun log_kinds ::
  "((string \<times> time) list \<Rightarrow> (string \<times> time) list) \<Rightarrow> time \<Rightarrow> (string \<Rightarrow> signal list res) \<Rightarrow> string list \<Rightarrow>
   (string \<times> time) list \<Rightarrow> (string \<times> time) list \<times> signal list" where
  "log_kinds visit now answers [] seen = (seen, [])"
| "log_kinds visit now answers (kind # kinds) seen =
     (case (case answers kind of Inl _ \<Rightarrow> (seen, []) | Inr rows \<Rightarrow> log_rows visit now kind rows seen) of
        (seen1, out) \<Rightarrow>
          (case log_kinds visit now answers kinds seen1 of (seen2, out2) \<Rightarrow> (seen2, out @ out2)))"

definition log_signals ::
  "row_order \<Rightarrow> (string \<Rightarrow> err option) \<Rightarrow> ((string \<times> time) list \<Rightarrow> (string \<times> time) list) \<Rightarrow> time \<Rightarrow> db \<Rightarrow>
   (string \<times> time) list \<Rightarrow> (string \<times> time) list \<times> signal list" where
  "log_signals ro faults visit now d seen =
     log_kinds visit now (\<lambda>kind. list_signals ro (faults kind) kind 20 now d) [''smart_launch'', ''cluster_buy'', ''score_launch''] seen"

section \<open>A memory with room\<close>

abbreviation remembered :: "(string \<times> time) list \<Rightarrow> string \<Rightarrow> bool" where
  "remembered seen key \<equiv> map_of seen key \<noteq> None"

text \<open>Below a thousand keys nothing is forgotten.\<close>

lemma remember_with_room:
  assumes "remember_signal visit key t seen = (seen1, fresh)" and "length seen < 1000"
  shows "fresh \<longleftrightarrow> \<not> remembered seen key" and "remembered seen1 k \<longleftrightarrow> k = key \<or> remembered seen k"
    and "length seen1 \<le> length seen + 1"
  using assms by (auto simp: remember_signal_def update_conv update_length split: if_splits)

abbreviation key_of :: "time \<Rightarrow> signal \<Rightarrow> string" where
  "key_of now s \<equiv> signal_key now (sg_kind s) s"

text \<open>A step over some rows remembers all of them, and reports each key that is new once.\<close>

definition reports :: "time \<Rightarrow> signal list \<Rightarrow> (string \<times> time) list \<Rightarrow> (string \<times> time) list \<Rightarrow> signal list \<Rightarrow> bool" where
  "reports now rows seen seen1 out \<longleftrightarrow>
     (\<forall>k. remembered seen1 k \<longleftrightarrow> remembered seen k \<or> k \<in> key_of now ` set rows) \<and> set out \<subseteq> set rows \<and>
     key_of now ` set out = {k \<in> key_of now ` set rows. \<not> remembered seen k} \<and> distinct (map (key_of now) out) \<and>
     (out = [] \<longrightarrow> seen1 = seen) \<and> length seen1 \<le> length seen + length rows"

lemma reports_Nil [simp]: "reports now [] seen seen []"
  by (simp add: reports_def)

lemma reports_append:
  assumes "reports now rows seen seen1 out" and "reports now rows' seen1 seen2 out'"
  shows "reports now (rows @ rows') seen seen2 (out @ out')"
proof -
  define K K' U U' where k: "K = key_of now ` set rows" "K' = key_of now ` set rows'" "U = key_of now ` set out" "U' = key_of now ` set out'"
  have "\<forall>k. remembered seen1 k \<longleftrightarrow> remembered seen k \<or> k \<in> K" using assms(1) unfolding reports_def k by (elim conjE)
  moreover have "U = {k \<in> K. \<not> remembered seen k}" using assms(1) unfolding reports_def k by (elim conjE)
  moreover have "\<forall>k. remembered seen2 k \<longleftrightarrow> remembered seen1 k \<or> k \<in> K'" using assms(2) unfolding reports_def k by (elim conjE)
  moreover have "U' = {k \<in> K'. \<not> remembered seen1 k}" using assms(2) unfolding reports_def k by (elim conjE)
  ultimately have "U \<inter> U' = {}" "U \<union> U' = {k \<in> K \<union> K'. \<not> remembered seen k}"
    "\<forall>k. remembered seen2 k \<longleftrightarrow> remembered seen k \<or> k \<in> K \<union> K'" by auto
  then show ?thesis using assms unfolding reports_def map_append distinct_append set_append image_Un set_map k
    by (auto simp del: image_iff)
qed

lemma log_rows_reports:
  "\<lbrakk>log_rows visit now kind rows seen = (seen1, out); length seen + length rows \<le> 1000; \<forall>s\<in>set rows. sg_kind s = kind\<rbrakk> \<Longrightarrow>
   reports now rows seen seen1 out"
proof (induction rows arbitrary: seen out)
  case (Cons s rows)
  obtain seen2 fresh where r: "remember_signal visit (signal_key now kind s) now seen = (seen2, fresh)"
    by (cases "remember_signal visit (signal_key now kind s) now seen")
  obtain out2 where l: "log_rows visit now kind rows seen2 = (seen1, out2)" "out = (if fresh then [s] else []) @ out2"
    using Cons.prems(1) r by (auto split: prod.splits)
  have room: "length seen < 1000" using Cons.prems(2) by simp
  note f = remember_with_room [OF r room]
  have "fresh \<or> seen2 = seen" using r by (auto simp: remember_signal_def split: if_splits)
  with f Cons.prems(3) have "reports now [s] seen seen2 (if fresh then [s] else [])" by (auto simp: reports_def)
  moreover have "reports now rows seen2 seen1 out2"
    using Cons.IH [OF l(1)] f(3) Cons.prems(2,3) by auto
  ultimately have "reports now ([s] @ rows) seen seen1 ((if fresh then [s] else []) @ out2)" by (rule reports_append)
  then show ?case using l(2) by simp
qed simp

definition listed :: "(string \<Rightarrow> signal list res) \<Rightarrow> string list \<Rightarrow> signal list" where
  "listed answers kinds = concat (map (\<lambda>kind. case answers kind of Inl _ \<Rightarrow> [] | Inr rows \<Rightarrow> rows) kinds)"

lemma log_kinds_reports:
  "\<lbrakk>log_kinds visit now answers kinds seen = (seen1, out); length seen + length (listed answers kinds) \<le> 1000;
    \<forall>kind rows. answers kind = Inr rows \<longrightarrow> (\<forall>s\<in>set rows. sg_kind s = kind)\<rbrakk> \<Longrightarrow>
   reports now (listed answers kinds) seen seen1 out"
proof (induction kinds arbitrary: seen out)
  case (Cons kind kinds)
  define rows where rows: "rows = (case answers kind of Inl _ \<Rightarrow> [] | Inr rows \<Rightarrow> rows)"
  have k: "\<forall>s\<in>set rows. sg_kind s = kind" using Cons.prems(3) by (cases "answers kind") (simp_all add: rows)
  obtain seen2 out1 where r: "log_rows visit now kind rows seen = (seen2, out1)" by (cases "log_rows visit now kind rows seen")
  obtain out2 where l: "log_kinds visit now answers kinds seen2 = (seen1, out2)" "out = out1 @ out2"
    using Cons.prems(1) r by (cases "answers kind") (auto simp: rows split: prod.splits)
  have a: "listed answers (kind # kinds) = rows @ listed answers kinds" by (simp add: listed_def rows)
  have f: "reports now rows seen seen2 out1" using log_rows_reports [OF r _ k] Cons.prems(2) a by simp
  then have "length seen2 \<le> length seen + length rows" by (simp add: reports_def)
  then have "reports now (listed answers kinds) seen2 seen1 out2"
    using Cons.IH [OF l(1) _ Cons.prems(3)] Cons.prems(2) a by simp
  with f show ?case unfolding a l(2) by (rule reports_append)
qed (simp add: listed_def)

lemma list_signals_kind: "list_signals ro fault kind limit now d = Inr rows \<Longrightarrow> \<forall>s\<in>set rows. sg_kind s = kind"
  by (auto simp: list_signals_def smart_launches_def cluster_buys_def score_launches_def creator_signal_def launch_signal_def
      res_simps split: if_splits option.splits dest!: in_set_takeD)

lemma list_signals_length: "list_signals ro fault kind limit now d = Inr rows \<Longrightarrow> length rows \<le> nat limit"
  by (auto simp: list_signals_def res_simps split: option.splits)

section \<open>Properties\<close>

text \<open>The signals that a run meets.\<close>

definition signals_of :: "row_order \<Rightarrow> (string \<Rightarrow> err option) \<Rightarrow> time \<Rightarrow> db \<Rightarrow> signal list" where
  "signals_of ro faults now d =
     listed (\<lambda>kind. list_signals ro (faults kind) kind 20 now d) [''smart_launch'', ''cluster_buy'', ''score_launch'']"

lemma signals_of_length: "length (signals_of ro faults now d) \<le> 60"
proof -
  have "length (case list_signals ro (faults kind) kind 20 now d of Inl _ \<Rightarrow> [] | Inr rows \<Rightarrow> rows) \<le> 20" for kind
    using list_signals_length [of ro "faults kind" kind 20 now d] by (auto split: sum.splits)
  from this [of "''smart_launch''"] this [of "''cluster_buy''"] this [of "''score_launch''"] show ?thesis
    by (simp add: signals_of_def listed_def)
qed

lemma log_signals_reports:
  assumes "log_signals ro faults visit now d seen = (seen1, out)" and "length seen \<le> 940"
  shows "reports now (signals_of ro faults now d) seen seen1 out"
  using assms signals_of_length [of ro faults now d] list_signals_kind unfolding log_signals_def signals_of_def
  by (intro log_kinds_reports) auto

text \<open>C14. While the memory has room for a run, the run reports every signal whose day, kind and subject are
  not remembered, and each such key once; and a later run of the same day over signals listed before reports
  nothing.\<close>

theorem signals_are_reported_once_a_day:
  assumes "log_signals ro faults visit now d seen = (seen1, out)" and "length seen \<le> 880"
  shows "key_of now ` set out = {k \<in> key_of now ` set (signals_of ro faults now d). map_of seen k = None} \<and>
    distinct (map (key_of now) out) \<and> set out \<subseteq> set (signals_of ro faults now d) \<and>
    (format_date now' = format_date now \<and> set (signals_of ro' faults' now' d') \<subseteq> set (signals_of ro faults now d) \<longrightarrow>
      log_signals ro' faults' visit now' d' seen1 = (seen1, []))"
proof -
  have r: "reports now (signals_of ro faults now d) seen seen1 out" using log_signals_reports [OF assms(1)] assms(2) by simp
  have "log_signals ro' faults' visit now' d' seen1 = (seen1, [])"
    if day: "format_date now' = format_date now" and sub: "set (signals_of ro' faults' now' d') \<subseteq> set (signals_of ro faults now d)"
  proof -
    obtain seen2 out2 where l: "log_signals ro' faults' visit now' d' seen1 = (seen2, out2)" by (cases "log_signals ro' faults' visit now' d' seen1")
    have "length seen1 \<le> 940" using r assms(2) signals_of_length [of ro faults now d] by (simp add: reports_def)
    from log_signals_reports [OF l this] have r2: "reports now' (signals_of ro' faults' now' d') seen1 seen2 out2" .
    have key: "key_of now' = key_of now" using day by (simp add: signal_key_def [abs_def])
    have "k \<in> key_of now ` set (signals_of ro faults now d)" if "k \<in> key_of now' ` set (signals_of ro' faults' now' d')" for k
      using that sub unfolding key by blast
    moreover have "\<forall>k. remembered seen1 k \<longleftrightarrow> remembered seen k \<or> k \<in> key_of now ` set (signals_of ro faults now d)"
      using r unfolding reports_def by (elim conjE)
    ultimately have m: "remembered seen1 k" if "k \<in> key_of now' ` set (signals_of ro' faults' now' d')" for k using that by simp
    have "key_of now' ` set out2 = {k \<in> key_of now' ` set (signals_of ro' faults' now' d'). \<not> remembered seen1 k}"
      using r2 unfolding reports_def by (elim conjE)
    then have "key_of now' ` set out2 = {}" using m by (simp only: Collect_empty_eq) simp
    then have "out2 = []" by simp
    with r2 l show ?thesis by (simp add: reports_def)
  qed
  with r show ?thesis by (auto simp: reports_def)
qed

definition ex_order :: row_order where
  "ex_order = \<lparr>ro_creators = (\<lambda>xs. xs), ro_launches = rev\<rparr>"

definition ex_signal_db :: db where
  "ex_signal_db = one_launch_db\<lparr>db_wallets := [ex_wallet_row\<lparr>sw_address := lr_creator_eoa (hd (db_index one_launch_db)), sw_level := ''A''\<rparr>]\<rparr>"

theorem signals_are_reported_once_a_day_witness:
  "\<exists>seen1 out. log_signals ex_order (\<lambda>_. None) rev 0 ex_signal_db [] = (seen1, out) \<and> length out = 1 \<and>
     log_signals ex_order (\<lambda>_. None) rev (3600 * second) ex_signal_db seen1 = (seen1, [])"
proof -
  obtain seen1 out where l: "log_signals ex_order (\<lambda>_. None) rev 0 ex_signal_db [] = (seen1, out)"
    by (cases "log_signals ex_order (\<lambda>_. None) rev 0 ex_signal_db []")
  have "length (snd (log_signals ex_order (\<lambda>_. None) rev 0 ex_signal_db [])) = 1" by code_simp
  moreover have "format_date (3600 * second) = format_date 0" by code_simp
  moreover have "signals_of ex_order (\<lambda>_. None) (3600 * second) ex_signal_db = signals_of ex_order (\<lambda>_. None) 0 ex_signal_db"
    by code_simp
  ultimately show ?thesis
    using signals_are_reported_once_a_day [OF l, where now' = "3600 * second" and ro' = ex_order
        and faults' = "\<lambda>_. None" and d' = ex_signal_db] l by simp
qed

end
