(* ===== verification/Config_Load.thy ===== *)
theory Config_Load
  imports App_Ticks Chain_Pool
begin

text \<open>
  \<open>internal/config\<close>: the configuration of the process from environment variables (\<open>config.go\<close>) and the
  list of endpoints from a file (\<open>rpcs.go\<close>), and how \<open>New\<close> (\<open>app.go\<close>) hands it to the components.

  The surroundings are the record \<open>config_env\<close>: the variables, the files, and \<open>encoding/json\<close> and
  \<open>url.Parse\<close>. A text is checked as in the code; the fixed fields of the HTTP server are left out.
\<close>

section \<open>Data\<close>

record rpc_file_item =
  ri_rpc :: string
  ri_qps :: int

record config_endpoint =
  ce_url :: string
  ce_qps :: int

record loaded_rpc_file =
  lf_path :: string
  lf_endpoints :: "config_endpoint list"
  lf_skip_history_lag :: int

record config =
  cf_rpc_url :: string
  cf_trace_rpc_url :: string
  cf_http_user_agent :: string
  cf_sqlite_path :: string
  cf_log_level :: string
  cf_log_dir :: string
  cf_rpc_endpoints_file :: string
  cf_block_fetch_mode :: string
  cf_receipt_method :: string
  cf_rpc_endpoints :: "config_endpoint list"
  cf_binance_base_url :: string
  cf_binance_eth_symbol :: string
  cf_from_block :: u64
  cf_chain_id :: u64
  cf_poll_ms :: int
  cf_max_blocks_per_tick :: int
  cf_rpc_timeout_ms :: int
  cf_trace_timeout_ms :: int
  cf_price_flush_sec :: int
  cf_wallet_reload_ms :: int
  cf_score_interval_sec :: int
  cf_signal_interval_sec :: int
  cf_health_lag_warn :: int
  cf_http_query_ms :: int
  cf_dirty_token_cap :: int
  cf_ethusd_poll_sec :: int
  cf_binance_timeout_ms :: int
  cf_ethusd_ttl_sec :: int
  cf_ethusd_stale_sec :: int
  cf_event_retention_days :: int
  cf_event_purge_interval_sec :: int
  cf_event_purge_batch :: int
  cf_event_purge_sleep_ms :: int
  cf_event_purge_max_per_run :: int
  cf_skip_history_lag :: int
  cf_host :: string
  cf_port :: int

text \<open>A file that does not exist is read as \<open>Inr None\<close>.\<close>

record config_env =
  en_var :: "string \<Rightarrow> string"
  en_file :: "string \<Rightarrow> string option res"
  en_json_items :: "string \<Rightarrow> rpc_file_item list res"
  en_json_envelope :: "string \<Rightarrow> (int option \<times> rpc_file_item list) res"
  en_http_url :: "string \<Rightarrow> bool"

section \<open>Variables\<close>

definition env_string :: "config_env \<Rightarrow> string \<Rightarrow> string \<Rightarrow> string" where
  "env_string en k d = (let v = trim_space (en_var en k) in if v \<noteq> [] then v else d)"

definition env_int :: "config_env \<Rightarrow> string \<Rightarrow> int \<Rightarrow> int res" where
  "env_int en k d =
     (let v = trim_space (en_var en k)
      in if v = [] then Inr d else case atoi v of None \<Rightarrow> Inl E_config | Some n \<Rightarrow> Inr n)"

definition env_uint :: "config_env \<Rightarrow> string \<Rightarrow> u64 \<Rightarrow> u64 res" where
  "env_uint en k d =
     (let v = trim_space (en_var en k)
      in if v = [] then Inr d else case parse_uint_10 v of Inl _ \<Rightarrow> Inl E_config | Inr n \<Rightarrow> Inr n)"

text \<open>\<open>os.ExpandEnv\<close>: a dollar, then a name, a name in braces, or one special character.\<close>

definition shell_special :: "char \<Rightarrow> bool" where
  "shell_special c \<longleftrightarrow> c \<in> set ''*#$@!?-0123456789''"

definition alpha_num :: "char \<Rightarrow> bool" where
  "alpha_num c \<longleftrightarrow> c = CHR ''_'' \<or> is_dec_char c \<or> (let l = lower_char c in CHR ''a'' \<le> l \<and> l \<le> CHR ''z'')"

text \<open>The name after a dollar, and how many characters it takes.\<close>

definition shell_name :: "string \<Rightarrow> string \<times> nat" where
  "shell_name s =
     (case s of
        [] \<Rightarrow> ([], 0)
      | c # r \<Rightarrow>
          if c = CHR ''{'' then
            (if 2 < length s \<and> shell_special (s ! 1) \<and> s ! 2 = CHR ''}'' then ([s ! 1], 3)
             else let name = takeWhile (\<lambda>x. x \<noteq> CHR ''}'') r
                  in if length name = length r then ([], 1)
                     else if name = [] then ([], 2) else (name, length name + 2))
          else if shell_special c then ([c], 1)
          else let name = takeWhile alpha_num s in (name, length name))"

function expand_env :: "(string \<Rightarrow> string) \<Rightarrow> string \<Rightarrow> string" where
  "expand_env var [] = []"
| "expand_env var (c # s) =
     (if c \<noteq> CHR ''$'' \<or> s = [] then c # expand_env var s
      else case shell_name s of
        (name, n) \<Rightarrow>
          (if name \<noteq> [] then var name else if 0 < n then [] else [c]) @ expand_env var (drop n s))"
  by pat_completeness auto
termination by (relation "measure (\<lambda>(var, s). length s)") auto

section \<open>The list of endpoints (rpcs.go)\<close>

definition default_rpc_endpoints_file :: string where "default_rpc_endpoints_file = ''configs/rpcs.json''"
definition default_skip_history_lag :: int where "default_skip_history_lag = 100"
definition max_rpc_endpoints :: nat where "max_rpc_endpoints = 32"
definition max_rpc_qps :: int where "max_rpc_qps = 1000"

definition looks_unresolved_env :: "string \<Rightarrow> bool" where
  "looks_unresolved_env value \<longleftrightarrow> contains_sub value ''${'' \<and> contains_sub value ''}''"

text \<open>\<open>seen\<close> is the set of the URLs before.\<close>

fun normalize_items :: "config_env \<Rightarrow> rpc_file_item list \<Rightarrow> string list \<Rightarrow> config_endpoint list res" where
  "normalize_items en [] seen = Inr []"
| "normalize_items en (item # items) seen =
     (let url = trim_space (expand_env (en_var en) (ri_rpc item))
      in if url = [] \<or> looks_unresolved_env url then normalize_items en items seen
         else guardE (\<not> en_http_url en url) E_config
             (guardE (ri_qps item < 1 \<or> max_rpc_qps < ri_qps item) E_config
             (guardE (url \<in> set seen) E_config
               (bindE (normalize_items en items (url # seen)) (\<lambda>rest. Inr (\<lparr>ce_url = url, ce_qps = ri_qps item\<rparr> # rest))))))"

definition normalize_rpc_items :: "config_env \<Rightarrow> rpc_file_item list \<Rightarrow> config_endpoint list res" where
  "normalize_rpc_items en items =
     guardE (items = []) E_config (guardE (max_rpc_endpoints < length items) E_config (normalize_items en items []))"

definition parse_rpc_file :: "config_env \<Rightarrow> string \<Rightarrow> (config_endpoint list \<times> int option) res" where
  "parse_rpc_file en raw0 =
     (let raw = trim_space raw0
      in case raw of
           [] \<Rightarrow> Inl E_config
         | c # _ \<Rightarrow>
             bindE (if c = CHR ''['' then bindE (en_json_items en raw) (\<lambda>items. Inr (None, items))
                    else if c = CHR ''{'' then en_json_envelope en raw
                    else Inl E_config) (\<lambda>(lag, items).
             bindE (normalize_rpc_items en items) (\<lambda>endpoints. Inr (endpoints, lag))))"

definition resolve_skip_history_lag :: "config_env \<Rightarrow> int option \<Rightarrow> int res" where
  "resolve_skip_history_lag en from_file =
     (if trim_space (en_var en ''RH_SKIP_HISTORY_LAG'') \<noteq> []
      then bindE (env_int en ''RH_SKIP_HISTORY_LAG'' default_skip_history_lag) (\<lambda>n. guardE (n < 0) E_config (Inr n))
      else case from_file of
        Some n \<Rightarrow> guardE (n < 0) E_config (Inr n)
      | None \<Rightarrow> Inr default_skip_history_lag)"

definition fallback_rpc_endpoint :: "config_env \<Rightarrow> string \<Rightarrow> string \<Rightarrow> loaded_rpc_file res" where
  "fallback_rpc_endpoint en rpc_url path =
     (let url = trim_space rpc_url
      in guardE (url = []) E_config (guardE (\<not> en_http_url en url) E_config
        (bindE (resolve_skip_history_lag en None) (\<lambda>lag.
           Inr \<lparr>lf_path = path, lf_endpoints = [\<lparr>ce_url = url, ce_qps = 1\<rparr>], lf_skip_history_lag = lag\<rparr>))))"

definition load_rpc_endpoints :: "config_env \<Rightarrow> string \<Rightarrow> string \<Rightarrow> loaded_rpc_file res" where
  "load_rpc_endpoints en rpc_url path0 =
     (let path = (if trim_space path0 = [] then default_rpc_endpoints_file else trim_space path0)
      in bindE (en_file en path) (\<lambda>content.
         case content of
           None \<Rightarrow> fallback_rpc_endpoint en rpc_url path
         | Some raw \<Rightarrow>
             bindE (parse_rpc_file en raw) (\<lambda>(endpoints, lag).
             guardE (endpoints = []) E_config
               (bindE (resolve_skip_history_lag en lag) (\<lambda>skip.
                  Inr \<lparr>lf_path = path, lf_endpoints = endpoints, lf_skip_history_lag = skip\<rparr>)))))"

section \<open>The whole configuration (config.go)\<close>

text \<open>\<open>net.SplitHostPort\<close>.\<close>

definition split_host_port :: "string \<Rightarrow> (string \<times> string) res" where
  "split_host_port addr =
     (let port = rev (takeWhile (\<lambda>c. c \<noteq> CHR '':'') (rev addr));
          i = length addr - length port - 1
      in guardE (length port = length addr) E_config
        (if take 1 addr = ''['' then
           (let inner = takeWhile (\<lambda>c. c \<noteq> CHR '']'') addr; e = length inner
            in guardE (e = length addr \<or> e + 1 \<noteq> i) E_config
              (guardE (CHR ''['' \<in> set (drop 1 addr) \<or> CHR '']'' \<in> set (drop (e + 1) addr)) E_config
                (Inr (drop 1 inner, port))))
         else
           (let host = take i addr
            in guardE (CHR '':'' \<in> set host) E_config
              (guardE (CHR ''['' \<in> set addr \<or> CHR '']'' \<in> set addr) E_config (Inr (host, port))))))"

definition set_http :: "string \<Rightarrow> config \<Rightarrow> config res" where
  "set_http addr c =
     bindE (split_host_port addr) (\<lambda>(host, port_text).
       case atoi port_text of
         None \<Rightarrow> Inl E_config
       | Some port \<Rightarrow> guardE (port < 1 \<or> 65535 < port) E_config (Inr (c\<lparr>cf_host := host, cf_port := port\<rparr>)))"

definition validate :: "config \<Rightarrow> unit res" where
  "validate c =
     guardE (cf_rpc_endpoints c = []) E_config
    (guardE (cf_chain_id c = 0) E_config
    (guardE (cf_skip_history_lag c < 0) E_config
    (guardE (\<exists>v\<in>set [cf_poll_ms c, cf_max_blocks_per_tick c, cf_rpc_timeout_ms c, cf_trace_timeout_ms c,
        cf_score_interval_sec c, cf_signal_interval_sec c, cf_http_query_ms c, cf_dirty_token_cap c, cf_ethusd_poll_sec c,
        cf_binance_timeout_ms c, cf_ethusd_ttl_sec c, cf_ethusd_stale_sec c, cf_event_purge_interval_sec c,
        cf_event_purge_max_per_run c]. v < 1) E_config
    (guardE (cf_wallet_reload_ms c < 1 \<or> 1000 < cf_wallet_reload_ms c) E_config
    (guardE (cf_price_flush_sec c < 1) E_config
    (guardE (cf_event_retention_days c < 1) E_config
    (guardE (cf_event_purge_batch c < 1 \<or> 5000 < cf_event_purge_batch c) E_config
    (guardE (cf_event_purge_sleep_ms c < 0) E_config
    (guardE (cf_event_purge_max_per_run c < cf_event_purge_batch c) E_config
    (guardE (cf_ethusd_stale_sec c < cf_ethusd_ttl_sec c) E_config
    (guardE (cf_log_level c \<notin> {''debug'', ''info'', ''warn'', ''error''}) E_config
    (guardE (cf_log_dir c \<noteq> [] \<and> \<not> has_prefix (cf_log_dir c) ''/'') E_config
    (guardE (cf_block_fetch_mode c \<notin> {''batch'', ''pair''}) E_config
    (guardE (cf_receipt_method c \<notin> {''eth_getBlockReceipts'', ''alchemy_getTransactionReceipts''}) E_config
       (Inr ())))))))))))))))"

text \<open>The table of integer settings: key, default and field.\<close>

definition int_settings :: "(string \<times> int \<times> (int \<Rightarrow> config \<Rightarrow> config)) list" where
  "int_settings =
     [(''RH_POLL_MS'', 80, \<lambda>n c. c\<lparr>cf_poll_ms := n\<rparr>),
      (''RH_MAX_BLOCKS_PER_TICK'', 10, \<lambda>n c. c\<lparr>cf_max_blocks_per_tick := n\<rparr>),
      (''RH_RPC_TIMEOUT_MS'', 8000, \<lambda>n c. c\<lparr>cf_rpc_timeout_ms := n\<rparr>),
      (''RH_TRACE_TIMEOUT_MS'', 8000, \<lambda>n c. c\<lparr>cf_trace_timeout_ms := n\<rparr>),
      (''RH_PRICE_FLUSH_SEC'', 3, \<lambda>n c. c\<lparr>cf_price_flush_sec := n\<rparr>),
      (''RH_WALLET_RELOAD_MS'', 1000, \<lambda>n c. c\<lparr>cf_wallet_reload_ms := n\<rparr>),
      (''RH_SCORE_INTERVAL_SEC'', 3600, \<lambda>n c. c\<lparr>cf_score_interval_sec := n\<rparr>),
      (''RH_SIGNAL_INTERVAL_SEC'', 3600, \<lambda>n c. c\<lparr>cf_signal_interval_sec := n\<rparr>),
      (''RH_HEALTH_LAG_WARN'', 50, \<lambda>n c. c\<lparr>cf_health_lag_warn := n\<rparr>),
      (''RH_HTTP_QUERY_MS'', 3000, \<lambda>n c. c\<lparr>cf_http_query_ms := n\<rparr>),
      (''RH_DIRTY_TOKEN_CAP'', 5000, \<lambda>n c. c\<lparr>cf_dirty_token_cap := n\<rparr>),
      (''RH_ETHUSD_POLL_SEC'', 10, \<lambda>n c. c\<lparr>cf_ethusd_poll_sec := n\<rparr>),
      (''RH_BINANCE_TIMEOUT_MS'', 3000, \<lambda>n c. c\<lparr>cf_binance_timeout_ms := n\<rparr>),
      (''RH_ETHUSD_TTL_SEC'', 30, \<lambda>n c. c\<lparr>cf_ethusd_ttl_sec := n\<rparr>),
      (''RH_ETHUSD_STALE_SEC'', 300, \<lambda>n c. c\<lparr>cf_ethusd_stale_sec := n\<rparr>),
      (''RH_EVENT_RETENTION_DAYS'', 7, \<lambda>n c. c\<lparr>cf_event_retention_days := n\<rparr>),
      (''RH_EVENT_PURGE_INTERVAL_SEC'', 3600, \<lambda>n c. c\<lparr>cf_event_purge_interval_sec := n\<rparr>),
      (''RH_EVENT_PURGE_BATCH'', 500, \<lambda>n c. c\<lparr>cf_event_purge_batch := n\<rparr>),
      (''RH_EVENT_PURGE_SLEEP_MS'', 100, \<lambda>n c. c\<lparr>cf_event_purge_sleep_ms := n\<rparr>),
      (''RH_EVENT_PURGE_MAX_PER_RUN'', 5000, \<lambda>n c. c\<lparr>cf_event_purge_max_per_run := n\<rparr>)]"

fun read_settings :: "config_env \<Rightarrow> (string \<times> int \<times> (int \<Rightarrow> config \<Rightarrow> config)) list \<Rightarrow> config \<Rightarrow> config res" where
  "read_settings en [] c = Inr c"
| "read_settings en ((key, d, put) # rest) c = bindE (env_int en key d) (\<lambda>n. read_settings en rest (put n c))"

definition text_settings :: "config_env \<Rightarrow> config" where
  "text_settings en = \<lparr>cf_rpc_url = trim_space (en_var en ''RH_RPC_URL''),
     cf_trace_rpc_url = trim_space (en_var en ''RH_TRACE_RPC_URL''),
     cf_http_user_agent = env_string en ''RH_HTTP_UA'' ''go-robinhood-meme/v0'',
     cf_sqlite_path = env_string en ''RH_SQLITE_PATH'' ''/data/robinhood_meme.sqlite3'',
     cf_log_level = to_lower (env_string en ''LOG_LEVEL'' ''info''),
     cf_log_dir = trim_space (en_var en ''RH_LOG_DIR''),
     cf_rpc_endpoints_file = trim_space (en_var en ''RH_RPC_ENDPOINTS_FILE''),
     cf_block_fetch_mode = to_lower (env_string en ''RH_BLOCK_FETCH_MODE'' ''batch''),
     cf_receipt_method = env_string en ''RH_RECEIPT_METHOD'' ''eth_getBlockReceipts'',
     cf_rpc_endpoints = [],
     cf_binance_base_url = env_string en ''RH_BINANCE_BASE_URL'' ''https://api.binance.com'',
     cf_binance_eth_symbol = env_string en ''RH_BINANCE_ETH_SYMBOL'' ''ETHUSDT'',
     cf_from_block = 0, cf_chain_id = 0, cf_poll_ms = 0, cf_max_blocks_per_tick = 0, cf_rpc_timeout_ms = 0,
     cf_trace_timeout_ms = 0, cf_price_flush_sec = 0, cf_wallet_reload_ms = 0, cf_score_interval_sec = 0,
     cf_signal_interval_sec = 0, cf_health_lag_warn = 0, cf_http_query_ms = 0, cf_dirty_token_cap = 0,
     cf_ethusd_poll_sec = 0, cf_binance_timeout_ms = 0, cf_ethusd_ttl_sec = 0, cf_ethusd_stale_sec = 0,
     cf_event_retention_days = 0, cf_event_purge_interval_sec = 0, cf_event_purge_batch = 0,
     cf_event_purge_sleep_ms = 0, cf_event_purge_max_per_run = 0, cf_skip_history_lag = 0, cf_host = [], cf_port = 0\<rparr>"

definition load_config :: "config_env \<Rightarrow> config res" where
  "load_config en =
     bindE (env_uint en ''RH_FROM_BLOCK'' 0) (\<lambda>from_block.
     bindE (env_uint en ''RH_CHAIN_ID'' 4663) (\<lambda>chain_id.
     bindE (read_settings en int_settings ((text_settings en)\<lparr>cf_from_block := from_block, cf_chain_id := chain_id\<rparr>)) (\<lambda>c1.
     bindE (set_http (env_string en ''RH_HTTP_ADDR'' ''127.0.0.1:8888'') c1) (\<lambda>c2.
     bindE (load_rpc_endpoints en (cf_rpc_url c2) (cf_rpc_endpoints_file c2)) (\<lambda>loaded.
       let c3 = c2\<lparr>cf_rpc_endpoints := lf_endpoints loaded, cf_rpc_endpoints_file := lf_path loaded,
                   cf_skip_history_lag := lf_skip_history_lag loaded\<rparr>
       in bindE (validate c3) (\<lambda>_. Inr c3))))))"

section \<open>What New makes of it (app.go)\<close>

text \<open>\<open>time.Duration(n) * unit\<close> wraps around.\<close>

definition poller_config_of :: "config \<Rightarrow> poller_config" where
  "poller_config_of c = \<lparr>pc_from_block = cf_from_block c, pc_max_blocks_per_tick = of_int (cf_max_blocks_per_tick c),
     pc_lag_warn = of_int (cf_health_lag_warn c), pc_skip_history_lag = of_int (cf_skip_history_lag c),
     pc_poll_interval = int64 (cf_poll_ms c * millisecond), pc_fetch_mode = cf_block_fetch_mode c,
     pc_receipt_method = cf_receipt_method c\<rparr>"

definition settings_of :: "config \<Rightarrow> app_settings" where
  "settings_of c = \<lparr>as_base_url = cf_binance_base_url c, as_symbol = cf_binance_eth_symbol c,
     as_eth_poll = int64 (cf_ethusd_poll_sec c * second), as_eth_ttl = int64 (cf_ethusd_ttl_sec c * second),
     as_eth_stale = int64 (cf_ethusd_stale_sec c * second), as_eth_timeout = int64 (cf_binance_timeout_ms c * millisecond),
     as_dirty_cap = cf_dirty_token_cap c\<rparr>"

definition pool_endpoints_of :: "config \<Rightarrow> rpc_endpoint list" where
  "pool_endpoints_of c = map (\<lambda>e. \<lparr>re_url = ce_url e, re_qps = ce_qps e\<rparr>) (cf_rpc_endpoints c)"

section \<open>What a loaded configuration keeps\<close>

lemma atoi_range: "atoi s = Some n \<Longrightarrow> n < 2 ^ 63"
  by (auto simp: atoi_def split: option.splits if_splits)

lemma env_int_range: "\<lbrakk>env_int en k d = Inr n; d < 2 ^ 63\<rbrakk> \<Longrightarrow> n < 2 ^ 63"
  using atoi_range by (auto simp: env_int_def Let_def split: if_splits option.splits)

lemma read_settings_keeps:
  "\<lbrakk>read_settings en l c = Inr c'; P c;
    \<And>k d put n c. \<lbrakk>(k, d, put) \<in> set l; n < 2 ^ 63; P c\<rbrakk> \<Longrightarrow> P (put n c);
    \<And>k d put. (k, d, put) \<in> set l \<Longrightarrow> d < 2 ^ 63\<rbrakk> \<Longrightarrow> P c'"
proof (induction en l c rule: read_settings.induct)
  case (2 en key d put rest c)
  from "2.prems"(1) obtain n where n: "env_int en key d = Inr n" "read_settings en rest (put n c) = Inr c'"
    by (auto simp: res_simps)
  have "n < 2 ^ 63" using env_int_range [OF n(1)] "2.prems"(4) [of key d put] by simp
  then have "P (put n c)" using "2.prems"(3) [OF _ _ "2.prems"(2), of key d put n] by simp
  from "2.IH" [OF n(1) n(2) this] "2.prems"(3,4) show ?case by (meson list.set_intros(2))
qed simp

lemma load_config_parts:
  assumes "load_config en = Inr c"
  obtains loaded and c2 :: config where "load_rpc_endpoints en (cf_rpc_url c2) (cf_rpc_endpoints_file c2) = Inr loaded"
    "cf_rpc_endpoints c = lf_endpoints loaded" "validate c = Inr ()" "cf_max_blocks_per_tick c < 2 ^ 63"
proof -
  from assms obtain f i c1 c2 loaded where
    s: "read_settings en int_settings ((text_settings en)\<lparr>cf_from_block := f, cf_chain_id := i\<rparr>) = Inr c1"
      "set_http (env_string en ''RH_HTTP_ADDR'' ''127.0.0.1:8888'') c1 = Inr c2"
      "load_rpc_endpoints en (cf_rpc_url c2) (cf_rpc_endpoints_file c2) = Inr loaded"
    and c: "c = c2\<lparr>cf_rpc_endpoints := lf_endpoints loaded, cf_rpc_endpoints_file := lf_path loaded,
                   cf_skip_history_lag := lf_skip_history_lag loaded\<rparr>" and v: "validate c = Inr ()"
    by (auto simp: load_config_def Let_def res_simps)
  have "cf_max_blocks_per_tick c1 < 2 ^ 63"
    by (rule read_settings_keeps [OF s(1)]) (auto simp: text_settings_def int_settings_def)
  moreover have "cf_max_blocks_per_tick c2 = cf_max_blocks_per_tick c1"
    using s(2) by (auto simp: set_http_def res_simps split: option.splits)
  ultimately show thesis using that [OF s(3)] c v by simp
qed

lemma loaded_symbol:
  assumes "load_config en = Inr c"
  shows "trim_space (cf_binance_eth_symbol c) \<noteq> []"
proof -
  from assms obtain f i c1 c2 loaded where
    s: "read_settings en int_settings ((text_settings en)\<lparr>cf_from_block := f, cf_chain_id := i\<rparr>) = Inr c1"
      "set_http (env_string en ''RH_HTTP_ADDR'' ''127.0.0.1:8888'') c1 = Inr c2"
      "load_rpc_endpoints en (cf_rpc_url c2) (cf_rpc_endpoints_file c2) = Inr loaded"
    and c: "c = c2\<lparr>cf_rpc_endpoints := lf_endpoints loaded, cf_rpc_endpoints_file := lf_path loaded,
                   cf_skip_history_lag := lf_skip_history_lag loaded\<rparr>" and "validate c = Inr ()"
    by (auto simp: load_config_def Let_def res_simps)
  have "trim_space ''ETHUSDT'' = ''ETHUSDT''" by code_simp
  then have "trim_space (env_string en ''RH_BINANCE_ETH_SYMBOL'' ''ETHUSDT'') \<noteq> []"
    by (simp add: env_string_def Let_def trim_space_twice)
  then have "trim_space (cf_binance_eth_symbol c1) \<noteq> []"
    by (intro read_settings_keeps [OF s(1), where P = "\<lambda>c. trim_space (cf_binance_eth_symbol c) \<noteq> []"])
      (auto simp: text_settings_def int_settings_def)
  moreover have "cf_binance_eth_symbol c2 = cf_binance_eth_symbol c1"
    using s(2) by (auto simp: set_http_def res_simps split: option.splits)
  ultimately show ?thesis by (simp add: c)
qed

text \<open>The endpoints: well-formed and distinct URLs, with rates in range.\<close>

definition endpoints_ok :: "config_env \<Rightarrow> config_endpoint list \<Rightarrow> bool" where
  "endpoints_ok en es \<longleftrightarrow> distinct (map ce_url es) \<and> length es \<le> 32 \<and>
     (\<forall>e\<in>set es. en_http_url en (ce_url e) \<and> ce_url e \<noteq> [] \<and> 1 \<le> ce_qps e \<and> ce_qps e \<le> 1000)"

lemma normalize_items_ok:
  "normalize_items en items seen = Inr es \<Longrightarrow> distinct (map ce_url es) \<and> set (map ce_url es) \<inter> set seen = {} \<and>
   length es \<le> length items \<and>
   (\<forall>e\<in>set es. en_http_url en (ce_url e) \<and> ce_url e \<noteq> [] \<and> 1 \<le> ce_qps e \<and> ce_qps e \<le> 1000)"
proof (induction en items seen arbitrary: es rule: normalize_items.induct)
  case (2 en item items seen)
  define url where u: "url = trim_space (expand_env (en_var en) (ri_rpc item))"
  show ?case
  proof (cases "url = [] \<or> looks_unresolved_env url")
    case True
    with "2.prems" have "normalize_items en items seen = Inr es" by (simp add: u Let_def)
    with "2.IH"(1) [OF u True] u show ?thesis by auto
  next
    case False
    with "2.prems" obtain rest where r: "normalize_items en items (url # seen) = Inr rest" "en_http_url en url"
      "1 \<le> ri_qps item" "ri_qps item \<le> 1000" "url \<notin> set seen" "es = \<lparr>ce_url = url, ce_qps = ri_qps item\<rparr> # rest"
      by (auto simp: u Let_def res_simps max_rpc_qps_def)
    have "distinct (map ce_url rest) \<and> set (map ce_url rest) \<inter> set (url # seen) = {} \<and> length rest \<le> length items \<and>
        (\<forall>e\<in>set rest. en_http_url en (ce_url e) \<and> ce_url e \<noteq> [] \<and> 1 \<le> ce_qps e \<and> ce_qps e \<le> 1000)"
      using "2.IH"(2) [OF u False] r by (simp add: max_rpc_qps_def)
    with r False show ?thesis by auto
  qed
qed simp

lemma parse_rpc_file_ok:
  assumes "parse_rpc_file en raw = Inr (es, lag)"
  shows "endpoints_ok en es"
proof -
  from assms obtain items where "normalize_rpc_items en items = Inr es"
    by (auto simp: parse_rpc_file_def Let_def res_simps split: list.splits)
  then have "normalize_items en items [] = Inr es" "length items \<le> 32"
    by (auto simp: normalize_rpc_items_def res_simps max_rpc_endpoints_def)
  with normalize_items_ok [OF this(1)] show ?thesis by (simp add: endpoints_ok_def)
qed

lemma fallback_rpc_endpoint_ok:
  "fallback_rpc_endpoint en url path = Inr loaded \<Longrightarrow> endpoints_ok en (lf_endpoints loaded)"
  by (auto simp: fallback_rpc_endpoint_def Let_def res_simps endpoints_ok_def)

lemma load_rpc_endpoints_ok:
  "load_rpc_endpoints en url path = Inr loaded \<Longrightarrow> endpoints_ok en (lf_endpoints loaded)"
  unfolding load_rpc_endpoints_def Let_def
  by (auto simp: res_simps fallback_rpc_endpoint_ok parse_rpc_file_ok split: option.splits)

lemma validate_facts:
  assumes "validate c = Inr ()"
  shows "cf_rpc_endpoints c \<noteq> []"
    and "1 \<le> cf_poll_ms c" and "1 \<le> cf_max_blocks_per_tick c" and "1 \<le> cf_dirty_token_cap c"
    and "1 \<le> cf_ethusd_poll_sec c" and "1 \<le> cf_binance_timeout_ms c" and "1 \<le> cf_ethusd_ttl_sec c"
    and "cf_ethusd_ttl_sec c \<le> cf_ethusd_stale_sec c"
    and "1 \<le> cf_wallet_reload_ms c" and "cf_wallet_reload_ms c \<le> 1000"
    and "1 \<le> cf_event_retention_days c" and "1 \<le> cf_event_purge_batch c" and "cf_event_purge_batch c \<le> 5000"
    and "cf_event_purge_batch c \<le> cf_event_purge_max_per_run c"
    and "cf_block_fetch_mode c \<in> {''batch'', ''pair''}"
    and "cf_receipt_method c \<in> {''eth_getBlockReceipts'', ''alchemy_getTransactionReceipts''}"
    and "1 \<le> cf_rpc_timeout_ms c"
  using assms by (simp_all add: validate_def guardE_eq_Inr not_less del: insert_iff)

lemma poller_accepted:
  assumes "validate c = Inr ()" and "cf_poll_ms c * millisecond < 2 ^ 63" and "cf_max_blocks_per_tick c < 2 ^ 63"
  shows "is_ok (new_poller (poller_config_of c))"
proof -
  note valid = validate_facts [OF assms(1)]
  have "uint (of_int (cf_max_blocks_per_tick c) :: u64) = cf_max_blocks_per_tick c"
    using valid(3) assms(3) by (simp add: uint_word_of_int)
  then have m: "(of_int (cf_max_blocks_per_tick c) :: u64) \<noteq> 0" using valid(3) by auto
  have p: "int64 (cf_poll_ms c * millisecond) = cf_poll_ms c * millisecond"
    using valid(2) assms(2) by (intro int64_id) (simp_all add: millisecond_def)
  show ?thesis using valid(2,15,16) m p
    by (auto simp: new_poller_def poller_config_of_def Let_def guardE_def millisecond_def fetch_mode_batch_def
        fetch_mode_pair_def receipt_method_eth_block_def receipt_method_alchemy_def)
qed

definition feed_of :: "(string \<Rightarrow> parsed_url option) \<Rightarrow> app_settings \<Rightarrow> feed res" where
  "feed_of url_parse s = new_binance_feed url_parse (as_base_url s) (as_symbol s) (as_eth_poll s) (as_eth_ttl s)
     (as_eth_stale s) (as_eth_timeout s)"

lemma feed_accepted:
  assumes "validate c = Inr ()" and "cf_ethusd_poll_sec c * second < 2 ^ 63"
    and "cf_ethusd_stale_sec c * second < 2 ^ 63" and "cf_binance_timeout_ms c * millisecond < 2 ^ 63"
    and "trim_space (cf_binance_eth_symbol c) \<noteq> []"
  shows "is_ok (feed_of url_parse (settings_of c)) \<longleftrightarrow> feed_url_ok url_parse (cf_binance_base_url c)"
proof -
  note valid = validate_facts [OF assms(1)]
  have t: "int64 (cf_ethusd_poll_sec c * second) = cf_ethusd_poll_sec c * second"
    "int64 (cf_ethusd_ttl_sec c * second) = cf_ethusd_ttl_sec c * second"
    "int64 (cf_ethusd_stale_sec c * second) = cf_ethusd_stale_sec c * second"
    "int64 (cf_binance_timeout_ms c * millisecond) = cf_binance_timeout_ms c * millisecond"
    using valid(5-8) assms(2-4) by (auto intro!: int64_id simp: second_def millisecond_def)
  have "0 < cf_ethusd_poll_sec c * second" "0 < cf_ethusd_ttl_sec c * second" "0 < cf_binance_timeout_ms c * millisecond"
    "cf_ethusd_ttl_sec c * second \<le> cf_ethusd_stale_sec c * second"
    using valid(5-8) by (simp_all add: second_def millisecond_def)
  with assms(5) show ?thesis
    by (simp add: feed_of_def new_binance_feed_def settings_of_def t guardE_def)
qed

section \<open>Properties\<close>

text \<open>C11. A configuration that was loaded is one the components accept, as long as its durations fit
  nanoseconds in 64 bits: the scanner and the price set can be built from it, its refresh interval,
  retention and batch are in the range the operations demand, and its endpoints are between one and
  thirty-two distinct well-formed URLs with rates in range. The address of the price feed is the one
  setting that \<open>Load\<close> does not check: the feed is built exactly if it is an HTTP URL with a host and
  without user, query and fragment.\<close>

theorem loaded_configuration_is_accepted:
  assumes "load_config en = Inr c"
    and "cf_poll_ms c * millisecond < 2 ^ 63" and "cf_ethusd_poll_sec c * second < 2 ^ 63"
    and "cf_ethusd_stale_sec c * second < 2 ^ 63" and "cf_binance_timeout_ms c * millisecond < 2 ^ 63"
  shows "is_ok (new_poller (poller_config_of c)) \<and>
    (is_ok (feed_of url_parse (settings_of c)) \<longleftrightarrow> feed_url_ok url_parse (cf_binance_base_url c)) \<and>
    is_ok (new_dirty_set (as_dirty_cap (settings_of c))) \<and>
    0 < cf_wallet_reload_ms c * millisecond \<and> cf_wallet_reload_ms c * millisecond \<le> second \<and>
    1 \<le> cf_event_retention_days c \<and> 1 \<le> cf_event_purge_batch c \<and> cf_event_purge_batch c \<le> 5000 \<and>
    cf_event_purge_batch c \<le> cf_event_purge_max_per_run c \<and>
    cf_rpc_endpoints c \<noteq> [] \<and> endpoints_ok en (cf_rpc_endpoints c)"
proof -
  from assms(1) obtain loaded and c2 :: config where
    l: "load_rpc_endpoints en (cf_rpc_url c2) (cf_rpc_endpoints_file c2) = Inr loaded"
    "cf_rpc_endpoints c = lf_endpoints loaded" and v: "validate c = Inr ()" and m: "cf_max_blocks_per_tick c < 2 ^ 63"
    by (rule load_config_parts)
  note valid = validate_facts [OF v]
  have "is_ok (new_poller (poller_config_of c))"
    by (rule poller_accepted [OF v assms(2) m])
  moreover have "is_ok (feed_of url_parse (settings_of c)) \<longleftrightarrow> feed_url_ok url_parse (cf_binance_base_url c)"
    by (rule feed_accepted [OF v assms(3-5) loaded_symbol [OF assms(1)]])
  moreover have "is_ok (new_dirty_set (as_dirty_cap (settings_of c)))"
    using valid(4) by (simp add: new_dirty_set_def settings_of_def guardE_def)
  moreover have "0 < cf_wallet_reload_ms c * millisecond \<and> cf_wallet_reload_ms c * millisecond \<le> second"
    using valid(9,10) by (simp add: second_def millisecond_def)
  ultimately show ?thesis using valid(1,11-14) load_rpc_endpoints_ok [OF l(1)] l(2) by simp
qed

text \<open>Nothing set but the endpoint, and no file.\<close>

definition ex_config_env :: config_env where
  "ex_config_env = \<lparr>en_var = (\<lambda>k. if k = ''RH_RPC_URL'' then ''http://n'' else []), en_file = (\<lambda>_. Inr None),
     en_json_items = (\<lambda>_. Inl E_json), en_json_envelope = (\<lambda>_. Inl E_json), en_http_url = (\<lambda>u. has_prefix u ''http'')\<rparr>"

theorem loaded_configuration_is_accepted_witness:
  "\<exists>c. load_config ex_config_env = Inr c \<and> is_ok (new_poller (poller_config_of c)) \<and> length (cf_rpc_endpoints c) = 1 \<and>
     is_ok (feed_of ex_url_parse (settings_of c))"
proof -
  have "case load_config ex_config_env of Inl _ \<Rightarrow> False
    | Inr c \<Rightarrow> cf_poll_ms c = 80 \<and> cf_ethusd_poll_sec c = 10 \<and> cf_ethusd_stale_sec c = 300 \<and> cf_binance_timeout_ms c = 3000 \<and>
        feed_url_ok ex_url_parse (cf_binance_base_url c) \<and> length (cf_rpc_endpoints c) = 1"
    by code_simp
  then obtain c where c: "load_config ex_config_env = Inr c" "cf_poll_ms c = 80" "cf_ethusd_poll_sec c = 10"
    "cf_ethusd_stale_sec c = 300" "cf_binance_timeout_ms c = 3000" "feed_url_ok ex_url_parse (cf_binance_base_url c)"
    "length (cf_rpc_endpoints c) = 1" by (auto split: sum.splits)
  have "is_ok (new_poller (poller_config_of c)) \<and> is_ok (feed_of ex_url_parse (settings_of c))"
    using loaded_configuration_is_accepted [OF c(1), of ex_url_parse] c(2-6) by (simp add: millisecond_def second_def)
  with c show ?thesis by blast
qed

end
