(* ===== verification/App_Start.thy ===== *)
theory App_Start
  imports Config_Load
begin

text \<open>
  \<open>connectChain\<close> of \<open>internal/app/app.go\<close>: the start of the process tries three times to build the pool
  of endpoints that \<open>Load\<close> has read. \<open>cancelled i\<close> tells whether the context ends in the pause after
  attempt \<open>i\<close>; what the endpoints answer may differ from attempt to attempt.
\<close>

section \<open>Three attempts\<close>

function connect_attempts :: "(nat \<Rightarrow> 'a res) \<Rightarrow> (nat \<Rightarrow> bool) \<Rightarrow> nat \<Rightarrow> 'a res" where
  "connect_attempts open_pool cancelled attempt =
     (case open_pool attempt of
        Inr client \<Rightarrow> Inr client
      | Inl e \<Rightarrow>
          if attempt < 2 then (if cancelled attempt then Inl E_cancelled else connect_attempts open_pool cancelled (Suc attempt))
          else Inl e)"
  by pat_completeness auto
termination by (relation "measure (\<lambda>(_, _, attempt). 2 - attempt)") auto

declare connect_attempts.simps [simp del]

definition connect_chain ::
  "(string \<Rightarrow> parsed_url option) \<Rightarrow> (nat \<Rightarrow> string \<Rightarrow> u64 res) \<Rightarrow> (nat \<Rightarrow> nat \<Rightarrow> time) \<Rightarrow> (nat \<Rightarrow> bool) \<Rightarrow> config \<Rightarrow>
   (rpc_member list \<times> string list) res" where
  "connect_chain url_parse chain_ids nows cancelled c =
     connect_attempts (\<lambda>attempt. new_pool_client url_parse (chain_ids attempt) (nows attempt) (pool_endpoints_of c)
       (cf_http_user_agent c) (int64 (cf_rpc_timeout_ms c * millisecond)) (cf_chain_id c)) cancelled 0"

lemma connect_attempts_first:
  "\<lbrakk>is_ok (open_pool i); attempt \<le> i; i < 3; \<forall>j. attempt \<le> j \<and> j < i \<longrightarrow> \<not> is_ok (open_pool j) \<and> \<not> cancelled j\<rbrakk> \<Longrightarrow>
   connect_attempts open_pool cancelled attempt = open_pool i"
proof (induction open_pool cancelled attempt rule: connect_attempts.induct)
  case (1 open_pool cancelled attempt)
  show ?case
  proof (cases "attempt = i")
    case True
    with "1.prems"(1) show ?thesis by (subst connect_attempts.simps) (auto simp: is_ok_def split: sum.splits)
  next
    case False
    with "1.prems" have a: "attempt < 2" "\<not> cancelled attempt" "Suc attempt \<le> i" "\<not> is_ok (open_pool attempt)" by auto
    then obtain e where "open_pool attempt = Inl e" by (cases "open_pool attempt") auto
    with a "1.IH" [OF this a(1,2)] "1.prems" show ?thesis by (subst connect_attempts.simps) simp
  qed
qed

section \<open>One attempt\<close>

text \<open>An attempt keeps exactly the endpoints that answer with the chain, in their order.\<close>

lemma check_endpoints_spec:
  "\<forall>e\<in>set es. 1 \<le> re_qps e \<Longrightarrow>
   \<exists>ms skipped'. check_endpoints url_parse chain_id nows expected es members skipped = Inr (ms, skipped') \<and>
     map (\<lambda>m. (rm_url m, rm_qps m)) ms = map (\<lambda>m. (rm_url m, rm_qps m)) members @
       map (\<lambda>e. (re_url e, re_qps e)) (filter (\<lambda>e. chain_id (re_url e) = Inr expected) es)"
proof (induction es arbitrary: members skipped)
  case (Cons e es)
  then have q: "\<not> re_qps e < 1" "\<forall>e\<in>set es. 1 \<le> re_qps e" by auto
  show ?case
  proof (cases "chain_id (re_url e) = Inr expected")
    case True
    with Cons.IH [OF q(2), of "members @ [new_member url_parse (nows (length members)) e]" skipped] q(1)
    show ?thesis by (auto simp: new_member_def)
  next
    case False
    with Cons.IH [OF q(2), of members "skipped @ [redact_rpc_url url_parse (re_url e)]"] q(1)
    show ?thesis by auto
  qed
qed simp

definition answering :: "(string \<Rightarrow> u64 res) \<Rightarrow> config \<Rightarrow> config_endpoint list" where
  "answering chain_id c = filter (\<lambda>e. chain_id (ce_url e) = Inr (cf_chain_id c)) (cf_rpc_endpoints c)"

lemma attempt_spec:
  assumes "endpoints_ok en (cf_rpc_endpoints c)" and "cf_rpc_endpoints c \<noteq> []"
    and "trim_space (cf_http_user_agent c) \<noteq> []" and "0 < timeout"
    and attempt: "attempt = new_pool_client url_parse chain_id nows (pool_endpoints_of c) (cf_http_user_agent c) timeout (cf_chain_id c)"
  shows "is_ok attempt \<longleftrightarrow> answering chain_id c \<noteq> []"
    and "attempt = Inr (ms, skipped) \<Longrightarrow>
      map (\<lambda>m. (rm_url m, rm_qps m)) ms = map (\<lambda>e. (ce_url e, ce_qps e)) (answering chain_id c)"
proof -
  have "\<forall>e\<in>set (pool_endpoints_of c). 1 \<le> re_qps e" using assms(1) by (auto simp: endpoints_ok_def pool_endpoints_of_def)
  note ch0 = check_endpoints_spec [OF this, of url_parse chain_id nows "cf_chain_id c" "[]" "[]"]
  obtain ms' skipped' where
    ch: "check_endpoints url_parse chain_id nows (cf_chain_id c) (pool_endpoints_of c) [] [] = Inr (ms', skipped')"
    and m: "map (\<lambda>m. (rm_url m, rm_qps m)) ms' = map (\<lambda>e. (re_url e, re_qps e))
       (filter (\<lambda>e. chain_id (re_url e) = Inr (cf_chain_id c)) (pool_endpoints_of c))"
    using ch0 by (elim exE conjE) simp
  have m': "map (\<lambda>m. (rm_url m, rm_qps m)) ms' = map (\<lambda>e. (ce_url e, ce_qps e)) (answering chain_id c)"
    unfolding m by (simp add: pool_endpoints_of_def answering_def filter_map o_def)
  then have "ms' = [] \<longleftrightarrow> answering chain_id c = []" by (cases ms'; cases "answering chain_id c") simp_all
  moreover have "length (cf_rpc_endpoints c) \<le> 32" using assms(1) by (simp add: endpoints_ok_def)
  ultimately have a: "attempt = guardE (answering chain_id c = []) E_config (Inr (ms', skipped'))"
    using assms(2-4) ch by (simp add: attempt new_pool_client_def pool_endpoints_of_def max_rpc_pool_size_def guardE_def)
  show "is_ok attempt \<longleftrightarrow> answering chain_id c \<noteq> []" by (simp add: a guardE_def)
  show "map (\<lambda>m. (rm_url m, rm_qps m)) ms = map (\<lambda>e. (ce_url e, ce_qps e)) (answering chain_id c)" if "attempt = Inr (ms, skipped)"
    using that m' by (simp add: a res_simps)
qed

section \<open>Properties\<close>

text \<open>C12. With a configuration that was loaded, the process connects as soon as one endpoint answers with
  the configured chain in one of the three attempts: the pool then holds exactly the endpoints that answer
  in the first such attempt, in the order of the file and with their rates.\<close>

theorem startup_connects_when_an_endpoint_answers:
  assumes "load_config en = Inr c" and "cf_rpc_timeout_ms c * millisecond < 2 ^ 63"
    and "trim_space (cf_http_user_agent c) \<noteq> []"
    and "i < 3" and "answering (chain_ids i) c \<noteq> []" and "\<forall>j<i. answering (chain_ids j) c = [] \<and> \<not> cancelled j"
  shows "\<exists>ms skipped. connect_chain url_parse chain_ids nows cancelled c = Inr (ms, skipped) \<and>
    map (\<lambda>m. (rm_url m, rm_qps m)) ms = map (\<lambda>e. (ce_url e, ce_qps e)) (answering (chain_ids i) c)"
proof -
  from assms(1) obtain loaded and c2 :: config where
    l: "load_rpc_endpoints en (cf_rpc_url c2) (cf_rpc_endpoints_file c2) = Inr loaded"
    "cf_rpc_endpoints c = lf_endpoints loaded" and v: "validate c = Inr ()"
    by (rule load_config_parts)
  have ok: "endpoints_ok en (cf_rpc_endpoints c)" using load_rpc_endpoints_ok [OF l(1)] l(2) by simp
  have t: "0 < int64 (cf_rpc_timeout_ms c * millisecond)"
    using validate_facts(17) [OF v] assms(2) by (subst int64_id) (simp_all add: millisecond_def)
  let ?open = "\<lambda>attempt. new_pool_client url_parse (chain_ids attempt) (nows attempt) (pool_endpoints_of c)
       (cf_http_user_agent c) (int64 (cf_rpc_timeout_ms c * millisecond)) (cf_chain_id c)"
  note spec = attempt_spec [OF ok validate_facts(1) [OF v] assms(3) t]
  have o: "is_ok (?open j) \<longleftrightarrow> answering (chain_ids j) c \<noteq> []" for j by (rule spec(1) [OF refl])
  have "connect_chain url_parse chain_ids nows cancelled c = ?open i"
    unfolding connect_chain_def using assms(4-6) o by (intro connect_attempts_first) simp_all
  moreover obtain ms skipped where p: "?open i = Inr (ms, skipped)" using o [of i] assms(5) by (cases "?open i") auto
  ultimately show ?thesis using spec(2) [OF refl p] by auto
qed

theorem startup_connects_when_an_endpoint_answers_witness:
  "\<exists>c ms skipped. load_config ex_config_env = Inr c \<and>
     connect_chain (\<lambda>_. None) (\<lambda>i _. if i = 1 then Inr 4663 else Inl E_transport) (\<lambda>_ _. 0) (\<lambda>_. False) c = Inr (ms, skipped) \<and>
     map rm_url ms = [''http://n'']"
proof -
  have "case load_config ex_config_env of Inl _ \<Rightarrow> False
    | Inr c \<Rightarrow> cf_rpc_timeout_ms c = 8000 \<and> trim_space (cf_http_user_agent c) \<noteq> [] \<and> cf_chain_id c = 4663 \<and>
        cf_rpc_endpoints c = [\<lparr>ce_url = ''http://n'', ce_qps = 1\<rparr>]"
    by code_simp
  then obtain c where c: "load_config ex_config_env = Inr c" "cf_rpc_timeout_ms c = 8000" "trim_space (cf_http_user_agent c) \<noteq> []"
    "cf_chain_id c = 4663" "cf_rpc_endpoints c = [\<lparr>ce_url = ''http://n'', ce_qps = 1\<rparr>]" by (auto split: sum.splits)
  let ?ids = "\<lambda>i (_ :: string). if i = (1 :: nat) then Inr 4663 else Inl E_transport"
  have a: "answering (?ids 1) c = cf_rpc_endpoints c" "answering (?ids 0) c = []" by (simp_all add: answering_def c(4))
  have "\<exists>ms skipped. connect_chain (\<lambda>_. None) ?ids (\<lambda>_ _. 0) (\<lambda>_. False) c = Inr (ms, skipped) \<and>
    map (\<lambda>m. (rm_url m, rm_qps m)) ms = map (\<lambda>e. (ce_url e, ce_qps e)) (answering (?ids 1) c)"
    by (rule startup_connects_when_an_endpoint_answers [OF c(1) _ c(3)]) (simp_all add: a c millisecond_def answering_def)
  then obtain ms skipped where m: "connect_chain (\<lambda>_. None) ?ids (\<lambda>_ _. 0) (\<lambda>_. False) c = Inr (ms, skipped)"
    "map (\<lambda>m. (rm_url m, rm_qps m)) ms = [(''http://n'', 1)]" unfolding a(1) c(5) by auto
  from m(2) have "map rm_url ms = [''http://n'']" by auto
  with c(1) m(1) show ?thesis by (intro exI conjI)
qed

end
