(* ===== verification/Http_Service.thy ===== *)
theory Http_Service
  imports App_Signals
begin

text \<open>
  \<open>internal/httpsvc\<close>: the four read-only handlers. A reply is a status with a body, or a status with an
  error code; the text of messages is left out. Query parameters come as texts, as in the code. \<open>fault\<close>
  is what the database answers instead of rows. One request reads one state of the database.
\<close>

datatype 'a reply = Reply nat 'a | Error_reply nat string

definition bad_request :: "'a reply" where "bad_request = Error_reply 400 ''bad_request''"
definition query_failed :: "'a reply" where "query_failed = Error_reply 500 ''internal_error''"

definition parse_limit :: "string \<Rightarrow> int res" where
  "parse_limit value =
     (if value = [] then Inr 50
      else case atoi value of None \<Rightarrow> Inl E_limit | Some limit \<Rightarrow> guardE (limit < 1 \<or> 200 < limit) E_limit (Inr limit))"

section \<open>Launches (launches.go)\<close>

record launch_item =
  li_token :: string
  li_category :: string
  li_symbol :: string
  li_name :: string
  li_pair_symbol :: string
  li_creator_eoa :: string
  li_created_at :: time
  li_price_usd :: "rat option"
  li_tx_hash :: string

record launch_list =
  la_items :: "launch_item list"
  la_next_cursor :: string

definition item_of_launch :: "launch_row \<Rightarrow> launch_item" where
  "item_of_launch r = \<lparr>li_token = lr_token r, li_category = lr_category r, li_symbol = lr_symbol r, li_name = lr_name r,
     li_pair_symbol = lr_pair_symbol r, li_creator_eoa = lr_creator_eoa r, li_created_at = lr_created_at r,
     li_price_usd = lr_price_usd r, li_tx_hash = lr_tx_hash r\<rparr>"

definition parse_launch_cursor :: "eth_common \<Rightarrow> string \<Rightarrow> (time \<times> string) option res" where
  "parse_launch_cursor E cursor =
     (if cursor = [] then Inr None
      else case split_on CHR '','' cursor of
        [at_text, token_text] \<Rightarrow>
          (case parse_rfc3339_utc at_text of
             None \<Rightarrow> Inl E_cursor
           | Some t \<Rightarrow>
               (case normalize_address E token_text of
                  Inl _ \<Rightarrow> Inl E_cursor
                | Inr token \<Rightarrow> Inr (Some (rfc3339 t, token))))
      | _ \<Rightarrow> Inl E_cursor)"

definition cursor_of :: "launch_row \<Rightarrow> string" where
  "cursor_of r = format_rfc3339 (lr_created_at r) @ '','' @ lr_token r"

definition launches ::
  "eth_common \<Rightarrow> err option \<Rightarrow> string \<Rightarrow> string \<Rightarrow> string \<Rightarrow> db \<Rightarrow> launch_list reply" where
  "launches E fault limit_text category cursor d =
     (case parse_limit limit_text of
        Inl _ \<Rightarrow> bad_request
      | Inr limit \<Rightarrow>
          if category \<noteq> [] \<and> category \<noteq> ''pons'' \<and> category \<noteq> ''o1_crypto'' then bad_request
          else (case parse_launch_cursor E cursor of
            Inl _ \<Rightarrow> bad_request
          | Inr c \<Rightarrow>
              (case (case fault of Some e \<Rightarrow> Inl e | None \<Rightarrow> list_launches E category c limit d) of
                 Inl _ \<Rightarrow> query_failed
               | Inr rows \<Rightarrow> Reply 200 \<lparr>la_items = map item_of_launch rows,
                   la_next_cursor = (if int (length rows) = limit then cursor_of (last rows) else [])\<rparr>)))"

section \<open>Events of a wallet\<close>

record wallet_event_item =
  wi_id :: string
  wi_kind :: string
  wi_category :: string
  wi_token :: string
  wi_direction :: string
  wi_tx_hash :: string
  wi_quote_raw :: string
  wi_quote_decimals :: "byte option"
  wi_token_raw :: string
  wi_token_decimals :: "byte option"
  wi_exec_usd :: "rat option"
  wi_realized :: "float64 option"
  wi_chain_time :: time

definition item_of_event :: "wallet_event \<Rightarrow> float64 option \<Rightarrow> wallet_event_item" where
  "item_of_event e realized = \<lparr>wi_id = we_id e, wi_kind = we_kind e, wi_category = we_category e, wi_token = we_token e,
     wi_direction = we_direction e, wi_tx_hash = we_tx_hash e, wi_quote_raw = we_quote_amount_raw e,
     wi_quote_decimals = we_quote_decimals e, wi_token_raw = we_token_amount_raw e, wi_token_decimals = we_token_decimals e,
     wi_exec_usd = we_exec_usd e, wi_realized = realized, wi_chain_time = we_chain_time e\<rparr>"

definition rat_string_float :: "to_float \<Rightarrow> string \<Rightarrow> float64 option" where
  "rat_string_float F value = map_option (float_of F) (rat_of_text value)"

text \<open>\<open>pnl\<close> maps an event to its profit; a missing key and a nil pointer are both shown as null.\<close>

definition add_results :: "to_float \<Rightarrow> fifo_sell_result list \<Rightarrow> (string \<Rightarrow> float64 option) \<Rightarrow> string \<Rightarrow> float64 option" where
  "add_results F results pnl =
     foldl (\<lambda>p r. if 0 < sr_matched_qty r then p(sr_event_id r := rat_string_float F (sr_matched_pnl r)) else p) pnl results"

fun event_items ::
  "to_float \<Rightarrow> (string \<Rightarrow> fifo_event list res) \<Rightarrow> wallet_event list \<Rightarrow> string set \<Rightarrow> (string \<Rightarrow> float64 option) \<Rightarrow>
   wallet_event_item list res" where
  "event_items F fifo [] loaded pnl = Inr []"
| "event_items F fifo (row # rows) loaded pnl =
     bindE (if we_kind row = ''sell'' \<and> we_token row \<notin> loaded
            then bindE (fifo (we_token row)) (\<lambda>events. bindE (replay_fifo events) (\<lambda>results.
                   Inr (insert (we_token row) loaded, add_results F results pnl)))
            else Inr (loaded, pnl)) (\<lambda>(loaded, pnl).
     bindE (event_items F fifo rows loaded pnl) (\<lambda>items. Inr (item_of_event row (pnl (we_id row)) # items)))"

definition wallet_events ::
  "eth_common \<Rightarrow> to_float \<Rightarrow> (rat \<Rightarrow> rat) \<Rightarrow> err option \<Rightarrow> (string \<Rightarrow> err option) \<Rightarrow> string \<Rightarrow> string \<Rightarrow> string \<Rightarrow> db \<Rightarrow>
   wallet_event_item list reply" where
  "wallet_events E F shortest fault fifo_fault limit_text kind address d =
     (case parse_limit limit_text of
        Inl _ \<Rightarrow> bad_request
      | Inr limit \<Rightarrow>
          if kind \<noteq> [] \<and> kind \<noteq> ''launch'' \<and> kind \<noteq> ''buy'' \<and> kind \<noteq> ''sell'' then bad_request
          else (case normalize_address E address of
            Inl _ \<Rightarrow> bad_request
          | Inr wallet \<Rightarrow>
              (case bindE (case fault of Some e \<Rightarrow> Inl e | None \<Rightarrow> list_wallet_events E wallet kind limit d) (\<lambda>rows.
                      event_items F (\<lambda>token. case fifo_fault token of Some e \<Rightarrow> Inl e | None \<Rightarrow> fifo_events E shortest wallet token d)
                        rows {} (\<lambda>_. None)) of
                 Inl _ \<Rightarrow> query_failed
               | Inr items \<Rightarrow> Reply 200 items)))"

section \<open>Signals and health (signals.go, health.go)\<close>

definition signals :: "row_order \<Rightarrow> err option \<Rightarrow> string \<Rightarrow> string \<Rightarrow> time \<Rightarrow> db \<Rightarrow> signal list reply" where
  "signals ro fault kind limit_text now d =
     (if kind \<noteq> ''smart_launch'' \<and> kind \<noteq> ''cluster_buy'' \<and> kind \<noteq> ''score_launch'' then bad_request
      else case parse_limit limit_text of
        Inl _ \<Rightarrow> bad_request
      | Inr limit \<Rightarrow>
          (case list_signals ro fault kind limit now d of
             Inl _ \<Rightarrow> query_failed
           | Inr rows \<Rightarrow> Reply 200 rows))"

record health_response =
  he_ok :: bool
  he_chain_id :: u64
  he_last_block :: u64
  he_head_block :: "u64 option"
  he_lag :: "u64 option"
  he_db :: string

definition answer_head :: "u64 \<Rightarrow> u64 res \<Rightarrow> health_response \<Rightarrow> health_response reply" where
  "answer_head lag_warn head response =
     (case head of
        Inl _ \<Rightarrow> Reply 200 response
      | Inr h \<Rightarrow>
          let lag = (if he_last_block response < h then h - he_last_block response else 0)
          in Reply 200 (response\<lparr>he_head_block := Some h, he_lag := Some lag, he_ok := he_ok response \<and> \<not> lag_warn < lag\<rparr>))"

definition health ::
  "u64 \<Rightarrow> u64 \<Rightarrow> err option \<Rightarrow> err option \<Rightarrow> u64 res \<Rightarrow> db \<Rightarrow> health_response reply" where
  "health chain_id lag_warn ping fault head d =
     (let response = \<lparr>he_ok = True, he_chain_id = chain_id, he_last_block = 0, he_head_block = None, he_lag = None, he_db = ''ok''\<rparr>;
          broken = Reply 503 (response\<lparr>he_ok := False, he_db := ''error''\<rparr>);
          state = (case fault of Some e \<Rightarrow> Inl e | None \<Rightarrow> get_sync_state watermark_name d)
      in if ping \<noteq> None then broken
         else case state of
           Inl e \<Rightarrow> if e \<noteq> E_no_rows then broken else answer_head lag_warn head response
         | Inr st \<Rightarrow> answer_head lag_warn head (response\<lparr>he_last_block := ss_last_block st\<rparr>))"

section \<open>A cursor names its row\<close>

lemma split_on_one: "c \<notin> set s \<Longrightarrow> split_on c s = [s]"
  by (induction s) auto

lemma split_on_two: "c \<notin> set a \<Longrightarrow> c \<notin> set b \<Longrightarrow> split_on c (a @ c # b) = [a, b]"
  by (induction a) (auto simp: split_on_one)

lemma dec_no_comma: "list_all is_dec_char s \<Longrightarrow> CHR '','' \<notin> set s"
  by (auto simp: list_all_iff is_dec_char_def)

lemma formatted_no_comma:
  assumes "four_digit_year t"
  shows "CHR '','' \<notin> set (format_rfc3339 t)"
proof -
  from assms obtain y m d h mi sc where f: "format_rfc3339 t = time_text y m d h mi sc" "fields_ok y m d h mi sc" by (rule format_fields)
  have "CHR '','' \<notin> set (two_digits n)" for n
    unfolding two_digits_def by (intro dec_no_comma pad_zero_digits) (simp add: dec_of_nat_digits)
  moreover have "CHR '','' \<notin> set (year_digits y)"
    using f(2) dec_no_comma [OF pad_zero_digits [of "dec_of_nat (nat \<bar>y\<bar>)" 4]] by (simp add: year_digits_def fields_ok_def dec_of_nat_digits)
  ultimately show ?thesis by (simp add: f(1) time_text_def)
qed

text \<open>A time as the table holds it.\<close>

definition stored_time :: "time \<Rightarrow> bool" where
  "stored_time t \<longleftrightarrow> four_digit_year t \<and> rfc3339 t = t"

lemma cursor_names_its_row:
  assumes "eth_ok E" and "canonical_address (lr_token r)" and "stored_time (lr_created_at r)"
  shows "parse_launch_cursor E (cursor_of r) = Inr (Some (lr_created_at r, lr_token r))" and "cursor_of r \<noteq> []"
proof -
  have "\<not> lower_hex_char CHR '',''" by code_simp
  then have t: "CHR '','' \<notin> set (lr_token r)"
    using assms(2) by (auto simp: canonical_hex_def all_lower_hex_def list_all_iff)
  have p: "parse_rfc3339_utc (format_rfc3339 (lr_created_at r)) = Some (lr_created_at r)"
    using parse_format_rfc3339 [of "lr_created_at r"] assms(3) by (simp add: stored_time_def rfc3339_def)
  have "split_on CHR '','' (cursor_of r) = [format_rfc3339 (lr_created_at r), lr_token r]"
    using split_on_two [OF formatted_no_comma t] assms(3) by (simp add: cursor_of_def stored_time_def)
  moreover show "cursor_of r \<noteq> []" by (simp add: cursor_of_def)
  ultimately show "parse_launch_cursor E (cursor_of r) = Inr (Some (lr_created_at r, lr_token r))"
    using p normalize_address_id [OF assms(1,2)] assms(3) by (simp add: parse_launch_cursor_def stored_time_def)
qed

section \<open>Following the cursors\<close>

text \<open>A client that asks for page after page until there is no next cursor, at most \<open>n\<close> times more.\<close>

fun follow :: "eth_common \<Rightarrow> string \<Rightarrow> string \<Rightarrow> db \<Rightarrow> nat \<Rightarrow> string \<Rightarrow> launch_item list list" where
  "follow E limit_text category d n cursor =
     (case launches E None limit_text category cursor d of
        Error_reply _ _ \<Rightarrow> []
      | Reply _ page \<Rightarrow>
          la_items page # (if la_next_cursor page = [] then []
            else case n of 0 \<Rightarrow> [] | Suc m \<Rightarrow> follow E limit_text category d m (la_next_cursor page)))"

declare follow.simps [simp del]

text \<open>The cursor before row \<open>k\<close>.\<close>

definition cursor_at :: "launch_row list \<Rightarrow> nat \<Rightarrow> string" where
  "cursor_at rows k = (if k = 0 then [] else cursor_of (rows ! (k - 1)))"

lemma page_at:
  assumes "eth_ok E" and "reachable_db E d" and "parse_limit limit_text = Inr limit"
    and "category \<in> {[], ''pons'', ''o1_crypto''}" and "\<forall>r\<in>set (db_index d). stored_time (lr_created_at r)"
    and "k \<le> length (launches_desc category d)"
  shows "launches E None limit_text category (cursor_at (launches_desc category d) k) d =
    Reply 200 \<lparr>la_items = map item_of_launch (take (nat limit) (drop k (launches_desc category d))),
      la_next_cursor = (if k + nat limit \<le> length (launches_desc category d)
        then cursor_at (launches_desc category d) (k + nat limit) else [])\<rparr>"
proof -
  let ?L = "launches_desc category d"
  have limit: "1 \<le> limit" "limit \<le> 200" using assms(3) by (auto simp: parse_limit_def res_simps split: if_splits option.splits)
  define c where c: "c = (if k = 0 then None else Some (lr_created_at (?L ! (k - 1)), lr_token (?L ! (k - 1))))"
  have "parse_launch_cursor E (cursor_at ?L k) = Inr c"
  proof (cases "k = 0")
    case False
    then have "?L ! (k - 1) \<in> set ?L" using assms(6) by (intro nth_mem) simp
    then have r: "?L ! (k - 1) \<in> set (db_index d)" by (simp add: launches_desc_def)
    moreover have "launches_ok d" using reachable_db_ok [OF assms(2,1)] by simp
    ultimately have "canonical_address (lr_token (?L ! (k - 1)))" by (simp add: launches_ok_def)
    from cursor_names_its_row [OF assms(1) this] r assms(5) False show ?thesis by (simp add: cursor_at_def c)
  qed (simp add: cursor_at_def c parse_launch_cursor_def)
  moreover have "list_launches E category c limit d = Inr (take (nat limit) (drop k ?L))"
  proof (cases "k = 0")
    case True
    with limit show ?thesis by (simp add: c list_launches_def)
  next
    case False
    then have "k - 1 < length ?L" "Suc (k - 1) = k" using assms(6) by auto
    with page_after_cursor [OF assms(1,2) limit this(1)] False show ?thesis by (simp add: c)
  qed
  ultimately have "launches E None limit_text category (cursor_at ?L k) d =
    (let rows = take (nat limit) (drop k ?L)
     in Reply 200 \<lparr>la_items = map item_of_launch rows, la_next_cursor = (if int (length rows) = limit then cursor_of (last rows) else [])\<rparr>)"
    using assms(3,4) by (auto simp: launches_def Let_def)
  moreover have "int (length (take (nat limit) (drop k ?L))) = limit \<longleftrightarrow> k + nat limit \<le> length ?L"
    using limit by auto
  moreover have "last (take (nat limit) (drop k ?L)) = ?L ! (k + nat limit - 1)" if "k + nat limit \<le> length ?L"
    using that limit by (subst last_conv_nth) (auto simp: nat_add_distrib)
  ultimately show ?thesis using limit by (simp add: Let_def cursor_at_def)
qed

lemma follow_from:
  assumes "eth_ok E" and "reachable_db E d" and "parse_limit limit_text = Inr limit"
    and "category \<in> {[], ''pons'', ''o1_crypto''}" and "\<forall>r\<in>set (db_index d). stored_time (lr_created_at r)"
  shows "\<lbrakk>k \<le> length (launches_desc category d); length (launches_desc category d) \<le> k + n\<rbrakk> \<Longrightarrow>
    concat (follow E limit_text category d n (cursor_at (launches_desc category d) k)) =
      map item_of_launch (drop k (launches_desc category d)) \<and>
    (\<forall>page\<in>set (follow E limit_text category d n (cursor_at (launches_desc category d) k)). length page \<le> nat limit)"
proof (induction n arbitrary: k)
  let ?L = "launches_desc category d"
  have limit: "1 \<le> limit" "1 \<le> nat limit" using assms(3) by (auto simp: parse_limit_def res_simps split: if_splits option.splits)
  note page = page_at [OF assms]
  {
    case 0
    then have "k = length ?L" by simp
    with page [OF 0(1)] limit show ?case by (subst (1 2) follow.simps) simp
  next
    case (Suc n)
    show ?case
    proof (cases "k + nat limit \<le> length ?L")
      case True
      have row: "?L ! (k + nat limit - 1) \<in> set (db_index d)"
        using True limit nth_mem [of "k + nat limit - 1" ?L] by (simp add: launches_desc_def)
      have "launches_ok d" using reachable_db_ok [OF assms(2,1)] by simp
      with row have "canonical_address (lr_token (?L ! (k + nat limit - 1)))" by (simp add: launches_ok_def)
      then have "cursor_at ?L (k + nat limit) \<noteq> []"
        using cursor_names_its_row(2) [OF assms(1)] row assms(5) limit by (simp add: cursor_at_def)
      with page [OF Suc.prems(1)] True
      have f: "follow E limit_text category d (Suc n) (cursor_at ?L k) =
        map item_of_launch (take (nat limit) (drop k ?L)) # follow E limit_text category d n (cursor_at ?L (k + nat limit))"
        by (subst follow.simps) simp
      have "length ?L \<le> k + nat limit + n" using Suc.prems(2) limit by simp
      note IH = Suc.IH [OF True this]
      have "take (nat limit) (drop k ?L) @ drop (k + nat limit) ?L = drop k ?L"
        using append_take_drop_id [of "nat limit" "drop k ?L"] by (simp add: add.commute)
      then have "map item_of_launch (take (nat limit) (drop k ?L)) @ map item_of_launch (drop (k + nat limit) ?L) =
          map item_of_launch (drop k ?L)" by (simp only: map_append [symmetric])
      with IH show ?thesis by (simp only: f concat.simps list.set ball_simps) simp
    next
      case False
      with page [OF Suc.prems(1)] show ?thesis by (subst (1 2) follow.simps) simp
    qed
  }
qed

section \<open>Realized profit\<close>

lemma replay_from_ids:
  "replay_from es lots rs = Inr (rs', lots') \<Longrightarrow>
   sr_event_id ` set rs' \<subseteq> sr_event_id ` set rs \<union> fe_id ` {e \<in> set es. fe_direction e = ''sell''}"
proof (induction es lots rs arbitrary: rs' lots' rule: replay_from.induct)
  case (2 e es lots rs)
  note IH = "2.IH" and prems = "2.prems"
  let ?S = "\<lambda>es. fe_id ` {e \<in> set es. fe_direction e = ''sell''}"
  have sub: "?S es \<subseteq> ?S (e # es)" by auto
  show ?case
  proof (cases "fe_direction e \<noteq> ''buy'' \<and> fe_direction e \<noteq> ''sell''")
    case True
    with IH(1) [OF True] prems sub show ?thesis by auto
  next
    case dir: False
    show ?thesis
    proof (cases "fe_price_usd e")
      case None
      with IH(2) [OF dir None] prems dir sub show ?thesis by auto
    next
      case (Some p)
      show ?thesis
      proof (cases "human_quantity (fe_quantity_raw e) (fe_decimals e)")
        case None
        with prems dir Some show ?thesis by simp
      next
        case q: (Some qty)
        have pos: "\<not> qty \<le> 0" using prems dir Some q by (auto split: if_splits)
        show ?thesis
        proof (cases "fe_direction e = ''buy''")
          case True
          with IH(3) [OF dir Some q pos True] prems dir Some q pos sub show ?thesis by auto
        next
          case False
          with dir have sell: "fe_direction e = ''sell''" by simp
          from prems Some q pos sell obtain remaining matched pnl lots1 where
            m: "match_lots (fe_id e) (fe_decimals e) p qty 0 0 lots = Inr (remaining, matched, pnl, lots1)"
            and r: "replay_from es lots1 (rs @ [\<lparr>sr_event_id = fe_id e, sr_matched_pnl = rat_string pnl,
                 sr_matched_qty = matched, sr_overflow_qty = remaining\<rparr>]) = Inr (rs', lots')"
            by (auto simp: res_simps)
          from IH(4) [OF dir Some q pos False m refl refl refl r] sell show ?thesis by auto
        qed
      qed
    qed
  qed
qed auto

lemma replay_fifo_ids:
  "replay_fifo es = Inr rs \<Longrightarrow> sr_event_id ` set rs \<subseteq> fe_id ` {e \<in> set es. fe_direction e = ''sell''}"
  using replay_from_ids [of es "[]" "[]" rs] by (auto simp: replay_fifo_def res_simps simp del: image_subset_iff)

lemma add_results_other: "i \<notin> sr_event_id ` set rs \<Longrightarrow> add_results F rs pnl i = pnl i"
  unfolding add_results_def by (induction rs arbitrary: pnl) auto

text \<open>The profit of an event, from the replay of its token alone.\<close>

definition realized_profit ::
  "to_float \<Rightarrow> (string \<Rightarrow> fifo_event list res) \<Rightarrow> wallet_event \<Rightarrow> float64 option" where
  "realized_profit F fifo row =
     (case bindE (fifo (we_token row)) replay_fifo of
        Inl _ \<Rightarrow> None
      | Inr results \<Rightarrow> add_results F results (\<lambda>_. None) (we_id row))"

lemma add_results_start: "pnl i = pnl' i \<Longrightarrow> add_results F rs pnl i = add_results F rs pnl' i"
  unfolding add_results_def
proof (induction rs arbitrary: pnl pnl')
  case (Cons r rs)
  let ?u = "\<lambda>p. if 0 < sr_matched_qty r then p(sr_event_id r := rat_string_float F (sr_matched_pnl r)) else p"
  have "?u pnl i = ?u pnl' i" using Cons.prems by simp
  with Cons.IH [of "?u pnl" "?u pnl'"] show ?case by simp
qed simp

text \<open>
  \<open>sells i\<close> is the token whose replay has a sell with the id \<open>i\<close>: when the ids of rows tell their tokens
  apart, the results of one token do not show under another.
\<close>

definition own_sells :: "(string \<Rightarrow> fifo_event list res) \<Rightarrow> (string \<Rightarrow> string option) \<Rightarrow> bool" where
  "own_sells fifo sells \<longleftrightarrow>
     (\<forall>t es e. canonical_address t \<and> fifo t = Inr es \<and> e \<in> set es \<and> fe_direction e = ''sell'' \<longrightarrow> sells (fe_id e) = Some t)"

lemma own_results:
  assumes "own_sells fifo sells" and "fifo t = Inr es" and "replay_fifo es = Inr rs" and "sells i \<noteq> Some t"
    and "canonical_address t"
  shows "i \<notin> sr_event_id ` set rs"
proof
  assume "i \<in> sr_event_id ` set rs"
  with replay_fifo_ids [OF assms(3)] have "i \<in> fe_id ` {e \<in> set es. fe_direction e = ''sell''}" by (rule subsetD)
  then obtain e where "e \<in> set es" "fe_direction e = ''sell''" "fe_id e = i" by (elim imageE CollectE conjE) simp
  with assms(1,2,4,5) show False unfolding own_sells_def by metis
qed

lemma realized_none:
  assumes "own_sells fifo sells" and "canonical_address (we_token row)" and "sells (we_id row) \<noteq> Some (we_token row)"
  shows "realized_profit F fifo row = None"
proof (cases "bindE (fifo (we_token row)) replay_fifo")
  case (Inr rs)
  then obtain es where es: "fifo (we_token row) = Inr es" "replay_fifo es = Inr rs" by (auto simp: res_simps)
  from own_results [OF assms(1) es assms(3,2)] Inr show ?thesis by (simp add: realized_profit_def add_results_other)
qed (simp add: realized_profit_def)

definition shown_as :: "to_float \<Rightarrow> (string \<Rightarrow> fifo_event list res) \<Rightarrow> (string \<Rightarrow> string option) \<Rightarrow> wallet_event \<Rightarrow> wallet_event_item \<Rightarrow> bool" where
  "shown_as F fifo sells row item \<longleftrightarrow>
     (we_kind row = ''sell'' \<longrightarrow> item = item_of_event row (realized_profit F fifo row)) \<and>
     (\<exists>x. item = item_of_event row x \<and> (sells (we_id row) \<noteq> Some (we_token row) \<longrightarrow> x = None))"

lemma shown_asI:
  assumes "own_sells fifo sells" and "canonical_address (we_token row)" and "x = realized_profit F fifo row \<or> x = None \<and> we_kind row \<noteq> ''sell''"
  shows "shown_as F fifo sells row (item_of_event row x)"
  using assms realized_none [OF assms(1,2), of F] by (auto simp: shown_as_def)

lemma event_items_spec:
  assumes own: "own_sells fifo sells"
  shows "\<lbrakk>event_items F fifo rows loaded pnl = Inr items;
      \<forall>row\<in>set rows. canonical_address (we_token row) \<and> sells (we_id row) \<in> {None, Some (we_token row)};
      \<forall>row\<in>set rows. pnl (we_id row) = (if we_token row \<in> loaded then realized_profit F fifo row else None)\<rbrakk> \<Longrightarrow>
    list_all2 (shown_as F fifo sells) rows items"
proof (induction rows arbitrary: loaded pnl items)
  case (Cons row rows)
  show ?case
  proof (cases "we_kind row = ''sell'' \<and> we_token row \<notin> loaded")
    case True
    with Cons.prems(1) obtain es rs items' where e: "fifo (we_token row) = Inr es" "replay_fifo es = Inr rs"
      and i: "event_items F fifo rows (insert (we_token row) loaded) (add_results F rs pnl) = Inr items'"
      "items = item_of_event row (add_results F rs pnl (we_id row)) # items'"
      by (auto simp: res_simps)
    have up: "add_results F rs pnl (we_id x) =
        (if we_token x \<in> insert (we_token row) loaded then realized_profit F fifo x else None)" if "x \<in> set (row # rows)" for x
    proof (cases "we_token x = we_token row")
      case same: True
      then have "pnl (we_id x) = None" using Cons.prems(3) True that by fastforce
      from add_results_start [of pnl "we_id x" "\<lambda>_. None", OF this] show ?thesis
        using same e by (simp add: realized_profit_def)
    next
      case False
      then have "sells (we_id x) \<noteq> Some (we_token row)" using Cons.prems(2) that by fastforce
      then have "add_results F rs pnl (we_id x) = pnl (we_id x)" using own_results [OF own e] Cons.prems(2) by (intro add_results_other) simp
      with False Cons.prems(3) that show ?thesis by auto
    qed
    have "list_all2 (shown_as F fifo sells) rows items'"
      using Cons.IH [OF i(1)] Cons.prems(2) up by simp
    moreover have "shown_as F fifo sells row (item_of_event row (add_results F rs pnl (we_id row)))"
      using up [of row] Cons.prems(2) by (intro shown_asI [OF own]) simp_all
    ultimately show ?thesis by (simp add: i(2))
  next
    case False
    with Cons.prems(1) obtain items' where i: "event_items F fifo rows loaded pnl = Inr items'"
      "items = item_of_event row (pnl (we_id row)) # items'" by (auto simp: res_simps)
    have "list_all2 (shown_as F fifo sells) rows items'" using Cons.IH [OF i(1)] Cons.prems(2,3) by simp
    moreover have "shown_as F fifo sells row (item_of_event row (pnl (we_id row)))"
      using False Cons.prems(2,3) by (intro shown_asI [OF own]) auto
    ultimately show ?thesis by (simp add: i(2))
  qed
qed simp

lemma fifo_events_rows:
  assumes "fifo_events E shortest wallet t d = Inr es" and "e \<in> set es"
  obtains row t' where "row \<in> set (db_events d)" and "we_id row = fe_id e" and "we_direction row = fe_direction e"
    and "normalize_address E t = Inr t'" and "equal_fold (we_token row) t'"
proof -
  from assms(1) obtain w t' where t: "normalize_address E t = Inr t'" and m: "mapE (\<lambda>e. case we_token_decimals e of
               None \<Rightarrow> Inl (E_decimals (we_id e))
             | Some decimals \<Rightarrow>
                 Inr \<lparr>fe_id = we_id e, fe_direction = we_direction e, fe_quantity_raw = we_token_amount_raw e,
                      fe_decimals = decimals, fe_price_usd = map_option shortest (we_exec_usd e)\<rparr>)
         (trades_of (\<lambda>e. equal_fold (we_wallet e) w \<and> equal_fold (we_token e) t') d) = Inr es"
    by (auto simp: fifo_events_def res_simps)
  note all = m [unfolded mapE_eq_Inr]
  obtain i where i: "i < length es" "es ! i = e" using assms(2) by (auto simp: in_set_conv_nth)
  let ?rows = "trades_of (\<lambda>e. equal_fold (we_wallet e) w \<and> equal_fold (we_token e) t') d"
  define row where r: "row = ?rows ! i"
  have row: "row \<in> set ?rows" using i(1) list_all2_lengthD [OF all] by (simp add: r)
  have e: "(case we_token_decimals row of None \<Rightarrow> Inl (E_decimals (we_id row)) | Some decimals \<Rightarrow>
                 Inr \<lparr>fe_id = we_id row, fe_direction = we_direction row, fe_quantity_raw = we_token_amount_raw row,
                      fe_decimals = decimals, fe_price_usd = map_option shortest (we_exec_usd row)\<rparr>) = Inr e"
    using list_all2_nthD2 [OF all i(1)] unfolding i(2) r [symmetric] .
  from row have "row \<in> set (db_events d)" "equal_fold (we_token row) t'" by (auto simp: trades_of_def)
  moreover from e have "we_id row = fe_id e" "we_direction row = fe_direction e" by (auto split: option.splits)
  ultimately show thesis using that t by blast
qed

definition sells_of :: "db \<Rightarrow> string \<Rightarrow> string option" where
  "sells_of d = map_of (map (\<lambda>e. (we_id e, we_token e)) (filter (\<lambda>e. we_direction e = ''sell'') (db_events d)))"

lemma sells_of_iff:
  assumes "distinct (map we_id (db_events d))"
  shows "sells_of d i = Some t \<longleftrightarrow> (\<exists>row\<in>set (db_events d). we_id row = i \<and> we_token row = t \<and> we_direction row = ''sell'')"
  using assms unfolding sells_of_def
  by (subst map_of_eq_Some_iff) (auto simp: o_def distinct_map_filter image_iff)

lemma own_sells_of:
  assumes "eth_ok E" and "events_ok d"
  shows "own_sells (\<lambda>t. fifo_events E shortest wallet t d) (sells_of d)"
  unfolding own_sells_def
proof (intro allI impI, elim conjE)
  fix t es e
  assume t: "canonical_address t" and es: "fifo_events E shortest wallet t d = Inr es" "e \<in> set es" "fe_direction e = ''sell''"
  from fifo_events_rows [OF es(1,2)] obtain row t' where row: "row \<in> set (db_events d)" "we_id row = fe_id e"
    "we_direction row = fe_direction e" "normalize_address E t = Inr t'" "equal_fold (we_token row) t'" .
  have "t' = t" using normalize_address_id [OF assms(1) t] row(4) by simp
  moreover have "canonical_address (we_token row)" using assms(2) row(1) by (simp add: events_ok_def)
  ultimately have "we_token row = t" using row(5) t by (simp add: equal_fold_def)
  then show "sells_of d (fe_id e) = Some t" using sells_of_iff [of d] assms(2) row es(3) by (auto simp: events_ok_def)
qed

section \<open>Properties\<close>

text \<open>C9. A client that follows the next cursors from the start gets every launch of the catalog, of the
  category asked for, exactly once and newest first, in pages within the limit; its walk ends. The times of
  the rows are times that the table can hold as texts with four-digit years.\<close>

theorem following_cursors_lists_every_launch_once:
  assumes "eth_ok E" and "reachable_db E d" and "parse_limit limit_text = Inr limit"
    and "category \<in> {[], ''pons'', ''o1_crypto''}" and "\<forall>r\<in>set (db_index d). stored_time (lr_created_at r)"
    and "length (db_index d) \<le> n"
  shows "concat (follow E limit_text category d n []) = map item_of_launch (launches_desc category d) \<and>
    mset (launches_desc category d) = mset (filter (\<lambda>r. category = [] \<or> lr_category r = category) (db_index d)) \<and>
    sorted_wrt (\<lambda>r r'. lr_created_at r' \<le> lr_created_at r) (launches_desc category d) \<and>
    (\<forall>page\<in>set (follow E limit_text category d n []). length page \<le> nat limit)"
proof -
  let ?L = "launches_desc category d"
  have m: "mset ?L = mset (filter (\<lambda>r. category = [] \<or> lr_category r = category) (db_index d))"
    by (simp add: launches_desc_def imp_conv_disj)
  then have "length ?L \<le> length (db_index d)" by (metis size_mset length_filter_le)
  with follow_from [OF assms(1-5), of 0 n] assms(6) have "concat (follow E limit_text category d n []) = map item_of_launch ?L \<and>
    (\<forall>page\<in>set (follow E limit_text category d n []). length page \<le> nat limit)" by (simp add: cursor_at_def)
  moreover have "sorted (map lr_created_at (rev ?L))" by (simp add: launches_desc_def)
  then have "sorted_wrt (\<lambda>r r'. lr_created_at r' \<le> lr_created_at r) ?L" by (simp add: sorted_wrt_map sorted_wrt_rev sorted_map)
  ultimately show ?thesis using m by blast
qed

text \<open>C10. Every sell on a page of events carries the profit that the replay of its own token realizes for it,
  computed from all stored trades of the wallet in that token and not from those on the page; a row that is
  no sell carries none.\<close>

theorem wallet_page_shows_realized_profit:
  assumes "eth_ok E" and "reachable_db E d"
    and "wallet_events E F shortest None (\<lambda>_. None) limit_text kind address d = Reply 200 items"
  shows "\<exists>wallet limit rows. normalize_address E address = Inr wallet \<and> parse_limit limit_text = Inr limit \<and>
    list_wallet_events E wallet kind limit d = Inr rows \<and>
    list_all2 (\<lambda>row item.
      (we_kind row = ''sell'' \<longrightarrow> item = item_of_event row (realized_profit F (\<lambda>t. fifo_events E shortest wallet t d) row)) \<and>
      (we_kind row \<noteq> ''sell'' \<and> we_direction row \<noteq> ''sell'' \<longrightarrow> item = item_of_event row None)) rows items"
proof -
  from assms(3) obtain limit wallet rows where l: "parse_limit limit_text = Inr limit" "normalize_address E address = Inr wallet"
    "list_wallet_events E wallet kind limit d = Inr rows"
    and i: "event_items F (\<lambda>t. fifo_events E shortest wallet t d) rows {} (\<lambda>_. None) = Inr items"
    by (auto simp: wallet_events_def bad_request_def query_failed_def res_simps split: sum.splits if_splits)
  have ok: "events_ok d" using reachable_db_ok [OF assms(2,1)] by simp
  then have dist: "distinct (map we_id (db_events d))" by (simp add: events_ok_def)
  have rows: "set rows \<subseteq> set (db_events d)"
    using l(3) by (auto simp: list_wallet_events_def res_simps dest!: in_set_takeD)
  have same: "row' = row" if "row \<in> set (db_events d)" "row' \<in> set (db_events d)" "we_id row' = we_id row" for row row'
    using dist that by (simp add: distinct_map inj_on_def)
  have sells: "sells_of d (we_id row) = (if we_direction row = ''sell'' then Some (we_token row) else None)" if "row \<in> set rows" for row
  proof (cases "sells_of d (we_id row)")
    case (Some t)
    then obtain row' where r': "row' \<in> set (db_events d)" "we_id row' = we_id row" "we_token row' = t" "we_direction row' = ''sell''"
      using sells_of_iff [OF dist] by auto
    then have "row' = row" using same [of row row'] that rows by auto
    with Some r' show ?thesis by simp
  next
    case None
    have "we_direction row \<noteq> ''sell''"
    proof
      assume "we_direction row = ''sell''"
      then have "sells_of d (we_id row) = Some (we_token row)" using sells_of_iff [OF dist] that rows by auto
      with None show False by simp
    qed
    with None show ?thesis by simp
  qed
  have "list_all2 (shown_as F (\<lambda>t. fifo_events E shortest wallet t d) (sells_of d)) rows items"
  proof (rule event_items_spec [OF own_sells_of [OF assms(1) ok] i])
    show "\<forall>row\<in>set rows. canonical_address (we_token row) \<and> sells_of d (we_id row) \<in> {None, Some (we_token row)}"
      using ok rows sells by (auto simp: events_ok_def)
  qed simp
  then have "list_all2 (\<lambda>row item.
      (we_kind row = ''sell'' \<longrightarrow> item = item_of_event row (realized_profit F (\<lambda>t. fifo_events E shortest wallet t d) row)) \<and>
      (we_kind row \<noteq> ''sell'' \<and> we_direction row \<noteq> ''sell'' \<longrightarrow> item = item_of_event row None)) rows items"
    by (rule list.rel_mono_strong) (auto simp: shown_as_def sells)
  with l show ?thesis by blast
qed

text \<open>The health report compares the head of the chain with the watermark: the lag never wraps around,
  it is null exactly when the head is unknown, and the report is good unless the lag is over the limit or the
  database cannot be read.\<close>

theorem health_reports_the_lag:
  assumes "health chain_id lag_warn ping fault head d = Reply status r"
  shows "(status = 200 \<longleftrightarrow> ping = None \<and> fault \<in> {None, Some E_no_rows}) \<and>
    (status \<noteq> 200 \<longrightarrow> \<not> he_ok r \<and> he_lag r = None) \<and>
    (status = 200 \<longrightarrow> (he_lag r = None \<longleftrightarrow> \<not> is_ok head) \<and>
      (fault = None \<longrightarrow> he_last_block r = (case load_watermark watermark_name d of None \<Rightarrow> 0 | Some (b, _) \<Rightarrow> b)) \<and>
      (\<forall>h. head = Inr h \<longrightarrow> (\<exists>lag. he_lag r = Some lag \<and> uint lag = max 0 (uint h - uint (he_last_block r)) \<and>
        (he_ok r \<longleftrightarrow> lag \<le> lag_warn))))"
proof -
  have lag: "uint (if b < h then h - b else 0) = max 0 (uint h - uint b)" for b h :: u64
    using uint_minus_simple_alt [of b h] by (auto simp: word_less_def word_le_def max_def)
  define b :: u64 where "b = (case fault of None \<Rightarrow> (case get_sync_state watermark_name d of Inl _ \<Rightarrow> 0 | Inr st \<Rightarrow> ss_last_block st) | Some _ \<Rightarrow> 0)"
  show ?thesis
  proof (cases "ping = None \<and> fault \<in> {None, Some E_no_rows}")
    case False
    then have "status = 503 \<and> \<not> he_ok r \<and> he_lag r = None"
      using assms by (cases ping; cases fault) (auto simp: health_def Let_def)
    with False show ?thesis by auto
  next
    case True
    have none: "e = E_no_rows" if "get_sync_state watermark_name d = Inl e" for e
      using that by (auto simp: get_sync_state_def split: option.splits)
    define r0 where "r0 = \<lparr>he_ok = True, he_chain_id = chain_id, he_last_block = b, he_head_block = None, he_lag = None, he_db = ''ok''\<rparr>"
    have "health chain_id lag_warn ping fault head d = answer_head lag_warn head r0"
      using True none by (cases fault; cases "get_sync_state watermark_name d") (auto simp: health_def Let_def r0_def b_def)
    with assms have a: "answer_head lag_warn head r0 = Reply status r" by simp
    have w: "fault = None \<Longrightarrow> b = (case load_watermark watermark_name d of None \<Rightarrow> 0 | Some (b, _) \<Rightarrow> b)"
      by (simp add: b_def load_watermark_def split: sum.splits)
    show ?thesis
    proof (cases head)
      case (Inl e)
      with a have "status = 200" "r = r0" by (auto simp: answer_head_def)
      with True Inl w show ?thesis by (auto simp: r0_def)
    next
      case (Inr h)
      with a have "status = 200" "r = r0\<lparr>he_head_block := Some h, he_lag := Some (if b < h then h - b else 0),
          he_ok := \<not> lag_warn < (if b < h then h - b else 0)\<rparr>" by (auto simp: answer_head_def Let_def r0_def)
      with True Inr w lag [of b h] show ?thesis by (simp add: r0_def not_less)
    qed
  qed
qed

section \<open>Witnesses\<close>

theorem following_cursors_lists_every_launch_once_witness:
  "concat (follow eth_plain ''1'' [] two_launch_db 2 []) = map item_of_launch (launches_desc [] two_launch_db) \<and>
   length (launches_desc [] two_launch_db) = 2"
proof -
  have t: "map lr_created_at (db_index two_launch_db) = [5 * second, 5 * second]" by code_simp
  then have "length (map lr_created_at (db_index two_launch_db)) = 2" by (simp only: list.size)
  then have "length (db_index two_launch_db) = 2" by simp
  moreover from this have "length (launches_desc [] two_launch_db) = 2" by (simp add: launches_desc_def)
  moreover have "stored_time (5 * second)" by (simp add: stored_time_def four_digit_year_def rfc3339_def second_def)
  then have "\<forall>r\<in>set (db_index two_launch_db). stored_time (lr_created_at r)"
    using t by (metis (mono_tags, lifting) empty_iff image_eqI insert_iff list.set list.set_map)
  moreover have "parse_limit ''1'' = Inr 1" by code_simp
  ultimately show ?thesis
    using following_cursors_lists_every_launch_once [OF eth_plain_ok ex_reachable(3), of "''1''" 1 "[]" 2] by simp
qed

definition ex_bought :: wallet_event where
  "ex_bought = ex_event\<lparr>we_id := ''1'', we_kind := ''buy'', we_direction := ''buy'', we_exec_usd := Some 2,
     we_token_amount_raw := ''5'', we_token_decimals := Some 0, we_chain_time := 0, we_ingested_at := 0\<rparr>"

definition ex_sold :: wallet_event where
  "ex_sold = ex_event\<lparr>we_id := ''2'', we_kind := ''sell'', we_direction := ''sell'', we_exec_usd := Some 5,
     we_token_amount_raw := ''4'', we_token_decimals := Some 0, we_chain_time := 0, we_ingested_at := 0\<rparr>"

definition ex_traded_db :: db where
  "ex_traded_db = fst (insert_wallet_event eth_plain None ex_sold (fst (insert_wallet_event eth_plain None ex_bought empty_db)))"

theorem wallet_page_shows_realized_profit_witness:
  "\<exists>items. wallet_events eth_plain Some (\<lambda>x. x) None (\<lambda>_. None) ''1'' [] ex_wallet ex_traded_db = Reply 200 items \<and>
     map wi_realized items = [Some (Finite 12)]"
proof -
  have "reachable_db eth_plain ex_traded_db"
    unfolding ex_traded_db_def
    by (rule reachable_db.event [OF reachable_db.event [OF ex_reachable(1) prod.collapse [symmetric]] prod.collapse [symmetric]])
  note shown = wallet_page_shows_realized_profit [OF eth_plain_ok this]
  have db: "ex_traded_db = empty_db\<lparr>db_events := [ex_bought, ex_sold]\<rparr>" by code_simp
  have l: "list_wallet_events eth_plain ex_wallet [] 1 ex_traded_db = Inr [ex_sold]" unfolding db by code_simp
  have f: "fifo_events eth_plain (\<lambda>x. x) ex_wallet ex_token ex_traded_db =
      Inr [\<lparr>fe_id = ''1'', fe_direction = ''buy'', fe_quantity_raw = ''5'', fe_decimals = 0, fe_price_usd = Some 2\<rparr>,
           \<lparr>fe_id = ''2'', fe_direction = ''sell'', fe_quantity_raw = ''4'', fe_decimals = 0, fe_price_usd = Some 5\<rparr>]"
    unfolding db by code_simp
  have r: "replay_fifo [\<lparr>fe_id = ''1'', fe_direction = ''buy'', fe_quantity_raw = ''5'', fe_decimals = 0, fe_price_usd = Some 2\<rparr>,
           \<lparr>fe_id = ''2'', fe_direction = ''sell'', fe_quantity_raw = ''4'', fe_decimals = 0, fe_price_usd = Some 5\<rparr>] =
      Inr [\<lparr>sr_event_id = ''2'', sr_matched_pnl = ''12'', sr_matched_qty = 4, sr_overflow_qty = 0\<rparr>]" by code_simp
  have v: "rat_string_float Some ''12'' = Some (Finite 12)" by code_simp
  have n: "normalize_address eth_plain ex_wallet = Inr ex_wallet" "parse_limit ''1'' = Inr 1" by code_simp+
  have s: "we_kind ex_sold = ''sell''" "we_token ex_sold = ex_token" "we_id ex_sold = ''2''" by (simp_all add: ex_sold_def ex_event_def)
  have "event_items Some (\<lambda>t. fifo_events eth_plain (\<lambda>x. x) ex_wallet t ex_traded_db) [ex_sold] {} (\<lambda>_. None) =
      Inr [item_of_event ex_sold (Some (Finite 12))]"
    using s by (simp add: f r v add_results_def)
  then have i: "wallet_events eth_plain Some (\<lambda>x. x) None (\<lambda>_. None) ''1'' [] ex_wallet ex_traded_db =
      Reply 200 [item_of_event ex_sold (Some (Finite 12))]"
    using l n by (simp add: wallet_events_def)
  from shown [OF i] i show ?thesis by (simp add: item_of_event_def)
qed

theorem health_reports_the_lag_witness:
  "\<exists>r. health 4663 50 None None (Inr 100) empty_db = Reply 200 r \<and> he_lag r = Some 100 \<and> \<not> he_ok r"
proof -
  obtain r where r: "health 4663 50 None None (Inr 100) empty_db = Reply 200 r" "he_last_block r = 0"
    by (simp add: health_def Let_def get_sync_state_def empty_db_def answer_head_def)
  from health_reports_the_lag [OF r(1)] r(2) obtain lag where "he_lag r = Some lag" "uint lag = 100" "he_ok r \<longleftrightarrow> lag \<le> 50"
    by auto
  moreover from this(2) have "lag = 100" by (simp add: word_uint_eq_iff)
  ultimately show ?thesis using r(1) by simp
qed

end
