(* ===== verification/Store_Text.thy ===== *)
theory Store_Text
  imports Http_Service
begin

text \<open>
  The statements on columns that hold times. The tables hold the texts that \<open>Format(time.RFC3339)\<close> gives, and
  SQLite compares and sorts them byte by byte; Store_Db, Store_Events and App_Signals model the columns as
  times, rounded to the second. Here the statements are translated once more, over rows whose time is nothing but
  the text that was written, and shown to give what the other model gives. A row is the text together with
  the other columns.
\<close>

type_synonym 'r text_row = "string \<times> 'r"

section \<open>Writing and reading a row\<close>

text \<open>What \<open>INSERT\<close> binds for a row with the time \<open>at\<close>: the time itself is not kept.\<close>

definition write_launch :: "time \<times> launch_row \<Rightarrow> launch_row text_row" where
  "write_launch = (\<lambda>(ts, r). (format_rfc3339 ts, r\<lparr>lr_created_at := 0\<rparr>))"

definition write_event :: "time \<times> wallet_event \<Rightarrow> wallet_event text_row" where
  "write_event = (\<lambda>(ts, e). (format_rfc3339 ts, e\<lparr>we_chain_time := 0\<rparr>))"

definition scan_launch :: "launch_row text_row \<Rightarrow> launch_row res" where
  "scan_launch = (\<lambda>(created, r).
     case parse_rfc3339_utc created of None \<Rightarrow> Inl (E_store 0) | Some t \<Rightarrow> Inr (r\<lparr>lr_created_at := t\<rparr>))"

section \<open>The statements\<close>

text \<open>\<open>ListLaunches\<close>: the cursor time comes as a text, an empty one for the first page.\<close>

definition list_launches_text ::
  "eth_common \<Rightarrow> string \<Rightarrow> string \<Rightarrow> string \<Rightarrow> int \<Rightarrow> launch_row text_row list \<Rightarrow> launch_row list res" where
  "list_launches_text E category cursor_time cursor_token limit rows =
     guardE (limit < 1 \<or> 200 < limit) E_limit
       (bindE (if cursor_time = [] then Inr (\<lambda>_. True)
               else bindE (normalize_address E cursor_token) (\<lambda>t.
                 Inr (\<lambda>(created, r). created < cursor_time \<or> created = cursor_time \<and> to_lower (lr_token r) < to_lower t)))
         (\<lambda>after.
          mapE scan_launch (take (nat limit) (rev (sort_key fst (sort_key (\<lambda>(_, r). to_lower (lr_token r))
            (filter (\<lambda>x. (category \<noteq> [] \<longrightarrow> lr_category (snd x) = category) \<and> after x) rows)))))))"

text \<open>One batch of the purge: the delete statement and the query for what is left.\<close>

definition purge_batch_text ::
  "string \<Rightarrow> nat \<Rightarrow> nat \<Rightarrow> nat \<Rightarrow> wallet_event text_row list \<Rightarrow> wallet_event text_row list \<times> nat \<times> bool" where
  "purge_batch_text cutoff n deleted max_per_run rows =
     (let ids = (\<lambda>x. we_id (snd x)) ` set (take n (sort_key fst (sort_key (\<lambda>x. we_id (snd x)) (filter (\<lambda>x. fst x < cutoff) rows))));
          rest = filter (\<lambda>x. we_id (snd x) \<notin> ids) rows;
          k = length rows - length rest
      in (rest, k, max_per_run \<le> deleted + k \<and> (\<exists>x\<in>set rest. fst x < cutoff)))"

text \<open>The buyers of the first hour: \<open>strftime\<close> gives the text of the time an hour later.\<close>

definition early_buyers_text :: "wallet_event text_row list \<Rightarrow> launch_row text_row \<Rightarrow> string list" where
  "early_buyers_text rows = (\<lambda>(created, r).
     case parse_rfc3339_utc created of
       None \<Rightarrow> []
     | Some t \<Rightarrow> remdups (map (\<lambda>(_, e). to_lower (we_wallet e)) (filter (\<lambda>(at_text, e).
         equal_fold (we_token e) (lr_token r) \<and> we_kind e = ''buy'' \<and>
         created \<le> at_text \<and> at_text \<le> format_rfc3339 (t + 3600 * second)) rows)))"

section \<open>Texts and rounded times\<close>

lemma rfc3339_div: "rfc3339 t div second = t div second"
  by (simp add: rfc3339_def second_def)

lemma rfc3339_less: "rfc3339 s < rfc3339 t \<longleftrightarrow> s div second < t div second"
  by (simp add: rfc3339_def second_def)

lemma text_order:
  assumes "four_digit_year s" and "four_digit_year t"
  shows "format_rfc3339 s < format_rfc3339 t \<longleftrightarrow> rfc3339 s < rfc3339 t"
    and "format_rfc3339 s \<le> format_rfc3339 t \<longleftrightarrow> rfc3339 s \<le> rfc3339 t"
    and "format_rfc3339 s = format_rfc3339 t \<longleftrightarrow> rfc3339 s = rfc3339 t"
proof -
  note l = formatted_less_iff [OF assms] formatted_less_iff [OF assms(2,1)]
  show "format_rfc3339 s < format_rfc3339 t \<longleftrightarrow> rfc3339 s < rfc3339 t"
    and le: "format_rfc3339 s \<le> format_rfc3339 t \<longleftrightarrow> rfc3339 s \<le> rfc3339 t"
    by (simp_all add: l rfc3339_less not_less [symmetric])
  show "format_rfc3339 s = format_rfc3339 t \<longleftrightarrow> rfc3339 s = rfc3339 t"
    using l rfc3339_less by (metis neq_iff)
qed

lemma parse_written: "four_digit_year t \<Longrightarrow> parse_rfc3339_utc (format_rfc3339 t) = Some (rfc3339 t)"
  by (simp add: parse_format_rfc3339 rfc3339_def)

lemma format_rounded: "format_rfc3339 (rfc3339 t) = format_rfc3339 t"
  by (simp add: format_rfc3339_def format_date_def rfc3339_div)

text \<open>Sorting by two keys that order the elements alike.\<close>

lemma insort_key_map:
  "(\<And>y. y \<in> set xs \<Longrightarrow> k x \<le> k y \<longleftrightarrow> j (f x) \<le> j (f y)) \<Longrightarrow> map f (insort_key k x xs) = insort_key j (f x) (map f xs)"
  by (induction xs) auto

lemma sort_key_map:
  "(\<And>x y. \<lbrakk>x \<in> set xs; y \<in> set xs\<rbrakk> \<Longrightarrow> k x \<le> k y \<longleftrightarrow> j (f x) \<le> j (f y)) \<Longrightarrow> map f (sort_key k xs) = sort_key j (map f xs)"
proof (induction xs)
  case (Cons a xs)
  have "map f (insort_key k a (sort_key k xs)) = insort_key j (f a) (map f (sort_key k xs))"
    by (rule insort_key_map) (simp add: Cons.prems)
  also have "map f (sort_key k xs) = sort_key j (map f xs)" by (rule Cons.IH) (simp add: Cons.prems)
  finally show ?case by simp
qed simp

lemma filter_map_cong:
  "(\<And>x. x \<in> set xs \<Longrightarrow> P (f x) \<longleftrightarrow> Q x) \<Longrightarrow> filter P (map f xs) = map f (filter Q xs)"
  by (induction xs) auto

text \<open>The rows as the other model has them.\<close>

definition stored_launch :: "time \<times> launch_row \<Rightarrow> launch_row" where
  "stored_launch = (\<lambda>(ts, r). r\<lparr>lr_created_at := rfc3339 ts\<rparr>)"

definition stored_event :: "time \<times> wallet_event \<Rightarrow> wallet_event" where
  "stored_event = (\<lambda>(ts, e). e\<lparr>we_chain_time := rfc3339 ts\<rparr>)"

definition written_ok :: "(time \<times> 'r) list \<Rightarrow> bool" where
  "written_ok rows \<longleftrightarrow> (\<forall>x\<in>set rows. four_digit_year (fst x))"

lemma written_text_order:
  assumes "written_ok rows" and "x \<in> set rows" and "y \<in> set rows"
  shows "format_rfc3339 (fst x) \<le> format_rfc3339 (fst y) \<longleftrightarrow> rfc3339 (fst x) \<le> rfc3339 (fst y)"
  using assms by (simp add: written_ok_def text_order)

lemma write_simps [simp]:
  "fst (write_launch x) = format_rfc3339 (fst x)" "snd (write_launch x) = (snd x)\<lparr>lr_created_at := 0\<rparr>"
  "fst (write_event y) = format_rfc3339 (fst y)" "snd (write_event y) = (snd y)\<lparr>we_chain_time := 0\<rparr>"
  "stored_launch x = (snd x)\<lparr>lr_created_at := rfc3339 (fst x)\<rparr>" "stored_event y = (snd y)\<lparr>we_chain_time := rfc3339 (fst y)\<rparr>"
  by (simp_all add: write_launch_def write_event_def stored_launch_def stored_event_def split: prod.splits)

text \<open>An inserted launch is a row of this form, and so is an inserted event.\<close>

lemma inserted_rows:
  "\<exists>r. launch_row_of v token pair eoa contract = stored_launch (fst (lv_created v), r)"
  "event_row e = stored_event (we_chain_time e, e\<lparr>we_ingested_at := rfc3339 (we_ingested_at e)\<rparr>)"
  by (auto simp: launch_row_of_def event_row_def split: prod.splits intro!: exI [of _ "launch_row_of v token pair eoa contract"])

section \<open>Pages\<close>

definition sorted_launches :: "(time \<times> launch_row) list \<Rightarrow> (time \<times> launch_row) list" where
  "sorted_launches rows = rev (sort_key (\<lambda>x. rfc3339 (fst x)) (sort_key (\<lambda>x. to_lower (lr_token (snd x))) rows))"

lemma sorted_launches_text:
  assumes "written_ok rows"
  shows "rev (sort_key fst (sort_key (\<lambda>(_, r). to_lower (lr_token r)) (map write_launch rows))) = map write_launch (sorted_launches rows)"
proof -
  have a: "sort_key (\<lambda>(_, r). to_lower (lr_token r)) (map write_launch rows) =
      map write_launch (sort_key (\<lambda>x. to_lower (lr_token (snd x))) rows)"
    by (intro sort_key_map [symmetric]) (simp add: case_prod_beta)
  have b: "sort_key fst (map write_launch xs) = map write_launch (sort_key (\<lambda>x. rfc3339 (fst x)) xs)"
    if "set xs = set rows" for xs
    by (intro sort_key_map [symmetric]) (use that written_text_order [OF assms] in auto)
  show ?thesis unfolding a by (subst b) (simp_all add: sorted_launches_def rev_map)
qed

lemma sorted_launches_stored:
  "rev (sort_key lr_created_at (sort_key (\<lambda>r. to_lower (lr_token r)) (map stored_launch rows))) = map stored_launch (sorted_launches rows)"
proof -
  have a: "sort_key (\<lambda>r. to_lower (lr_token r)) (map stored_launch rows) =
      map stored_launch (sort_key (\<lambda>x. to_lower (lr_token (snd x))) rows)"
    by (intro sort_key_map [symmetric]) simp
  have b: "sort_key lr_created_at (map stored_launch xs) = map stored_launch (sort_key (\<lambda>x. rfc3339 (fst x)) xs)" for xs
    by (intro sort_key_map [symmetric]) simp
  show ?thesis unfolding a b by (simp add: sorted_launches_def rev_map)
qed

lemma filter_sorted_launches: "filter P (sorted_launches rows) = sorted_launches (filter P rows)"
  by (simp add: sorted_launches_def rev_filter [symmetric] filter_sort)

lemma scan_written: "written_ok rows \<Longrightarrow> mapE scan_launch (map write_launch rows) = Inr (map stored_launch rows)"
  by (induction rows) (auto simp: written_ok_def scan_launch_def parse_written case_prod_beta)

lemma launches_page_text:
  assumes "written_ok rows" and "db_index d = map stored_launch rows" and "four_digit_year cursor"
  shows "list_launches_text E category (format_rfc3339 cursor) token limit (map write_launch rows) =
      list_launches E category (Some (rfc3339 cursor, token)) limit d" (is ?after)
    and "list_launches_text E category [] token limit (map write_launch rows) = list_launches E category None limit d" (is ?first)
proof -
  let ?cat = "\<lambda>x. category \<noteq> [] \<longrightarrow> lr_category (snd x) = category"
  have t: "mapE scan_launch (take n (rev (sort_key fst (sort_key (\<lambda>(_, r). to_lower (lr_token r))
      (filter P (map write_launch rows)))))) = Inr (map stored_launch (take n (sorted_launches (filter Q rows))))"
    if "\<And>x. x \<in> set rows \<Longrightarrow> P (write_launch x) \<longleftrightarrow> Q x" for P Q n
  proof -
    have w: "written_ok (filter Q rows)" "written_ok (take n (sorted_launches (filter Q rows)))"
      using assms(1) set_take_subset [of n "sorted_launches (filter Q rows)"]
      by (auto simp: written_ok_def sorted_launches_def)
    show ?thesis
      using filter_map_cong [where P = P and f = write_launch and Q = Q, OF that] sorted_launches_text [OF w(1)] scan_written [OF w(2)]
      by (simp add: take_map)
  qed
  have desc: "launches_desc category d = map stored_launch (sorted_launches (filter ?cat rows))"
  proof -
    have "filter (\<lambda>r. category \<noteq> [] \<longrightarrow> lr_category r = category) (map stored_launch rows) = map stored_launch (filter ?cat rows)"
      by (intro filter_map_cong) simp
    then show ?thesis by (simp add: launches_desc_def assms(2) sorted_launches_stored)
  qed
  have n: "format_rfc3339 cursor \<noteq> []" by (simp add: format_rfc3339_def Let_def)
  show ?first
    using t [of "\<lambda>x. ?cat x \<and> True" ?cat "nat limit"]
    by (simp add: list_launches_text_def list_launches_def desc take_map)
  have c: "mapE scan_launch (take k (rev (sort_key fst (sort_key (\<lambda>(_, r). to_lower (lr_token r)) (filter (\<lambda>x. ?cat x \<and>
        (case x of (created, r) \<Rightarrow> created < format_rfc3339 cursor \<or>
          created = format_rfc3339 cursor \<and> to_lower (lr_token r) < to_lower u)) (map write_launch rows)))))) =
      Inr (take k (filter (after_cursor (rfc3339 cursor, u)) (launches_desc category d)))" for u k
  proof -
    let ?after = "\<lambda>x. after_cursor (rfc3339 cursor, u) (stored_launch x)"
    have e: "(case write_launch x of (created, r) \<Rightarrow> created < format_rfc3339 cursor \<or>
        created = format_rfc3339 cursor \<and> to_lower (lr_token r) < to_lower u) \<longleftrightarrow> ?after x" if "x \<in> set rows" for x
      using that assms(1,3) text_order [of "fst x" cursor] by (simp add: written_ok_def after_cursor_def case_prod_beta)
    have f: "filter (after_cursor (rfc3339 cursor, u)) (map stored_launch (sorted_launches (filter ?cat rows))) =
        map stored_launch (sorted_launches (filter (\<lambda>x. ?cat x \<and> ?after x) rows))"
      by (simp add: filter_map filter_sorted_launches comp_def conj_commute)
    show ?thesis
      unfolding desc f by (subst t [of _ "\<lambda>x. ?cat x \<and> ?after x"]) (simp_all add: e take_map del: write_simps(5))
  qed
  show ?after
    unfolding list_launches_text_def list_launches_def using n
    by (cases "normalize_address E token") (simp_all add: c)
qed

section \<open>The purge and the first hour\<close>

lemma purge_batch_on_text:
  assumes "written_ok evs" and "db_events d = map stored_event evs" and "four_digit_year cutoff"
  shows "\<exists>rest k more. purge_batch cutoff n deleted m d = Inr (d\<lparr>db_events := map stored_event rest\<rparr>, k, more) \<and>
    purge_batch_text (format_rfc3339 cutoff) n deleted m (map write_event evs) = (map write_event rest, k, more)"
proof -
  define old where "old = filter (\<lambda>x. rfc3339 (fst x) < rfc3339 cutoff) evs"
  define gone where "gone = take n (sort_key (\<lambda>x. rfc3339 (fst x)) (sort_key (\<lambda>x. we_id (snd x)) old))"
  define rest where "rest = filter (\<lambda>x. we_id (snd x) \<notin> (\<lambda>x. we_id (snd x)) ` set gone) evs"
  have cut: "format_rfc3339 (fst x) < format_rfc3339 cutoff \<longleftrightarrow> rfc3339 (fst x) < rfc3339 cutoff" if "x \<in> set evs" for x
    using that assms(1,3) by (simp add: written_ok_def text_order)
  have w: "written_ok old" using assms(1) by (simp add: old_def written_ok_def)
  have stored: "doomed cutoff n d = map stored_event gone"
  proof -
    have "filter (expired cutoff) (map stored_event evs) = map stored_event old"
      unfolding old_def by (intro filter_map_cong) (simp add: expired_def)
    moreover have "sort_key we_id (map stored_event xs) = map stored_event (sort_key (\<lambda>x. we_id (snd x)) xs)" for xs
      by (intro sort_key_map [symmetric]) simp
    moreover have "sort_key we_chain_time (map stored_event xs) = map stored_event (sort_key (\<lambda>x. rfc3339 (fst x)) xs)" for xs
      by (intro sort_key_map [symmetric]) simp
    ultimately show ?thesis by (simp add: doomed_def assms(2) gone_def take_map)
  qed
  have on_text: "take n (sort_key fst (sort_key (\<lambda>x. we_id (snd x)) (filter (\<lambda>x. fst x < format_rfc3339 cutoff) (map write_event evs)))) =
      map write_event gone"
  proof -
    have "filter (\<lambda>x. fst x < format_rfc3339 cutoff) (map write_event evs) = map write_event old"
      unfolding old_def by (intro filter_map_cong) (simp add: cut)
    moreover have "sort_key (\<lambda>x. we_id (snd x)) (map write_event xs) = map write_event (sort_key (\<lambda>x. we_id (snd x)) xs)" for xs
      by (intro sort_key_map [symmetric]) simp
    moreover have "sort_key fst (map write_event xs) = map write_event (sort_key (\<lambda>x. rfc3339 (fst x)) xs)"
      if "set xs = set old" for xs
      by (intro sort_key_map [symmetric]) (use that written_text_order [OF w] in auto)
    ultimately show ?thesis by (simp add: gone_def take_map)
  qed
  have r: "filter (\<lambda>e. we_id e \<notin> we_id ` set (map stored_event gone)) (map stored_event evs) = map stored_event rest"
    "filter (\<lambda>x. we_id (snd x) \<notin> (\<lambda>x. we_id (snd x)) ` set (map write_event gone)) (map write_event evs) = map write_event rest"
    unfolding rest_def by (intro filter_map_cong; simp add: image_image)+
  have m: "(\<exists>e\<in>set (map stored_event rest). expired cutoff e) \<longleftrightarrow> (\<exists>x\<in>set (map write_event rest). fst x < format_rfc3339 cutoff)"
    using cut by (auto simp: rest_def expired_def)
  show ?thesis
    unfolding purge_batch_def purge_batch_text_def stored on_text assms(2) r Let_def m by auto
qed

lemma early_buyers_on_text:
  assumes "written_ok evs" and "db_events d = map stored_event evs" and "four_digit_year (fst x)"
    and "four_digit_year (fst x + 3600 * second)"
  shows "early_buyers_text (map write_event evs) (write_launch x) = early_buyers d (stored_launch x)"
proof -
  have "(fst x + 3600 * second) div second = 3600 + fst x div second"
    by (rule div_mult_self1) (simp add: second_def)
  then have h: "rfc3339 (fst x + 3600 * second) = rfc3339 (fst x) + 3600 * second"
    by (simp only: rfc3339_def) (simp add: algebra_simps)
  have f: "four_digit_year (rfc3339 (fst x) + 3600 * second)"
    using assms(4) by (simp add: h [symmetric] four_digit_year_def rfc3339_div)
  have r: "rfc3339 (rfc3339 (fst x) + 3600 * second) = rfc3339 (fst x) + 3600 * second"
    by (simp add: rfc3339_def second_def)
  have c: "format_rfc3339 (fst x) \<le> format_rfc3339 (fst y) \<longleftrightarrow> rfc3339 (fst x) \<le> rfc3339 (fst y)"
    "format_rfc3339 (fst y) \<le> format_rfc3339 (rfc3339 (fst x) + 3600 * second) \<longleftrightarrow> rfc3339 (fst y) \<le> rfc3339 (fst x) + 3600 * second"
    if "y \<in> set evs" for y
    using that assms(1,3) f text_order(2) [of "fst y" "rfc3339 (fst x) + 3600 * second"] by (simp_all add: written_ok_def text_order(2) r)
  define Q where "Q = (\<lambda>y :: time \<times> wallet_event. equal_fold (we_token (snd y)) (lr_token (snd x)) \<and> we_kind (snd y) = ''buy'' \<and>
    rfc3339 (fst x) \<le> rfc3339 (fst y) \<and> rfc3339 (fst y) \<le> rfc3339 (fst x) + 3600 * second)"
  have a: "filter (\<lambda>(at_text, e). equal_fold (we_token e) (lr_token (snd x)) \<and> we_kind e = ''buy'' \<and>
      format_rfc3339 (fst x) \<le> at_text \<and> at_text \<le> format_rfc3339 (rfc3339 (fst x) + 3600 * second)) (map write_event evs) =
      map write_event (filter Q evs)"
    by (intro filter_map_cong) (simp add: Q_def case_prod_beta c)
  have b: "filter (\<lambda>e. equal_fold (we_token e) (lr_token (stored_launch x)) \<and> we_kind e = ''buy'' \<and>
      lr_created_at (stored_launch x) \<le> we_chain_time e \<and> we_chain_time e \<le> lr_created_at (stored_launch x) + 3600 * second)
      (map stored_event evs) = map stored_event (filter Q evs)"
    by (intro filter_map_cong) (simp add: Q_def)
  have "early_buyers_text (map write_event evs) (write_launch x) = remdups (map (\<lambda>y. to_lower (we_wallet (snd y))) (filter Q evs))"
    using a by (simp add: early_buyers_text_def case_prod_beta parse_written [OF assms(3)] comp_def)
  moreover have "early_buyers d (stored_launch x) = remdups (map (\<lambda>y. to_lower (we_wallet (snd y))) (filter Q evs))"
    unfolding early_buyers_def assms(2) b by (simp add: comp_def)
  ultimately show ?thesis by simp
qed

section \<open>Properties\<close>

text \<open>C17. The statements that compare the text columns of times do with the texts what they should do with
  the times. For rows written with times of four-digit years, rounded to the second by the writing:
  a page of launches, behind a cursor or from the start, has the launches of the page that the times give, in the same
  order and with the times read back; a batch of the purge deletes the same events, counts the same and leaves the same
  answer to the query for more; and the buyers of the first hour of a launch are the same.\<close>

theorem statements_on_texts_agree:
  assumes "written_ok rows" and "db_index d = map stored_launch rows"
    and "written_ok evs" and "db_events d = map stored_event evs" and "four_digit_year t"
  shows "list_launches_text E category (format_rfc3339 t) token limit (map write_launch rows) =
      list_launches E category (Some (rfc3339 t, token)) limit d \<and>
    list_launches_text E category [] token limit (map write_launch rows) = list_launches E category None limit d \<and>
    (\<exists>rest k more. purge_batch t n deleted m d = Inr (d\<lparr>db_events := map stored_event rest\<rparr>, k, more) \<and>
       purge_batch_text (format_rfc3339 t) n deleted m (map write_event evs) = (map write_event rest, k, more)) \<and>
    (\<forall>x\<in>set rows. four_digit_year (fst x + 3600 * second) \<longrightarrow>
       early_buyers_text (map write_event evs) (write_launch x) = early_buyers d (stored_launch x))"
proof (intro conjI ballI impI)
  show "early_buyers_text (map write_event evs) (write_launch x) = early_buyers d (stored_launch x)"
    if "x \<in> set rows" "four_digit_year (fst x + 3600 * second)" for x
    using early_buyers_on_text [OF assms(3,4) _ that(2)] assms(1) that(1) by (simp add: written_ok_def)
qed (rule launches_page_text [OF assms(1,2,5)] purge_batch_on_text [OF assms(3,4,5)])+

text \<open>Two launches within one second, written with their nanoseconds: the page behind the later token.\<close>

definition ex_written :: "(time \<times> launch_row) list" where
  "ex_written = (let r = launch_row_of (pons_view (ex_launch [])) in
     [(1700000000 * second + 900, r (address_text (ex_bytes 2)) [] [] []), (1700000000 * second + 5, r (address_text (ex_bytes 1)) [] [] [])])"

definition ex_written_db :: db where
  "ex_written_db = empty_db\<lparr>db_index := map stored_launch ex_written\<rparr>"

theorem statements_on_texts_agree_witness:
  "\<exists>r. list_launches_text eth_plain [] (format_rfc3339 (1700000000 * second)) (address_text (ex_bytes 2)) 50 (map write_launch ex_written) = Inr [r] \<and>
     lr_token r = address_text (ex_bytes 1) \<and> lr_created_at r = 1700000000 * second"
proof -
  have w: "written_ok ex_written" "db_index ex_written_db = map stored_launch ex_written" "written_ok []"
    "db_events ex_written_db = map stored_event []" "four_digit_year (1700000000 * second)"
    by (simp_all add: written_ok_def ex_written_def ex_written_db_def Let_def four_digit_year_def second_def empty_db_def)
  have "case list_launches eth_plain [] (Some (rfc3339 (1700000000 * second), address_text (ex_bytes 2))) 50 ex_written_db of
      Inr [r] \<Rightarrow> lr_token r = address_text (ex_bytes 1) \<and> lr_created_at r = 1700000000 * second | _ \<Rightarrow> False"
    by code_simp
  with statements_on_texts_agree [OF w, of eth_plain "[]" "address_text (ex_bytes 2)" 50] show ?thesis
    by (auto split: sum.splits list.splits)
qed

end
