(* ===== verification/Store_Writer.thy ===== *)
theory Store_Writer
  imports Store_Db
begin

text \<open>
  The write queue of \<open>internal/store/writer.go\<close>: callers of \<open>Write\<close>, \<open>Close\<close> and the one goroutine \<open>run\<close>, as a
  state machine. An action is an atomic step of one of them, and a run is any interleaving of actions. The
  statements of a request are a function on the contents of the database, in a transaction (\<open>write_tx\<close>).
\<close>

section \<open>State and actions\<close>

record 'd request =
  rq_id :: nat
  rq_fn :: "'d \<Rightarrow> ('d \<times> unit) res"

text \<open>
  Requests are numbered as they enter the queue. \<open>wr_done\<close> holds the results in the channels \<open>done\<close>,
  \<open>wr_returned\<close> what the calls of \<open>Write\<close> have returned, and \<open>wr_cancelled\<close> the calls whose context has ended.
\<close>

record 'd writer =
  wr_db :: 'd
  wr_queue :: "'d request list"
  wr_next :: nat
  wr_done :: "(nat \<times> unit res) list"
  wr_returned :: "(nat \<times> unit res) list"
  wr_cancelled :: "nat list"
  wr_closed :: bool
  wr_stopped :: bool

definition queue_capacity :: nat where "queue_capacity = 256"

definition new_writer :: "'d \<Rightarrow> 'd writer" where
  "new_writer d = \<lparr>wr_db = d, wr_queue = [], wr_next = 0, wr_done = [], wr_returned = [], wr_cancelled = [],
     wr_closed = False, wr_stopped = False\<rparr>"

datatype 'd action =
    Send "'d \<Rightarrow> ('d \<times> unit) res"   \<comment> \<open>\<open>Write\<close> puts its request into the queue\<close>
  | Refuse                          \<comment> \<open>\<open>Write\<close> finds the queue closed\<close>
  | Give_up                         \<comment> \<open>the context of \<open>Write\<close> ends before there is room\<close>
  | Cancel nat                      \<comment> \<open>the context of a call ends\<close>
  | Run "err option"                \<comment> \<open>the goroutine takes the next request\<close>
  | Answer nat                      \<comment> \<open>a call returns the result of its request\<close>
  | Abandon nat                     \<comment> \<open>a call returns the error of its context\<close>
  | Close
  | Stop                            \<comment> \<open>the goroutine leaves its loop\<close>

text \<open>What the goroutine does with a request: nothing when its context has ended, else one transaction.\<close>

definition effective_fault :: "'d writer \<Rightarrow> 'd request \<Rightarrow> err option \<Rightarrow> err option" where
  "effective_fault w r fault = (if rq_id r \<in> set (wr_cancelled w) then Some E_cancelled else fault)"

definition run_next :: "err option \<Rightarrow> 'd writer \<Rightarrow> 'd writer option" where
  "run_next fault w =
     (case wr_queue w of
        [] \<Rightarrow> None
      | r # rest \<Rightarrow>
          (case write_tx (effective_fault w r fault) (rq_fn r) (wr_db w) of
             (d, x) \<Rightarrow> Some (w\<lparr>wr_db := d, wr_queue := rest, wr_done := (rq_id r, x) # wr_done w\<rparr>)))"

text \<open>The value is \<open>None\<close> when the step is not enabled, that is, when its party waits.\<close>

fun writer_step :: "'d action \<Rightarrow> 'd writer \<Rightarrow> 'd writer option" where
  "writer_step (Send f) w =
     (if wr_closed w \<or> queue_capacity \<le> length (wr_queue w) then None
      else Some (w\<lparr>wr_queue := wr_queue w @ [\<lparr>rq_id = wr_next w, rq_fn = f\<rparr>], wr_next := wr_next w + 1\<rparr>))"
| "writer_step Refuse w = (if wr_closed w then Some w else None)"
| "writer_step Give_up w = (if wr_closed w then None else Some w)"
| "writer_step (Cancel i) w = Some (w\<lparr>wr_cancelled := i # wr_cancelled w\<rparr>)"
| "writer_step (Run fault) w = (if wr_stopped w then None else run_next fault w)"
| "writer_step (Answer i) w =
     (case map_of (wr_done w) i of
        None \<Rightarrow> None
      | Some x \<Rightarrow> if map_of (wr_returned w) i \<noteq> None then None else Some (w\<lparr>wr_returned := (i, x) # wr_returned w\<rparr>))"
| "writer_step (Abandon i) w =
     (if i < wr_next w \<and> i \<in> set (wr_cancelled w) \<and> map_of (wr_returned w) i = None
      then Some (w\<lparr>wr_returned := (i, Inl E_cancelled) # wr_returned w\<rparr>) else None)"
| "writer_step Close w = (if wr_closed w then None else Some (w\<lparr>wr_closed := True\<rparr>))"
| "writer_step Stop w = (if wr_closed w \<and> wr_queue w = [] \<and> \<not> wr_stopped w then Some (w\<lparr>wr_stopped := True\<rparr>) else None)"

fun writer_run :: "'d action list \<Rightarrow> 'd writer \<Rightarrow> 'd writer option" where
  "writer_run [] w = Some w"
| "writer_run (a # as) w = Option.bind (writer_step a w) (writer_run as)"

lemma writer_run_append: "writer_run (as @ bs) w = Option.bind (writer_run as w) (writer_run bs)"
  by (induction as arbitrary: w) (auto split: Option.bind_splits)

section \<open>The history of a run\<close>

text \<open>The requests that were run, in order, each with the fault it met.\<close>

definition executed_by :: "'d action \<Rightarrow> 'd writer \<Rightarrow> ('d request \<times> err option) list" where
  "executed_by a w = (case a of Run fault \<Rightarrow> (case wr_queue w of [] \<Rightarrow> [] | r # _ \<Rightarrow> [(r, effective_fault w r fault)]) | _ \<Rightarrow> [])"

fun executed :: "'d action list \<Rightarrow> 'd writer \<Rightarrow> ('d request \<times> err option) list" where
  "executed [] w = []"
| "executed (a # as) w = (case writer_step a w of None \<Rightarrow> [] | Some w1 \<Rightarrow> executed_by a w @ executed as w1)"

text \<open>The same transactions one after the other: the contents after them, and their results.\<close>

fun serial :: "('d request \<times> err option) list \<Rightarrow> 'd \<Rightarrow> 'd \<times> (nat \<times> unit res) list" where
  "serial [] d = (d, [])"
| "serial ((r, fault) # h) d =
     (case write_tx fault (rq_fn r) d of (d1, x) \<Rightarrow> (case serial h d1 of (d2, out) \<Rightarrow> (d2, (rq_id r, x) # out)))"

lemma serial_snoc:
  "serial h d = (d1, out) \<Longrightarrow> serial (h @ [(r, fault)]) d =
    (fst (write_tx fault (rq_fn r) d1), out @ [(rq_id r, snd (write_tx fault (rq_fn r) d1))])"
  by (induction h arbitrary: d out) (auto split: prod.splits)

lemma serial_ids: "serial h d = (d1, out) \<Longrightarrow> map fst out = map (\<lambda>(r, _). rq_id r) h"
  by (induction h arbitrary: d out) (auto split: prod.splits)

text \<open>What holds of a state after a history.\<close>

definition accounts :: "'d \<Rightarrow> ('d request \<times> err option) list \<Rightarrow> 'd writer \<Rightarrow> bool" where
  "accounts d0 h w \<longleftrightarrow>
     map (\<lambda>(r, _). rq_id r) h @ map rq_id (wr_queue w) = [0..<wr_next w] \<and>
     serial h d0 = (wr_db w, rev (wr_done w)) \<and>
     (\<forall>i x. map_of (wr_returned w) i = Some x \<longrightarrow>
        (i, x) \<in> set (wr_done w) \<or> x = Inl E_cancelled \<and> i \<in> set (wr_cancelled w) \<and> i < wr_next w) \<and>
     length (wr_queue w) \<le> queue_capacity \<and> (wr_stopped w \<longrightarrow> wr_closed w \<and> wr_queue w = [])"

lemma accounts_new: "accounts d [] (new_writer d)"
  by (simp add: accounts_def new_writer_def)

lemma accounts_step:
  assumes "accounts d0 h w" and "writer_step a w = Some w1"
  shows "accounts d0 (h @ executed_by a w) w1"
proof (cases a)
  case (Run fault)
  with assms(2) obtain r rest where q: "wr_queue w = r # rest" and live: "\<not> wr_stopped w"
    by (auto simp: run_next_def split: list.splits if_splits)
  obtain d x where t: "write_tx (effective_fault w r fault) (rq_fn r) (wr_db w) = (d, x)"
    by (cases "write_tx (effective_fault w r fault) (rq_fn r) (wr_db w)")
  have w1: "w1 = w\<lparr>wr_db := d, wr_queue := rest, wr_done := (rq_id r, x) # wr_done w\<rparr>"
    using assms(2) Run q live t by (simp add: run_next_def)
  have "serial h d0 = (wr_db w, rev (wr_done w))" using assms(1) by (simp add: accounts_def)
  from serial_snoc [OF this, of r "effective_fault w r fault"] show ?thesis
    using assms(1) live q t Run by (auto simp: accounts_def w1 executed_by_def)
next
  case (Answer i)
  with assms(2) obtain x where x: "map_of (wr_done w) i = Some x" "w1 = w\<lparr>wr_returned := (i, x) # wr_returned w\<rparr>"
    by (auto split: option.splits if_splits)
  have "(i, x) \<in> set (wr_done w)" using x(1) by (rule map_of_SomeD)
  then show ?thesis using assms(1) by (simp add: accounts_def executed_by_def Answer x(2))
next
  case (Send f)
  with assms(2) have w1: "w1 = w\<lparr>wr_queue := wr_queue w @ [\<lparr>rq_id = wr_next w, rq_fn = f\<rparr>], wr_next := wr_next w + 1\<rparr>"
    and "\<not> wr_closed w" "length (wr_queue w) < queue_capacity" by (simp_all split: if_splits)
  moreover have "\<not> wr_stopped w" using assms(1) \<open>\<not> wr_closed w\<close> by (simp add: accounts_def)
  moreover have "map (\<lambda>(r, _). rq_id r) h @ map rq_id (wr_queue w) @ [wr_next w] = [0..<Suc (wr_next w)]"
    using assms(1) by (simp add: accounts_def append_assoc [symmetric])
  ultimately show ?thesis using assms(1) unfolding w1 by (simp add: accounts_def executed_by_def Send) fastforce
next
  case (Abandon i)
  with assms(2) have w1: "w1 = w\<lparr>wr_returned := (i, Inl E_cancelled) # wr_returned w\<rparr>"
    and "i < wr_next w" "i \<in> set (wr_cancelled w)" by (simp_all split: if_splits)
  then show ?thesis using assms(1) by (simp add: accounts_def executed_by_def Abandon)
next
  case (Cancel i)
  with assms(2) have w1: "w1 = w\<lparr>wr_cancelled := i # wr_cancelled w\<rparr>" by simp
  show ?thesis using assms(1) unfolding w1 accounts_def executed_by_def Cancel by simp blast
next
  case Refuse
  with assms show ?thesis by (simp add: executed_by_def split: if_splits)
next
  case Give_up
  with assms show ?thesis by (simp add: executed_by_def split: if_splits)
next
  case Close
  with assms(2) have "w1 = w\<lparr>wr_closed := True\<rparr>" and "wr_closed w = False"
    by (simp_all split: if_splits)
  with assms(1) show ?thesis by (simp add: accounts_def executed_by_def Close)
next
  case Stop
  with assms(2) have "w1 = w\<lparr>wr_stopped := True\<rparr>" and "wr_closed w" "wr_queue w = []"
    by (simp_all split: if_splits)
  with assms(1) show ?thesis by (simp add: accounts_def executed_by_def Stop)
qed

lemma accounts_run: "accounts d0 h w \<Longrightarrow> writer_run as w = Some w1 \<Longrightarrow> accounts d0 (h @ executed as w) w1"
proof (induction as arbitrary: h w)
  case (Cons a as)
  from Cons.prems(2) obtain w2 where s: "writer_step a w = Some w2" "writer_run as w2 = Some w1"
    by (auto split: Option.bind_splits)
  from Cons.IH [OF accounts_step [OF Cons.prems(1) s(1)] s(2)] s(1) show ?case by simp
qed simp

section \<open>Properties\<close>

text \<open>C8. However callers, cancellations and the goroutine interleave, the database holds what the transactions
  that were run give one after the other, in the order in which the requests entered the queue, each run at
  most once; and a call that returns success was committed, with one that returns another error than its own
  context's rolled back.\<close>

theorem writer_serializes_writes:
  assumes "writer_run as (new_writer d0) = Some w"
  shows "map (\<lambda>(r, _). rq_id r) (executed as (new_writer d0)) @ map rq_id (wr_queue w) = [0..<wr_next w] \<and>
    wr_db w = fst (serial (executed as (new_writer d0)) d0) \<and> length (wr_queue w) \<le> 256 \<and>
    (\<forall>i x. map_of (wr_returned w) i = Some x \<longrightarrow>
      (i, x) \<in> set (snd (serial (executed as (new_writer d0)) d0)) \<or> x = Inl E_cancelled \<and> i \<in> set (wr_cancelled w))"
  using accounts_run [OF accounts_new assms] by (auto simp: accounts_def queue_capacity_def)

definition ex_write :: "nat \<Rightarrow> nat list \<Rightarrow> (nat list \<times> unit) res" where
  "ex_write n d = Inr (d @ [n], ())"

text \<open>Two callers: the first is answered, the second gives up while its request is still run.\<close>

definition ex_actions :: "nat list action list" where
  "ex_actions = [Send (ex_write 1), Send (ex_write 2), Run None, Run None, Cancel 1, Answer 0, Abandon 1]"

definition ex_writer :: "nat list writer" where
  "ex_writer = the (writer_run ex_actions (new_writer []))"

lemma ex_writer_run: "writer_run ex_actions (new_writer []) = Some ex_writer"
  unfolding ex_writer_def by (simp add: ex_actions_def new_writer_def queue_capacity_def run_next_def effective_fault_def write_tx_def ex_write_def)

theorem writer_serializes_writes_witness:
  "wr_db ex_writer = [1, 2] \<and> length (wr_queue ex_writer) \<le> 256"
proof -
  have "fst (serial (executed ex_actions (new_writer [])) []) = [1, 2]" by code_simp
  with writer_serializes_writes [OF ex_writer_run] show ?thesis by simp
qed

text \<open>The second call returned an error, and yet its transaction is in the database.\<close>

lemma abandoned_write_is_committed:
  "map_of (wr_returned ex_writer) 1 = Some (Inl E_cancelled) \<and> 2 \<in> set (wr_db ex_writer)"
  by code_simp

section \<open>Closing\<close>

lemma drain_queue:
  "\<not> wr_stopped w \<Longrightarrow> \<exists>w1. writer_run (map Run faults) w = Some w1 \<and> wr_closed w1 = wr_closed w \<and> \<not> wr_stopped w1 \<and>
     wr_queue w1 = [] \<and> wr_next w1 = wr_next w"
  if "length faults = length (wr_queue w)" for w :: "'d writer"
  using that
proof (induction faults arbitrary: w)
  case (Cons fault faults)
  then obtain r rest where q: "wr_queue w = r # rest" by (cases "wr_queue w") auto
  obtain d x where "write_tx (effective_fault w r fault) (rq_fn r) (wr_db w) = (d, x)"
    by (cases "write_tx (effective_fault w r fault) (rq_fn r) (wr_db w)")
  then have s: "writer_step (Run fault) w = Some (w\<lparr>wr_db := d, wr_queue := rest, wr_done := (rq_id r, x) # wr_done w\<rparr>)"
    using Cons.prems(1) q by (simp add: run_next_def)
  let ?w1 = "w\<lparr>wr_db := d, wr_queue := rest, wr_done := (rq_id r, x) # wr_done w\<rparr>"
  from Cons.IH [of ?w1] Cons.prems q obtain w2 where "writer_run (map Run faults) ?w1 = Some w2 \<and> wr_closed w2 = wr_closed ?w1 \<and>
    \<not> wr_stopped w2 \<and> wr_queue w2 = [] \<and> wr_next w2 = wr_next ?w1" by auto
  then show ?case using s by simp
qed simp

text \<open>C13. Closing ends: from every state the queue can be closed and the goroutine alone brings it to a stop in
  one step per waiting request, whatever the transactions do; then every request that entered the queue was
  run and has its result, and no call can send another.\<close>

theorem closing_answers_every_request:
  assumes "writer_run as (new_writer d0) = Some w" and "\<not> wr_closed w" and "length faults = length (wr_queue w)"
  shows "\<exists>w1. writer_run (Close # map Run faults @ [Stop]) w = Some w1 \<and> wr_stopped w1 \<and> wr_next w1 = wr_next w \<and>
    (\<forall>i<wr_next w. map_of (wr_done w1) i \<noteq> None) \<and> (\<forall>f. writer_step (Send f) w1 = None)"
proof -
  have acc: "accounts d0 (executed as (new_writer d0)) w" using accounts_run [OF accounts_new assms(1)] by simp
  then have live: "\<not> wr_stopped w" using assms(2) by (simp add: accounts_def)
  let ?c = "w\<lparr>wr_closed := True\<rparr>"
  from drain_queue [of faults ?c] assms(3) live obtain w1 where d: "writer_run (map Run faults) ?c = Some w1" "wr_closed w1"
    "\<not> wr_stopped w1" "wr_queue w1 = []" "wr_next w1 = wr_next w" by auto
  let ?s = "w1\<lparr>wr_stopped := True\<rparr>"
  have run: "writer_run (Close # map Run faults @ [Stop]) w = Some ?s"
    using d assms(2) by (simp add: writer_run_append)
  obtain h where "accounts d0 h ?s" using accounts_run [OF acc run] by blast
  then have a: "map (\<lambda>(r, _). rq_id r) h = [0..<wr_next w]" "serial h d0 = (wr_db ?s, rev (wr_done ?s))"
    using d by (simp_all add: accounts_def)
  from serial_ids [OF a(2)] a(1) have "set (map fst (wr_done ?s)) = {..<wr_next w}"
    by (metis atLeast_upt rev_map set_rev)
  then have "map_of (wr_done ?s) i \<noteq> None" if "i < wr_next w" for i
    using that by (auto simp: map_of_eq_None_iff)
  with run d show ?thesis by (intro exI [of _ ?s]) simp
qed

theorem closing_answers_every_request_witness:
  "\<exists>w1. writer_run (Close # map Run [] @ [Stop]) ex_writer = Some w1 \<and> wr_stopped w1 \<and> map_of (wr_done w1) 1 \<noteq> None"
proof -
  have "\<not> wr_closed ex_writer" "wr_queue ex_writer = []" "wr_next ex_writer = 2" by code_simp+
  with closing_answers_every_request [OF ex_writer_run, of "[]"] show ?thesis by auto
qed

end
