(* ===== verification/Store_Migrate.thy ===== *)
theory Store_Migrate
  imports Store_Db "HOL-Library.List_Lexorder" "HOL-Library.Char_ord"
begin

text \<open>
  \<open>internal/store/migrate.go\<close>: the migrations of a directory, in the order of their names, each once, in one
  transaction. What a script does to the contents of the database is the parameter \<open>mi_exec\<close>, and the
  directory, its files and the checksum are parameters too.
\<close>

record applied_migration =
  am_name :: string
  am_checksum :: string
  am_applied_at :: time

record 's migrated =
  mg_contents :: 's
  mg_applied :: "applied_migration list"

record 's migration_env =
  mi_entries :: "(string \<times> bool) list"     \<comment> \<open>name, and whether it is a directory\<close>
  mi_read :: "string \<Rightarrow> string res"
  mi_sum :: "string \<Rightarrow> string"
  mi_exec :: "string \<Rightarrow> 's \<Rightarrow> 's res"
  mi_now :: time

definition has_suffix :: "string \<Rightarrow> string \<Rightarrow> bool" where
  "has_suffix s ending \<longleftrightarrow> has_prefix (rev s) (rev ending)"

definition migration_files :: "'s migration_env \<Rightarrow> string list" where
  "migration_files ev = sort (map fst (filter (\<lambda>(name, is_dir). \<not> is_dir \<and> has_suffix name ''.sql'') (mi_entries ev)))"

definition checksum_of :: "'s migrated \<Rightarrow> string \<Rightarrow> string option" where
  "checksum_of m name = map_option am_checksum (find (\<lambda>r. am_name r = name) (mg_applied m))"

definition apply_migration :: "'s migration_env \<Rightarrow> string \<Rightarrow> 's migrated \<Rightarrow> 's migrated res" where
  "apply_migration ev name m =
     bindE (mi_read ev name) (\<lambda>body.
     (case checksum_of m name of
        Some existing \<Rightarrow> guardE (existing \<noteq> mi_sum ev body) (E_migration name) (Inr m)
      | None \<Rightarrow>
          bindE (mi_exec ev body (mg_contents m)) (\<lambda>contents.
            Inr \<lparr>mg_contents = contents, mg_applied = mg_applied m @
              [\<lparr>am_name = name, am_checksum = mi_sum ev body, am_applied_at = rfc3339 (mi_now ev)\<rparr>]\<rparr>)))"

definition migrate :: "'s migration_env \<Rightarrow> err option \<Rightarrow> 's migrated \<Rightarrow> 's migrated \<times> unit res" where
  "migrate ev fault = write_tx fault (\<lambda>m. bindE (foldE (apply_migration ev) (migration_files ev) m) (\<lambda>m1. Inr (m1, ())))"

section \<open>What is applied stays applied\<close>

lemma checksum_of_append:
  "checksum_of \<lparr>mg_contents = c, mg_applied = mg_applied m @ [r]\<rparr> name =
     (case checksum_of m name of None \<Rightarrow> if am_name r = name then Some (am_checksum r) else None | Some x \<Rightarrow> Some x)"
proof -
  have "find P (xs @ [r]) = (case find P xs of None \<Rightarrow> if P r then Some r else None | Some x \<Rightarrow> Some x)" for P and xs
    by (induction xs) auto
  then show ?thesis by (auto simp: checksum_of_def split: option.splits)
qed

lemma apply_migration_keeps:
  assumes "apply_migration ev name m = Inr m1"
  shows "checksum_of m n = Some x \<Longrightarrow> checksum_of m1 n = Some x"
    and "\<exists>body. mi_read ev name = Inr body \<and> checksum_of m1 name = Some (mi_sum ev body)"
  using assms by (auto simp: apply_migration_def checksum_of_append res_simps split: option.splits)

lemma apply_all_keeps:
  "foldE (apply_migration ev) names m = Inr m1 \<Longrightarrow>
   (\<forall>n x. checksum_of m n = Some x \<longrightarrow> checksum_of m1 n = Some x) \<and>
   (\<forall>n\<in>set names. \<exists>body. mi_read ev n = Inr body \<and> checksum_of m1 n = Some (mi_sum ev body))"
proof (induction names arbitrary: m)
  case (Cons name names)
  from Cons.prems obtain m2 where a: "apply_migration ev name m = Inr m2" "foldE (apply_migration ev) names m2 = Inr m1"
    by (auto simp: res_simps)
  note k = apply_migration_keeps [OF a(1)] and IH = Cons.IH [OF a(2)]
  from k(2) obtain body where "mi_read ev name = Inr body" "checksum_of m2 name = Some (mi_sum ev body)" by blast
  with IH k(1) show ?case by auto
qed simp

lemma apply_again:
  "\<forall>n\<in>set names. \<exists>body. mi_read ev n = Inr body \<and> checksum_of m n = Some (mi_sum ev body) \<Longrightarrow>
   foldE (apply_migration ev) names m = Inr m"
  by (induction names) (auto simp: apply_migration_def)

lemma foldE_append: "foldE f (xs @ ys) s = bindE (foldE f xs s) (foldE f ys)"
proof (induction xs arbitrary: s)
  case (Cons x xs)
  then show ?case by (cases "f x s") simp_all
qed simp

text \<open>Two runs that differ in their clocks alone.\<close>

definition same_migrated :: "'s migrated \<Rightarrow> 's migrated \<Rightarrow> bool" where
  "same_migrated m m' \<longleftrightarrow> mg_contents m = mg_contents m' \<and>
     map (\<lambda>r. (am_name r, am_checksum r)) (mg_applied m) = map (\<lambda>r. (am_name r, am_checksum r)) (mg_applied m')"

lemma same_checksum:
  fixes m m' :: "'s migrated"
  assumes "same_migrated m m'"
  shows "checksum_of m name = checksum_of m' name"
proof -
  have "map_option am_checksum (find (\<lambda>r. am_name r = name) xs) = map_of (map (\<lambda>r. (am_name r, am_checksum r)) xs) name" for xs
    by (induction xs) auto
  then have "checksum_of x name = map_of (map (\<lambda>r. (am_name r, am_checksum r)) (mg_applied x)) name" for x :: "'s migrated"
    by (simp add: checksum_of_def)
  with assms show ?thesis by (simp only: same_migrated_def)
qed

definition same_scripts :: "'s migration_env \<Rightarrow> 's migration_env \<Rightarrow> string list \<Rightarrow> bool" where
  "same_scripts ev ev' names \<longleftrightarrow> mi_sum ev = mi_sum ev' \<and> mi_exec ev = mi_exec ev' \<and> (\<forall>n\<in>set names. mi_read ev n = mi_read ev' n)"

lemma apply_all_same:
  "\<lbrakk>foldE (apply_migration ev) names m = Inr m1; same_migrated m m'; same_scripts ev ev' names\<rbrakk> \<Longrightarrow>
   \<exists>m1'. foldE (apply_migration ev') names m' = Inr m1' \<and> same_migrated m1 m1'"
proof (induction names arbitrary: m m')
  case (Cons name names)
  from Cons.prems(1) obtain m2 where a: "apply_migration ev name m = Inr m2" "foldE (apply_migration ev) names m2 = Inr m1"
    by (auto simp: res_simps)
  have r: "mi_read ev' name = mi_read ev name" "mi_sum ev' = mi_sum ev" "mi_exec ev' = mi_exec ev" "same_scripts ev ev' names"
    using Cons.prems(3) by (auto simp: same_scripts_def)
  have "\<exists>m2'. apply_migration ev' name m' = Inr m2' \<and> same_migrated m2 m2'"
    using a(1) Cons.prems(2) same_checksum [OF Cons.prems(2), of name]
    by (cases "checksum_of m' name") (auto simp: apply_migration_def r same_migrated_def res_simps)
  then obtain m2' where m2': "apply_migration ev' name m' = Inr m2'" "same_migrated m2 m2'" by blast
  from Cons.IH [OF a(2) m2'(2) r(4)] m2'(1) show ?case by auto
qed simp

section \<open>Properties\<close>

text \<open>C15. A database that was migrated, and later migrated again by a release with more scripts behind the old
  ones, is the database that the later release sets up at once; the second run does not touch what the first
  one did. Only the recorded times differ.\<close>

theorem upgrade_equals_fresh_install:
  assumes "migrate old None m0 = (m1, Inr ())" and "migrate new None m1 = (m2, Inr ())"
    and "migration_files new = migration_files old @ added" and "same_scripts old new (migration_files old)"
  shows "(\<exists>m. migrate new None m0 = (m, Inr ()) \<and> same_migrated m m2) \<and> (added = [] \<longrightarrow> m2 = m1)"
proof -
  have one: "foldE (apply_migration old) (migration_files old) m0 = Inr m1"
    using assms(1) by (auto simp: migrate_def write_tx_def res_simps split: sum.splits)
  have "foldE (apply_migration new) (migration_files old) m1 = Inr m1"
    using apply_all_keeps [OF one] assms(4) by (intro apply_again) (auto simp: same_scripts_def)
  moreover have two: "foldE (apply_migration new) (migration_files new) m1 = Inr m2"
    using assms(2) by (auto simp: migrate_def write_tx_def res_simps split: sum.splits)
  ultimately have new: "foldE (apply_migration new) added m1 = Inr m2" by (simp add: assms(3) foldE_append)
  then have again: "added = [] \<longrightarrow> m2 = m1" by auto
  have "same_migrated m0 m0" by (simp add: same_migrated_def)
  from apply_all_same [OF one this assms(4)] obtain m1' where m1': "foldE (apply_migration new) (migration_files old) m0 = Inr m1'"
    "same_migrated m1 m1'" by blast
  from apply_all_same [OF new m1'(2), of new] obtain m2' where m2': "foldE (apply_migration new) added m1' = Inr m2'" "same_migrated m2 m2'"
    by (auto simp: same_scripts_def)
  have "foldE (apply_migration new) (migration_files new) m0 = Inr m2'" using m1'(1) m2'(1) by (simp add: assms(3) foldE_append)
  then have "migrate new None m0 = (m2', Inr ())" by (simp add: migrate_def write_tx_def)
  moreover have "same_migrated m2' m2" using m2'(2) by (simp add: same_migrated_def)
  ultimately show ?thesis using again by blast
qed

text \<open>A script that was applied and then edited stops the migration, and nothing is changed.\<close>

theorem edited_migration_is_refused:
  assumes "name \<in> set (migration_files ev)" and "checksum_of m name = Some existing" and "mi_read ev name = Inr body"
    and "mi_sum ev body \<noteq> existing"
  shows "\<exists>e. migrate ev fault m = (m, Inl e)"
proof (cases "foldE (apply_migration ev) (migration_files ev) m")
  case (Inl e)
  then show ?thesis by (cases fault) (simp_all add: migrate_def write_tx_def)
next
  case (Inr m1)
  from apply_all_keeps [OF Inr] assms show ?thesis by auto
qed

section \<open>Witnesses\<close>

text \<open>Scripts that append a number to the contents; the checksum is the script itself.\<close>

definition ex_scripts :: "string list \<Rightarrow> time \<Rightarrow> string list migration_env" where
  "ex_scripts names now = \<lparr>mi_entries = map (\<lambda>n. (n, False)) names @ [(''x.sql'', True), (''README'', False)],
     mi_read = (\<lambda>n. Inr (''sql:'' @ n)), mi_sum = (\<lambda>s. s), mi_exec = (\<lambda>s c. Inr (c @ [s])), mi_now = now\<rparr>"

definition ex_unmigrated :: "string list migrated" where
  "ex_unmigrated = \<lparr>mg_contents = [], mg_applied = []\<rparr>"

theorem upgrade_equals_fresh_install_witness:
  "\<exists>m1 m2 m. migrate (ex_scripts [''1.sql''] 0) None ex_unmigrated = (m1, Inr ()) \<and>
     migrate (ex_scripts [''2.sql'', ''1.sql''] 7) None m1 = (m2, Inr ()) \<and>
     migrate (ex_scripts [''2.sql'', ''1.sql''] 7) None ex_unmigrated = (m, Inr ()) \<and> same_migrated m m2"
proof -
  let ?old = "ex_scripts [''1.sql''] 0" and ?new = "ex_scripts [''2.sql'', ''1.sql''] 7"
  have r: "snd (migrate ?old None ex_unmigrated) = Inr ()" "snd (migrate ?new None (fst (migrate ?old None ex_unmigrated))) = Inr ()"
    by code_simp+
  have f: "migration_files ?new = migration_files ?old @ [''2.sql'']" by code_simp
  have s: "same_scripts ?old ?new (migration_files ?old)" by (simp add: same_scripts_def ex_scripts_def)
  obtain m1 where m1: "migrate ?old None ex_unmigrated = (m1, Inr ())" using r(1) by (cases "migrate ?old None ex_unmigrated") auto
  obtain m2 where m2: "migrate ?new None m1 = (m2, Inr ())" using r(2) m1 by (cases "migrate ?new None m1") auto
  from upgrade_equals_fresh_install [OF m1 m2 f s] m1 m2 show ?thesis by blast
qed

theorem edited_migration_is_refused_witness:
  "\<exists>e. migrate (ex_scripts [''1.sql''] 0) None
      \<lparr>mg_contents = [], mg_applied = [\<lparr>am_name = ''1.sql'', am_checksum = ''other'', am_applied_at = 0\<rparr>]\<rparr> =
    (\<lparr>mg_contents = [], mg_applied = [\<lparr>am_name = ''1.sql'', am_checksum = ''other'', am_applied_at = 0\<rparr>]\<rparr>, Inl e)"
proof (rule edited_migration_is_refused)
  show "''1.sql'' \<in> set (migration_files (ex_scripts [''1.sql''] 0))" by code_simp
  show "checksum_of \<lparr>mg_contents = [], mg_applied = [\<lparr>am_name = ''1.sql'', am_checksum = ''other'', am_applied_at = 0\<rparr>]\<rparr>
      ''1.sql'' = Some ''other''" by code_simp
  show "mi_read (ex_scripts [''1.sql''] 0) ''1.sql'' = Inr ''sql:1.sql''"
    "mi_sum (ex_scripts [''1.sql''] 0) ''sql:1.sql'' \<noteq> ''other''" by code_simp+
qed

end
