(* ===== verification/Log_Render.thy ===== *)
theory Log_Render
  imports Go_Time
begin

text \<open>
  \<open>internal/logx/logx.go\<close>: the structured log lines. The fields of a line are a map from keys to values;
  a value is the text that \<open>fmt.Sprint\<close> gives, and \<open>visit\<close> is the order in which \<open>range\<close> goes through the map.
  The sink of a logger is the list of the lines it has printed.
\<close>

text \<open>The UTF-8 bytes of the three Chinese words that the logger itself uses.\<close>

definition time_key :: string where
  "time_key = [CHR 0xE6, CHR 0x97, CHR 0xB6, CHR 0xE9, CHR 0x97, CHR 0xB4]"

definition type_key :: string where
  "type_key = [CHR 0xE7, CHR 0xB1, CHR 0xBB, CHR 0xE5, CHR 0x9E, CHR 0x8B]"

definition error_word :: string where
  "error_word = [CHR 0xE9, CHR 0x94, CHR 0x99, CHR 0xE8, CHR 0xAF, CHR 0xAF]"

section \<open>Render\<close>

definition needs_quotes :: "string \<Rightarrow> bool" where
  "needs_quotes v \<longleftrightarrow> (\<exists>c\<in>set v. c = CHR '' '' \<or> c = CHR 0x09 \<or> c = CHR 0x0A \<or> c = CHR 0x22)"

fun escape_quotes :: "string \<Rightarrow> string" where
  "escape_quotes [] = []"
| "escape_quotes (c # s) = (if c = CHR 0x22 then [CHR 0x5C, CHR 0x22] else [c]) @ escape_quotes s"

definition quote_value :: "string \<Rightarrow> string" where
  "quote_value v = (if needs_quotes v then CHR 0x22 # escape_quotes v @ [CHR 0x22] else v)"

type_synonym log_fields = "(string \<times> string) list"

definition with_default :: "string \<Rightarrow> string \<Rightarrow> log_fields \<Rightarrow> log_fields" where
  "with_default key value kvs = (if map_of kvs key = None then AList.update key value kvs else kvs)"

definition render :: "(log_fields \<Rightarrow> log_fields) \<Rightarrow> time \<Rightarrow> string \<Rightarrow> log_fields \<Rightarrow> string" where
  "render visit now tag kvs =
     (let f = with_default time_key (format_rfc3339 now) kvs;
          keys = sort (map fst (visit f));
          parts = (''['' @ tag @ '']'') # map (\<lambda>k. k @ ''='' @ quote_value (case map_of f k of None \<Rightarrow> [] | Some v \<Rightarrow> v)) keys
      in join_with '' '' parts)"

section \<open>A logger\<close>

record logger =
  lg_level :: int
  lg_lines :: "string list"

definition level_of :: "string \<Rightarrow> int" where
  "level_of level =
     (case map_of [(''debug'', 0), (''info'', 1), (''warn'', 2), (''error'', 3)] (to_lower level) of None \<Rightarrow> 1 | Some n \<Rightarrow> n)"

definition new_logger :: "string \<Rightarrow> logger" where
  "new_logger level = \<lparr>lg_level = level_of level, lg_lines = []\<rparr>"

definition write_line :: "(log_fields \<Rightarrow> log_fields) \<Rightarrow> time \<Rightarrow> string \<Rightarrow> log_fields \<Rightarrow> logger \<Rightarrow> logger" where
  "write_line visit now tag kvs l = l\<lparr>lg_lines := lg_lines l @ [render visit now tag kvs]\<rparr>"

definition log_info :: "(log_fields \<Rightarrow> log_fields) \<Rightarrow> time \<Rightarrow> string \<Rightarrow> log_fields \<Rightarrow> logger \<Rightarrow> logger" where
  "log_info visit now tag kvs l = (if lg_level l \<le> 1 then write_line visit now tag kvs l else l)"

definition log_error :: "(log_fields \<Rightarrow> log_fields) \<Rightarrow> time \<Rightarrow> log_fields \<Rightarrow> logger \<Rightarrow> logger" where
  "log_error visit now kvs l = write_line visit now error_word (with_default type_key error_word kvs) l"

section \<open>Reading a line back\<close>

text \<open>One field after another: a key up to the equals sign, then a quoted value or one up to the next blank.\<close>

fun read_quoted :: "string \<Rightarrow> (string \<times> string) option" where
  "read_quoted [] = None"
| "read_quoted (c # s) =
     (if c = CHR 0x22 then Some ([], s)
      else if c = CHR 0x5C \<and> s \<noteq> [] \<and> hd s = CHR 0x22 then map_option (\<lambda>(v, r). (CHR 0x22 # v, r)) (read_quoted (tl s))
      else map_option (\<lambda>(v, r). (c # v, r)) (read_quoted s))"

definition read_value :: "string \<Rightarrow> (string \<times> string) option" where
  "read_value s =
     (if s \<noteq> [] \<and> hd s = CHR 0x22 then read_quoted (tl s)
      else Some (takeWhile (\<lambda>c. c \<noteq> CHR '' '') s, dropWhile (\<lambda>c. c \<noteq> CHR '' '') s))"

fun read_fields :: "nat \<Rightarrow> string \<Rightarrow> log_fields option" where
  "read_fields 0 s = (if s = [] then Some [] else None)"
| "read_fields (Suc n) s =
     (case s of
        [] \<Rightarrow> None
      | c # r \<Rightarrow>
          let key = takeWhile (\<lambda>c. c \<noteq> CHR ''='') r
          in if c \<noteq> CHR '' '' \<or> length key = length r then None
             else Option.bind (read_value (drop (length key + 1) r)) (\<lambda>(v, rest).
               map_option ((#) (key, v)) (read_fields n rest)))"

text \<open>
  A value can be read back when no backslash stands before a quote or at its end, which is where \<open>Render\<close>
  writes an escape of its own.
\<close>

fun plain_escapes :: "string \<Rightarrow> bool" where
  "plain_escapes [] = True"
| "plain_escapes (c # s) \<longleftrightarrow> (c = CHR 0x5C \<longrightarrow> s \<noteq> [] \<and> hd s \<noteq> CHR 0x22) \<and> plain_escapes s"

lemma hd_escape: "s \<noteq> [] \<Longrightarrow> hd s \<noteq> CHR 0x22 \<Longrightarrow> escape_quotes s \<noteq> [] \<and> hd (escape_quotes s @ t) = hd s"
  by (cases s) auto

lemma read_quoted_escape: "plain_escapes v \<Longrightarrow> read_quoted (escape_quotes v @ CHR 0x22 # r) = Some (v, r)"
proof (induction v)
  case (Cons c v)
  then have IH: "read_quoted (escape_quotes v @ CHR 0x22 # r) = Some (v, r)" by simp
  show ?case
  proof (cases "c = CHR 0x5C")
    case True
    then have "v \<noteq> []" "hd v \<noteq> CHR 0x22" using Cons.prems by auto
    from hd_escape [OF this, of "CHR 0x22 # r"] this True IH show ?thesis by simp
  qed (simp add: IH)
qed simp

lemma read_value_quote:
  assumes "plain_escapes v" and "r = [] \<or> hd r = CHR '' ''"
  shows "read_value (quote_value v @ r) = Some (v, r)"
proof (cases "needs_quotes v")
  case True
  with read_quoted_escape [OF assms(1), of r] show ?thesis by (simp add: quote_value_def read_value_def)
next
  case False
  then have v: "\<forall>c\<in>set v. c \<noteq> CHR '' '' \<and> c \<noteq> CHR 0x22" by (auto simp: needs_quotes_def)
  have "hd (v @ r) \<noteq> CHR 0x22" if "v @ r \<noteq> []" using v assms(2) that by (cases v) auto
  moreover have "takeWhile (\<lambda>c. c \<noteq> CHR '' '') (v @ r) = v" "dropWhile (\<lambda>c. c \<noteq> CHR '' '') (v @ r) = r"
    using v assms(2) by (cases r; auto simp: takeWhile_append dropWhile_append)+
  ultimately show ?thesis using False by (auto simp: quote_value_def read_value_def)
qed

definition field_text :: "string \<times> string \<Rightarrow> string" where
  "field_text kv = '' '' @ fst kv @ ''='' @ quote_value (snd kv)"

lemma field_text_pair: "field_text (k, v) = CHR '' '' # k @ CHR ''='' # quote_value v"
  by (simp add: field_text_def)

lemma read_fields_texts:
  "\<forall>(k, v)\<in>set fs. CHR ''='' \<notin> set k \<and> plain_escapes v \<Longrightarrow> read_fields (length fs) (concat (map field_text fs)) = Some fs"
proof (induction fs)
  case (Cons kv fs)
  obtain k v where kv: "kv = (k, v)" by (cases kv)
  have k: "takeWhile (\<lambda>c. c \<noteq> CHR ''='') (k @ CHR ''='' # x) = k" for x using Cons.prems kv by (auto simp: takeWhile_append)
  let ?rest = "concat (map field_text fs)"
  have "?rest = [] \<or> hd ?rest = CHR '' ''" by (cases fs) (auto simp: field_text_def)
  then have "read_value (quote_value v @ ?rest) = Some (v, ?rest)" using Cons.prems kv by (intro read_value_quote) auto
  with Cons k show ?case by (auto simp: kv field_text_pair Let_def)
qed simp

section \<open>Properties\<close>

lemma join_parts: "join_with '' '' (t # map f ks) = t @ concat (map (\<lambda>k. '' '' @ f k) ks)"
  by (induction ks arbitrary: t) auto

lemma render_parts:
  fixes kvs :: log_fields
  assumes "mset (visit (with_default time_key (format_rfc3339 now) kvs)) = mset (with_default time_key (format_rfc3339 now) kvs)"
  defines "f \<equiv> with_default time_key (format_rfc3339 now) kvs"
  shows "render visit now tag kvs = ''['' @ tag @ '']'' @
    concat (map field_text (map (\<lambda>k. (k, case map_of f k of None \<Rightarrow> [] | Some v \<Rightarrow> v)) (sort (map fst f))))"
proof -
  have "mset (map fst (visit f)) = mset (map fst f)" using assms(1) by (simp add: f_def)
  then have "sort (map fst (visit f)) = sort (map fst f)" by (metis properties_for_sort sorted_sort mset_sort)
  then show ?thesis by (simp add: render_def Let_def f_def [symmetric] join_parts field_text_def o_def)
qed

text \<open>C16. A line starts with its tag and then holds the fields, sorted by key and in a form that can be read
  back: a reader that knows their number gets every key with its value, in whatever order the map was visited,
  as long as no key has an equals sign and no value a backslash before a quote or at its end.\<close>

theorem rendered_fields_are_read_back:
  fixes kvs :: log_fields
  assumes "f = with_default time_key (format_rfc3339 now) kvs" and "mset (visit f) = mset f" and "distinct (map fst f)"
    and "\<forall>(k, v)\<in>set f. CHR ''='' \<notin> set k \<and> plain_escapes v"
  shows "\<exists>line fs. render visit now tag kvs = ''['' @ tag @ '']'' @ line \<and> read_fields (length f) line = Some fs \<and>
    mset fs = mset f \<and> sorted (map fst fs)"
proof -
  define fs where "fs = map (\<lambda>k. (k, case map_of f k of None \<Rightarrow> [] | Some v \<Rightarrow> v)) (sort (map fst f))"
  have r: "render visit now tag kvs = ''['' @ tag @ '']'' @ concat (map field_text fs)"
    using render_parts [of visit now kvs tag] assms(1,2) by (simp add: fs_def)
  have "map (\<lambda>k. (k, case map_of f k of None \<Rightarrow> [] | Some v \<Rightarrow> v)) (map fst f) = f"
    unfolding map_map by (rule map_idI) (auto simp: map_of_is_SomeI [OF assms(3)])
  moreover have "mset fs = mset (map (\<lambda>k. (k, case map_of f k of None \<Rightarrow> [] | Some v \<Rightarrow> v)) (map fst f))"
    by (simp only: fs_def mset_map mset_sort)
  ultimately have m: "mset fs = mset f" by simp
  then have "set fs = set f" "length fs = length f" by (metis mset_eq_setD, metis size_mset)
  with read_fields_texts [of fs] assms(4) have "read_fields (length f) (concat (map field_text fs)) = Some fs" by simp
  moreover have "sorted (map fst fs)" by (simp add: fs_def o_def)
  ultimately show ?thesis using r m by blast
qed

text \<open>A line break in a value stays in the line, which is then two.\<close>

lemma line_break_is_kept:
  "render (\<lambda>f. f) 0 ''t'' [(time_key, ''now''), (''err'', [CHR ''a'', CHR 0x0A, CHR ''b''])] =
   ''[t] err='' @ [CHR 0x22, CHR ''a'', CHR 0x0A, CHR ''b'', CHR 0x22] @ '' '' @ time_key @ ''=now''"
  by code_simp

definition ex_fields :: log_fields where
  "ex_fields = [(time_key, ''now''), (''err'', ''say \"no\"'')]"

theorem rendered_fields_are_read_back_witness:
  "\<exists>line fs. render rev 0 ''t'' ex_fields = ''['' @ ''t'' @ '']'' @ line \<and>
     read_fields 2 line = Some fs \<and> map fst fs = [''err'', time_key]"
proof -
  have f: "ex_fields = with_default time_key (format_rfc3339 0) ex_fields" by (simp add: with_default_def ex_fields_def)
  have c: "\<forall>(k, v)\<in>set ex_fields. CHR ''='' \<notin> set k \<and> plain_escapes v" "distinct (map fst ex_fields)"
    "length ex_fields = 2" "sort (map fst ex_fields) = [''err'', time_key]" by code_simp+
  have v: "mset (rev ex_fields) = mset ex_fields" by simp
  obtain line fs where l: "render rev 0 ''t'' ex_fields = ''['' @ ''t'' @ '']'' @ line" "read_fields (length ex_fields) line = Some fs"
    "mset fs = mset ex_fields" "sorted (map fst fs)"
    using rendered_fields_are_read_back [where visit = rev and tag = "''t''", OF f v c(2,1)] by blast
  have "map fst fs = sort (map fst fs)" using l(4) by (simp add: sort_key_id_if_sorted)
  also have "\<dots> = sort (map fst ex_fields)" using l(3) by (metis mset_map properties_for_sort sorted_sort mset_sort)
  finally show ?thesis using l(1,2) c(3,4) by metis
qed

end
