(* ===== verification/App_Main.thy ===== *)
theory App_Main
  imports App_Start
begin

text \<open>
  \<open>cmd/app/main.go\<close>: the health check of the command line, which asks the server of another process of the same
  configuration. \<open>get\<close> is the status of an HTTP request. The rest of \<open>main\<close> is the order of calls: \<open>Load\<close>, \<open>New\<close>,
  \<open>Run\<close> and \<open>Close\<close>, with exit status 1 at the first error.
\<close>

definition env_or :: "config_env \<Rightarrow> string \<Rightarrow> string \<Rightarrow> string" where
  "env_or en key fallback = (if en_var en key \<noteq> [] then en_var en key else fallback)"

definition health_url :: "string \<Rightarrow> string" where
  "health_url port = ''http://127.0.0.1:'' @ port @ ''/health''"

definition check_health :: "config_env \<Rightarrow> (string \<Rightarrow> int res) \<Rightarrow> bool" where
  "check_health en get =
     (case split_host_port (env_or en ''RH_HTTP_ADDR'' ''127.0.0.1:8888'') of
        Inl _ \<Rightarrow> False
      | Inr (_, port) \<Rightarrow> (case get (health_url port) of Inl _ \<Rightarrow> False | Inr status \<Rightarrow> 200 \<le> status \<and> status < 300))"

text \<open>The process exits with 1 unless every stage succeeds; a failure to close is only logged.\<close>

definition exit_status :: "'a res \<Rightarrow> 'b res \<Rightarrow> 'c res \<Rightarrow> 'd res \<Rightarrow> int" where
  "exit_status loaded log_file started finished =
     (case bindE loaded (\<lambda>_. bindE log_file (\<lambda>_. bindE started (\<lambda>_. finished))) of Inl _ \<Rightarrow> 1 | Inr _ \<Rightarrow> 0)"

lemma health_check_asks_the_server:
  assumes "load_config en = Inr c" and "trim_space (en_var en ''RH_HTTP_ADDR'') = en_var en ''RH_HTTP_ADDR''"
  shows "\<exists>port. atoi port = Some (cf_port c) \<and>
    check_health en get = (case get (health_url port) of Inl _ \<Rightarrow> False | Inr status \<Rightarrow> 200 \<le> status \<and> status < 300)"
proof -
  let ?addr = "env_string en ''RH_HTTP_ADDR'' ''127.0.0.1:8888''"
  from assms(1) obtain c1 c2 and loaded :: loaded_rpc_file where h: "set_http ?addr c1 = Inr c2"
    and c: "c = c2\<lparr>cf_rpc_endpoints := lf_endpoints loaded, cf_rpc_endpoints_file := lf_path loaded,
                   cf_skip_history_lag := lf_skip_history_lag loaded\<rparr>"
    by (auto simp: load_config_def Let_def res_simps)
  from h obtain host port n where s: "split_host_port ?addr = Inr (host, port)" "atoi port = Some n" "c2 = c1\<lparr>cf_host := host, cf_port := n\<rparr>"
    by (auto simp: set_http_def res_simps split: option.splits)
  have "env_or en ''RH_HTTP_ADDR'' ''127.0.0.1:8888'' = ?addr" using assms(2) by (simp add: env_or_def env_string_def Let_def)
  with s c show ?thesis by (auto simp: check_health_def)
qed

text \<open>With a blank around the address the server starts, and the check asks for another URL.\<close>

definition ex_blank_env :: config_env where
  "ex_blank_env = ex_config_env\<lparr>en_var := (\<lambda>k. if k = ''RH_HTTP_ADDR'' then ''127.0.0.1:8888 '' else en_var ex_config_env k)\<rparr>"

lemma blank_address_fails_the_check:
  "(case load_config ex_blank_env of Inl _ \<Rightarrow> False | Inr c \<Rightarrow> cf_port c = 8888) \<and>
   \<not> check_health ex_blank_env (\<lambda>url. if url = health_url ''8888'' then Inr 200 else Inl E_transport)"
  by code_simp

end
