(* ===== verification/Spec2Isabelle.thy ===== *)
theory Spec2Isabelle
  imports Domain_Event_Id Domain_Fifo Venue_Route Venue_Pons Venue_O1crypto Venue_V4fill
    Chain_Trace Chain_Poller Chain_Client Price_Queue App_Scan App_Ticks
    Go_Time App_Signals Config_Load App_Start Http_Service Store_Text Store_Writer Store_Migrate Log_Render App_Main
begin

text \<open>
  Verification library of the Robinhood meme-token indexer (Go, module \<open>go_robinhood_meme_v1\<close>).

  The program. One process follows the chain (id 4663) block by block, recognises token launches
  and trades of the venues Pons and o1 crypto by their logs, prices the trades of a list of
  smart wallets, and keeps launches, trades and scores in SQLite, where an HTTP service and periodic
  jobs read them. The scanner (\<open>chain/poller.go\<close>) fetches a block through the RPC client and hands it to
  the block handler (\<open>app/process_block.go\<close>). The handler routes every log (\<open>venue/route.go\<close>) by the
  catalog of contracts and registered pools (\<open>contracts/catalog.go\<close>) to a decoder, adds prices
  (\<open>price\<close>) and traced native amounts (\<open>chain/trace.go\<close>), and commits the block and its watermark in one
  transaction (\<open>store/writer.go\<close>); then it updates the catalog, the set of prices to display and the
  counter of sells. All paths below are under \<open>src/internal\<close> unless they start with \<open>cmd\<close>.
\<close>

section \<open>How the model corresponds to the code\<close>

text \<open>
  Conventions. A struct is a record with a prefix per type, a Go error is a value of \<open>err\<close>, and
  \<open>f(...) (T, error)\<close> is a function into \<open>'a res\<close>. \<open>uint8\<close>, \<open>uint64\<close> and \<open>int64\<close> are words; \<open>int\<close> is a
  word where a value can leave 64 bits and an integer elsewhere; \<open>big.Int\<close> and \<open>big.Rat\<close> are \<open>int\<close> and
  \<open>rat\<close>. A text is its sequence of bytes. State is passed explicitly; code under a mutex, in a
  transaction or in one channel operation is one atomic step, and goroutines are interleavings of steps.

  Shared theories:
  Go_Prelude (errors, results, integers, \<open>range\<close> over a map),
  Go_Text (\<open>strings\<close>, \<open>strconv\<close>, \<open>hex\<close>, \<open>big.Int.SetString\<close>),
  Go_Time (\<open>time.Format\<close> and \<open>time.Parse\<close> of RFC 3339),
  Abi_Words (32-byte words; the locales \<open>strict_signed\<close> and \<open>strict_unsigned\<close>, which the copies of
  the decoders in the venue packages interpret).

  Package \<open>domain\<close>:
  Domain_Address (\<open>address.go\<close>), Domain_Event_Id (\<open>event_id.go\<close>), Domain_Launch (\<open>fill.go\<close>, \<open>launch*.go\<close>),
  Domain_Fifo (\<open>fifo.go\<close>: matching of sells with open lots), Domain_Score (\<open>score.go\<close>).

  Packages \<open>contracts\<close> and \<open>venue\<close>:
  Contracts_Catalog (\<open>addresses.go\<close>, \<open>catalog.go\<close>: the record \<open>catalog\<close>; the locale \<open>registry\<close> states what a
  table of registrations promises, for the pools and for the curves), Venue_Route (\<open>route.go\<close>),
  Venue_Pons (\<open>pons/\<close>), Venue_O1crypto (\<open>o1crypto/\<close>), Venue_V4fill (\<open>v4fill/\<close>: who made a swap).

  Package \<open>chain\<close>:
  Chain_Pool (\<open>pool.go\<close>: weighted round robin over token buckets), Chain_Client (\<open>client.go\<close>),
  Chain_Trace (\<open>trace.go\<close>), Chain_Receipts (\<open>receipts.go\<close>: a complete block),
  Chain_Poller (\<open>poller.go\<close>, \<open>reorg.go\<close>: a tick of the scanner over an arbitrary \<open>backend\<close>, with the locale
  \<open>watermark_store\<close> as what the scanner asks of it).

  Package \<open>store\<close>:
  Store_Db (the tables as the record \<open>db\<close>, one definition per statement; the locale \<open>detail_table\<close> for the two
  tables of launch details), Store_Commit (\<open>CommitBlock\<close>), Store_Events (single writes, queries, purge),
  Store_Invariant (what holds of every reachable database), Store_Writer (the write queue as a state machine),
  Store_Text (the statements on columns of times, translated over the texts that the tables hold),
  Store_Migrate (\<open>migrate.go\<close>).

  Packages \<open>price\<close>, \<open>wallets\<close>, \<open>score\<close> and \<open>logx\<close>:
  Price_Exec (\<open>exec.go\<close>, \<open>binance.go\<close>, \<open>dirty.go\<close>), Price_Queue (the abstract queue that \<open>dirty.go\<close> implements),
  Wallets_Snapshot (\<open>snapshot.go\<close>), Score_Recalc (\<open>score.go\<close>), Log_Render (\<open>logx.go\<close>).

  Packages \<open>app\<close>, \<open>config\<close>, \<open>httpsvc\<close> and \<open>cmd/app\<close>:
  App_Process (\<open>process_block.go\<close>, \<open>native_quote.go\<close>: the record \<open>app\<close> and one block), App_Run (the handler
  behind the scanner; the locale \<open>block_invariant\<close> for what every handler of a log keeps), App_Scan (whole runs),
  App_Ticks (\<open>New\<close>, the periodic work and the states of the process), App_Signals (\<open>ListSignals\<close>, \<open>logSignals\<close>),
  Config_Load (\<open>config.go\<close>, \<open>rpcs.go\<close>), App_Start (\<open>connectChain\<close>), Http_Service (the four handlers),
  App_Main (the health check of \<open>cmd/app/main.go\<close>).
\<close>

section \<open>What the theorems show\<close>

text \<open>
  Properties that cross components. In every state of a running process the tables, the catalog,
  the wallets, the set of prices and the counter satisfy their invariants (App_Ticks). A
  failing block leaves the database as it was and the catalog rebuilt from it, only trades of active listed
  wallets are recorded, and a run of the scanner goes through the blocks behind its watermark in order, leaves out
  nothing but what the documented skip of old history passes over, and keeps up with the head (App_Scan). A
  configuration that loads is accepted by every component it is handed to, except that the price feed checks its
  own address (Config_Load), and the start connects as soon as an endpoint answers (App_Start).
  A page of wallet events shows the profit of the replay of the stored trades, and following the cursors of
  \<open>/launches\<close> gives every launch once (Http_Service). Signals are reported once a day (App_Signals).

  Refinements and equivalences. The set of prices refines a bounded queue (Price_Queue), and the write queue,
  in any interleaving of its callers, the serial execution of its transactions (Store_Writer). Rebuilding the
  registrations is registering them one by one (Contracts_Catalog), the three ways to fetch
  receipts agree (Chain_Receipts), an upgrade gives what a fresh install gives (Store_Migrate), and the
  statements give on the texts of times what they give on the times (Store_Text).

  Functional properties, bounds and round trips of single components: the FIFO balance (Domain_Fifo), bounds and levels of a
  score (Domain_Score), the order of event keys (Domain_Event_Id), the unique attribution of a swap (Venue_V4fill), exact
  decoding of launches and trades (Venue_Pons, Venue_O1crypto), net flows of a trace (Chain_Trace), complete
  and linked blocks (Chain_Receipts, Chain_Poller), the resting of limited endpoints (Chain_Pool), batch results decoded
  from the reply with their id in the answer of the node (Chain_Client), idempotent commits (Store_Commit), the purge (Store_Invariant), execution prices
  and the feed (Price_Exec), the list of wallets (Wallets_Snapshot), isolated failures of a
  recalculation (Score_Recalc), log lines that can be read back (Log_Render).

  What the model showed of the code: without a trace endpoint the guard against a missing trace client never
  holds and a native trade panics (App_Scan); event keys beyond their documented width collide (Domain_Event_Id); a
  retention of 106752 days or more wraps around and deletes every event (Store_Invariant); \<open>Validate\<close> has
  no upper bounds on most durations, which can wrap around later (Config_Load); a write whose caller gives
  up may still be committed (Store_Writer); a line break in a field breaks the log line (Log_Render);
  a mismatch of decimals aborts the replay (Domain_Fifo); the health check does not trim its address (App_Main).
\<close>

section \<open>Bounds, fuel and parameters\<close>

text \<open>
  Loops. Recursion is structural, or ends by a measure that the theory proves. The loop of the purge is a
  partial function, and its property shows that it returns. No definition has fuel beyond the bounds of the code
  itself: three attempts of a start, the allowance of blocks per tick, the depth and the nodes of a
  trace. A run of the scanner, of the write queue or of the process is a finite sequence of steps of any
  length; a panic of the block handler ends it. The client that follows cursors reads as many pages as a number it is given; the property says
  which number is enough.

  Parameters, each with what is assumed of it as a named predicate. go-ethereum's \<open>IsHexAddress\<close> and
  \<open>HexToAddress\<close> (\<open>eth_ok\<close>); the rounding of floating-point operations and \<open>math.Tanh\<close> (\<open>rounding_ok\<close>, \<open>tanh_ok\<close>);
  the order in which \<open>range\<close> visits a map (\<open>go_range\<close>) and in which a query without \<open>ORDER BY\<close> meets its rows; \<open>encoding/json\<close>
  and \<open>url.Parse\<close>; what the nodes and the price feed answer; when the database fails and what the clock shows; the
  environment variables and files; the migration scripts and their checksum. Every hypothesis has an
  instance: the witnesses evaluate the properties on concrete functions.
\<close>

section \<open>Not modelled\<close>

text \<open>
  \<open>store/sqlite.go\<close> opens the connections and sets pragmas: nothing but calls of the SQLite driver. That a
  transaction is atomic and that there is one writer are assumptions on that driver, built into Store_Db. Around the HTTP
  handlers, the go-zero server (routes, timeouts, recovery from panics, JSON encoding of the
  replies; \<open>httpsvc/server.go\<close>) is a library. \<open>App.Run\<close>, \<open>runTicks\<close> and \<open>main\<close> start and stop goroutines,
  tickers, flags and signal handlers: the work they call is modelled and the order of it left open, as any
  interleaving. Functions that only build log lines of the block handler (\<open>logWalletEvent\<close>, \<open>logLaunches\<close>,
  \<open>launchFields\<close>, \<open>directionName\<close>, \<open>venueDisplay\<close>) change no state, and so do the texts of errors, labels of endpoints and
  the reasons of skipped ones. \<open>OpenDirFile\<close> of \<open>logx.go\<close> is I/O.
\<close>

end
